(* ===== verification/Prelude.thy ===== *)
theory Prelude
  imports Main "HOL-Library.AList" "HOL-Library.Char_ord" "HOL-Library.List_Lexorder"
    "HOL-Library.Product_Lexorder" "HOL-Library.Sublist"
begin

text \<open>
  Shared vocabulary of the development: the result type of fallible code (\<open>Inl\<close> an exception,
  \<open>Inr\<close> a value) with its sequencing combinators, the Python string operations the
  program uses, Python's insertion-ordered dictionaries as association lists, and the
  generic lemmas on them.

  A Python string is a sequence of code points.  The model represents the code points below 256
  (\<^typ>\<open>string\<close> is a list of 8-bit characters); every string operation below is the
  Python one on that range, with the single exception of the micro sign (code point 181),
  whose case folding lies outside the range and which is left as it is.
\<close>

section \<open>Collections\<close>

named_theorems result_simps \<open>what a successful or failing run of sequenced code means\<close>
named_theorems text_simps \<open>facts on Python string operations\<close>

section \<open>Sequencing fallible code\<close>

text \<open>A statement that may raise, followed by the rest of the function body.\<close>

definition rbind :: "'e + 'a \<Rightarrow> ('a \<Rightarrow> 'e + 'b) \<Rightarrow> 'e + 'b" where
  "rbind m f = (case m of Inl e \<Rightarrow> Inl e | Inr x \<Rightarrow> f x)"

text \<open>\<open>if cond: raise exc\<close>.\<close>

definition raise_if :: "bool \<Rightarrow> 'e \<Rightarrow> 'e + unit" where
  "raise_if c e = (if c then Inl e else Inr ())"

text \<open>A \<open>for\<close> loop whose body may raise: it stops at the first exception.\<close>

fun rmap :: "('a \<Rightarrow> 'e + 'b) \<Rightarrow> 'a list \<Rightarrow> 'e + 'b list" where
  "rmap f [] = Inr []"
| "rmap f (x # xs) = rbind (f x) (\<lambda>y. rbind (rmap f xs) (\<lambda>ys. Inr (y # ys)))"

fun rfold :: "('a \<Rightarrow> 's \<Rightarrow> 'e + 's) \<Rightarrow> 'a list \<Rightarrow> 's \<Rightarrow> 'e + 's" where
  "rfold f [] s = Inr s"
| "rfold f (x # xs) s = rbind (f x s) (rfold f xs)"

definition rcheck :: "('a \<Rightarrow> 'e + unit) \<Rightarrow> 'a list \<Rightarrow> 'e + unit" where
  "rcheck f xs = rfold (\<lambda>x _. f x) xs ()"

lemma rbind_simps [simp]: "rbind (Inl e) f = Inl e" "rbind (Inr x) f = f x"
  by (simp_all add: rbind_def)

lemma rbind_eq_Inr_iff [result_simps]:
  "rbind m f = Inr y \<longleftrightarrow> (\<exists>x. m = Inr x \<and> f x = Inr y)"
  by (cases m) simp_all

lemma rbind_eq_Inl_iff [result_simps]:
  "rbind m f = Inl e \<longleftrightarrow> m = Inl e \<or> (\<exists>x. m = Inr x \<and> f x = Inl e)"
  by (cases m) simp_all

lemma rbind_cong [fundef_cong]:
  "m = m' \<Longrightarrow> (\<And>x. m' = Inr x \<Longrightarrow> f x = f' x) \<Longrightarrow> rbind m f = rbind m' f'"
  by (cases m') simp_all

lemma raise_if_simps [simp]: "raise_if True e = Inl e" "raise_if False e = Inr ()"
  by (simp_all add: raise_if_def)

lemma raise_if_eq_Inr_iff [result_simps]: "raise_if c e = Inr u \<longleftrightarrow> \<not> c"
  by (simp add: raise_if_def)

lemma raise_if_eq_Inl_iff [result_simps]: "raise_if c e = Inl x \<longleftrightarrow> c \<and> e = x"
  by (simp add: raise_if_def)

lemma rcheck_simps [simp]:
  "rcheck f [] = Inr ()"
  "rcheck f (x # xs) = rbind (f x) (\<lambda>_. rcheck f xs)"
  by (simp_all add: rcheck_def)

lemma rcheck_eq_Inr_iff [result_simps]:
  "rcheck f xs = Inr u \<longleftrightarrow> (\<forall>x \<in> set xs. f x = Inr ())"
  by (induction xs) (auto simp: rbind_eq_Inr_iff)

lemma rcheck_InlD: "rcheck f xs = Inl e \<Longrightarrow> \<exists>x \<in> set xs. f x = Inl e"
  by (induction xs) (auto simp: rbind_eq_Inl_iff)

lemma rmap_eq_Inr_iff: "rmap f xs = Inr ys \<longleftrightarrow> list_all2 (\<lambda>x y. f x = Inr y) xs ys"
  by (induction xs arbitrary: ys) (auto simp: rbind_eq_Inr_iff list_all2_Cons1)

lemma rmap_length: "rmap f xs = Inr ys \<Longrightarrow> length ys = length xs"
  by (simp add: rmap_eq_Inr_iff list_all2_lengthD)

lemma rmap_nth: "rmap f xs = Inr ys \<Longrightarrow> i < length xs \<Longrightarrow> f (xs ! i) = Inr (ys ! i)"
  unfolding rmap_eq_Inr_iff by (drule list_all2_nthD) simp_all

lemma rmap_InlD: "rmap f xs = Inl e \<Longrightarrow> \<exists>x \<in> set xs. f x = Inl e"
  by (induction xs) (auto simp: rbind_eq_Inl_iff)

lemma rmap_Inr_set: "rmap f xs = Inr ys \<Longrightarrow> y \<in> set ys \<Longrightarrow> \<exists>x \<in> set xs. f x = Inr y"
  by (induction xs arbitrary: ys) (auto simp: rbind_eq_Inr_iff)

lemma rmap_cong [fundef_cong]:
  "xs = ys \<Longrightarrow> (\<And>x. x \<in> set ys \<Longrightarrow> f x = g x) \<Longrightarrow> rmap f xs = rmap g ys"
  by (induction ys arbitrary: xs) (auto intro!: rbind_cong)

text \<open>An invariant of a loop body is an invariant of the loop.\<close>

lemma rfold_invariant:
  assumes "rfold f xs s = Inr t" and "P s"
    and "\<And>x u v. x \<in> set xs \<Longrightarrow> P u \<Longrightarrow> f x u = Inr v \<Longrightarrow> P v"
  shows "P t"
  using assms
proof (induction xs arbitrary: s)
  case Nil
  then show ?case by simp
next
  case (Cons x xs)
  from Cons.prems(1) obtain u where u: "f x s = Inr u" "rfold f xs u = Inr t"
    by (auto simp: rbind_eq_Inr_iff)
  have "P u" using Cons.prems(2,3) u(1) by (metis list.set_intros(1))
  with u(2) show ?case using Cons.IH Cons.prems(3) by (meson list.set_intros(2))
qed

lemma rfold_InlD:
  "rfold f xs s = Inl e \<Longrightarrow> \<exists>x \<in> set xs. \<exists>u. f x u = Inl e"
  by (induction xs arbitrary: s) (auto simp: rbind_eq_Inl_iff)

lemma rfold_append: "rfold f (xs @ ys) s = rbind (rfold f xs s) (rfold f ys)"
proof (induction xs arbitrary: s)
  case Nil
  then show ?case by simp
next
  case (Cons x xs)
  then show ?case by (cases "f x s") simp_all
qed

text \<open>\<open>try: m except: handler\<close>.\<close>

definition rcatch :: "'e + 'a \<Rightarrow> ('e \<Rightarrow> 'e + 'a) \<Rightarrow> 'e + 'a" where
  "rcatch m h = (case m of Inl e \<Rightarrow> h e | Inr x \<Rightarrow> Inr x)"

lemma rcatch_simps [simp]: "rcatch (Inl e) h = h e" "rcatch (Inr x) h = Inr x"
  by (simp_all add: rcatch_def)

lemma rcatch_eq_Inr_iff [result_simps]:
  "rcatch m h = Inr y \<longleftrightarrow> m = Inr y \<or> (\<exists>e. m = Inl e \<and> h e = Inr y)"
  by (cases m) simp_all

section \<open>Fallible code over a state\<close>

text \<open>
  Code that may raise and changes a shared object: the object keeps its changes when an
  exception passes through.
\<close>

type_synonym ('s, 'e, 'a) stateful = "'s \<Rightarrow> ('e + 'a) \<times> 's"

definition sreturn :: "'a \<Rightarrow> ('s, 'e, 'a) stateful" where
  "sreturn x s = (Inr x, s)"

definition slift :: "'e + 'a \<Rightarrow> ('s, 'e, 'a) stateful" where
  "slift m s = (m, s)"

definition sbind :: "('s, 'e, 'a) stateful \<Rightarrow> ('a \<Rightarrow> ('s, 'e, 'b) stateful) \<Rightarrow> ('s, 'e, 'b) stateful" where
  "sbind m f s = (case m s of (Inl e, s') \<Rightarrow> (Inl e, s') | (Inr x, s') \<Rightarrow> f x s')"

fun sfold :: "('a \<Rightarrow> 'b \<Rightarrow> ('s, 'e, 'b) stateful) \<Rightarrow> 'a list \<Rightarrow> 'b \<Rightarrow> ('s, 'e, 'b) stateful" where
  "sfold f [] b = sreturn b"
| "sfold f (x # xs) b = sbind (f x b) (sfold f xs)"

text \<open>
  \<open>runs_to I m r\<close>: from any state satisfying \<open>I\<close> the code \<open>m\<close> ends with \<open>r\<close> in a state
  satisfying \<open>I\<close>; the state is an implementation detail of a value that does not depend on it.
\<close>

definition runs_to :: "('s \<Rightarrow> bool) \<Rightarrow> ('s, 'e, 'a) stateful \<Rightarrow> 'e + 'a \<Rightarrow> bool" where
  "runs_to I m r \<longleftrightarrow> (\<forall>s. I s \<longrightarrow> fst (m s) = r \<and> I (snd (m s)))"

lemma runs_toD: "runs_to I m r \<Longrightarrow> I s \<Longrightarrow> \<exists>s'. m s = (r, s') \<and> I s'"
  by (auto simp: runs_to_def intro!: exI [of _ "snd (m s)"] prod_eqI)

lemma runs_to_sreturn [intro]: "runs_to I (sreturn x) (Inr x)"
  by (simp add: runs_to_def sreturn_def)

lemma runs_to_slift [intro]: "runs_to I (slift r) r"
  by (simp add: runs_to_def slift_def)

lemma runs_to_sbind:
  assumes "runs_to I m r" and "\<And>x. r = Inr x \<Longrightarrow> runs_to I (f x) (g x)"
  shows "runs_to I (sbind m f) (rbind r g)"
  unfolding runs_to_def
proof (intro allI impI)
  fix s assume "I s"
  then obtain s' where s': "m s = (r, s')" "I s'" using runs_toD [OF assms(1)] by blast
  show "fst (sbind m f s) = rbind r g \<and> I (snd (sbind m f s))"
  proof (cases r)
    case (Inl e)
    with s' show ?thesis by (simp add: sbind_def)
  next
    case (Inr x)
    with s' assms(2) [OF Inr] show ?thesis by (simp add: sbind_def runs_to_def)
  qed
qed

lemma runs_to_sfold:
  assumes "\<And>x b. x \<in> set xs \<Longrightarrow> runs_to I (f x b) (g x b)"
  shows "runs_to I (sfold f xs b) (rfold g xs b)"
  using assms
proof (induction xs arbitrary: b)
  case Nil
  then show ?case by auto
next
  case (Cons x xs)
  then show ?case by (auto intro!: runs_to_sbind)
qed

lemma sbind_eq_Inr_iff [result_simps]:
  "sbind m f s = (Inr y, t) \<longleftrightarrow> (\<exists>x s'. m s = (Inr x, s') \<and> f x s' = (Inr y, t))"
  by (auto simp: sbind_def split: prod.splits sum.splits)

lemma slift_Inr_iff [result_simps]: "slift r s = (Inr x, s') \<longleftrightarrow> r = Inr x \<and> s' = s"
  by (auto simp: slift_def)

lemma sreturn_Inr_iff [result_simps]: "sreturn v s = (Inr x, s') \<longleftrightarrow> x = v \<and> s' = s"
  by (auto simp: sreturn_def)

lemma sbind_slift_Inr: "sbind (slift (Inr x)) f = f x"
  by (simp add: sbind_def slift_def fun_eq_iff)

lemma sbind_slift_InrD:
  "sbind (slift r) f s = (Inr y, t) \<Longrightarrow> \<exists>x. r = Inr x \<and> f x s = (Inr y, t)"
  by (cases r) (auto simp: sbind_def slift_def)

text \<open>Code over no state at all is fallible code.\<close>

lemma fst_sbind_unit: "fst (sbind m f ()) = rbind (fst (m ())) (\<lambda>x. fst (f x ()))"
  by (auto simp: sbind_def rbind_def split: prod.splits sum.splits)

lemma fst_sfold_unit: "fst (sfold f xs b ()) = rfold (\<lambda>x b. fst (f x b ())) xs b"
  by (induction xs arbitrary: b) (simp_all add: sreturn_def fst_sbind_unit)

lemmas stateless = fst_sbind_unit fst_sfold_unit

lemma runs_to_stateless:
  "runs_to I m (fst (n ())) \<Longrightarrow> (\<And>x. fst (n ()) = Inr x \<Longrightarrow> runs_to I (f x) (fst (g x ()))) \<Longrightarrow>
     runs_to I (sbind m f) (fst (sbind n g ()))"
  unfolding fst_sbind_unit by (rule runs_to_sbind)

lemma runs_to_stateless_sfold:
  "(\<And>x b. x \<in> set xs \<Longrightarrow> runs_to I (f x b) (fst (g x b ()))) \<Longrightarrow>
     runs_to I (sfold f xs b) (fst (sfold g xs b ()))"
  unfolding fst_sfold_unit by (rule runs_to_sfold)

lemma runs_to_slift_stateless: "runs_to I (slift r) (fst (slift r ()))"
  by (simp add: runs_to_def slift_def)

lemma runs_to_sreturn_stateless: "runs_to I (sreturn x) (fst (sreturn x ()))"
  by (simp add: runs_to_def sreturn_def)

lemmas runs_to_stateless_intros =
  runs_to_stateless runs_to_stateless_sfold runs_to_slift_stateless runs_to_sreturn_stateless

end
