(* ===== verification/Pystr.thy ===== *)
theory Pystr
  imports Prelude
begin

text \<open>
  The Python string operations the program uses, on the code points below 256: case folding,
  prefixes and substrings, decimal numerals, \<open>repr\<close>, \<open>join\<close> and \<open>replace\<close>.
\<close>

section \<open>Case folding\<close>

text \<open>
  \<open>str.casefold\<close>: the letters \<open>A\<close>-\<open>Z\<close> and the Latin-1 capitals go to their
  small forms (32 code points up), the sharp s unfolds to two letters, all else stays.
\<close>

definition fold_char :: "char \<Rightarrow> string" where
  "fold_char c = (let n = (of_char c :: nat) in
     if 65 \<le> n \<and> n \<le> 90 \<or> 192 \<le> n \<and> n \<le> 222 \<and> n \<noteq> 215 then [char_of (n + 32)]
     else if n = 223 then ''ss'' else [c])"

definition casefold :: "string \<Rightarrow> string" where
  "casefold s = concat (map fold_char s)"

lemma casefold_simps [simp]:
  "casefold [] = []"
  "casefold (c # s) = fold_char c @ casefold s"
  by (simp_all add: casefold_def)

lemma casefold_append [text_simps]: "casefold (s @ t) = casefold s @ casefold t"
  by (simp add: casefold_def)

lemma fold_char_fixed:
  assumes "d \<in> set (fold_char c)"
  shows "fold_char d = [d]"
proof -
  have bound: "(of_char c :: nat) < 256"
    by (metis nat_of_char_less_256)
  show ?thesis
  proof (cases "fold_char c = [c]")
    case True
    with assms show ?thesis by simp
  next
    case False
    then consider (upper) "65 \<le> (of_char c :: nat) \<and> (of_char c :: nat) \<le> 90 \<or>
          192 \<le> (of_char c :: nat) \<and> (of_char c :: nat) \<le> 222 \<and> (of_char c :: nat) \<noteq> 215"
      | (sharp) "(of_char c :: nat) = 223"
      by (auto simp: fold_char_def Let_def split: if_splits)
    then show ?thesis
    proof cases
      case upper
      with assms have "d = char_of ((of_char c :: nat) + 32)"
        by (auto simp: fold_char_def Let_def)
      moreover from upper have "(of_char c :: nat) + 32 < 256" by auto
      ultimately have "(of_char d :: nat) = of_char c + 32"
        by (simp add: of_char_of)
      with upper show ?thesis by (auto simp: fold_char_def Let_def)
    next
      case sharp
      with assms have "d = CHR ''s''" by (auto simp: fold_char_def Let_def)
      then show ?thesis by (simp add: fold_char_def)
    qed
  qed
qed

lemma casefold_id: "(\<And>c. c \<in> set s \<Longrightarrow> fold_char c = [c]) \<Longrightarrow> casefold s = s"
  by (induction s) auto

lemma casefold_idem [simp]: "casefold (casefold s) = casefold s"
  by (rule casefold_id) (auto simp: casefold_def dest: fold_char_fixed)

lemma casefold_eq_Nil_iff [simp]: "casefold s = [] \<longleftrightarrow> s = []"
  by (cases s) (auto simp: fold_char_def Let_def)

section \<open>Prefixes and substrings\<close>

abbreviation startswith :: "string \<Rightarrow> string \<Rightarrow> bool" where
  "startswith s p \<equiv> prefix p s"

text \<open>\<open>needle in s\<close>.\<close>

fun is_substr :: "string \<Rightarrow> string \<Rightarrow> bool" where
  "is_substr p [] = (p = [])"
| "is_substr p (c # s) = (prefix p (c # s) \<or> is_substr p s)"

lemma is_substr_iff [text_simps]: "is_substr p s \<longleftrightarrow> (\<exists>u v. s = u @ p @ v)"
proof (induction s)
  case Nil
  then show ?case by auto
next
  case (Cons c s)
  have "(\<exists>u v. c # s = u @ p @ v) \<longleftrightarrow> prefix p (c # s) \<or> (\<exists>u v. s = u @ p @ v)"
    by (auto simp: prefix_def Cons_eq_append_conv)
  with Cons show ?case by simp
qed

lemma prefix_is_substr: "prefix p s \<Longrightarrow> is_substr p s"
  by (cases s) auto

lemma is_substr_Nil [simp]: "is_substr [] s"
  by (cases s) auto

section \<open>Decimal numerals\<close>

text \<open>\<open>str(n)\<close> for a non-negative integer; most significant digit first.\<close>

definition digit_char :: "nat \<Rightarrow> char" where
  "digit_char d = char_of (48 + d)"

fun str_nat :: "nat \<Rightarrow> string" where
  "str_nat n = (if n < 10 then [digit_char n] else str_nat (n div 10) @ [digit_char (n mod 10)])"

declare str_nat.simps [simp del]

definition str_int :: "int \<Rightarrow> string" where
  "str_int i = (if i < 0 then CHR ''-'' # str_nat (nat (- i)) else str_nat (nat i))"

definition is_ascii_digit :: "char \<Rightarrow> bool" where
  "is_ascii_digit c \<longleftrightarrow> 48 \<le> (of_char c :: nat) \<and> (of_char c :: nat) \<le> 57"

text \<open>
  \<open>str.isdigit\<close> is also true of the superscript digits (code points 178, 179, 185), which
  \<open>int\<close> does not accept.
\<close>

definition isdigit :: "string \<Rightarrow> bool" where
  "isdigit s \<longleftrightarrow> s \<noteq> [] \<and>
     list_all (\<lambda>c. is_ascii_digit c \<or> (of_char c :: nat) \<in> {178, 179, 185}) s"

text \<open>\<open>int(s)\<close> for a string of digits; \<open>None\<close> is \<open>ValueError\<close>.\<close>

definition int_of_digits :: "string \<Rightarrow> int option" where
  "int_of_digits s =
     (if s \<noteq> [] \<and> list_all is_ascii_digit s
      then Some (foldl (\<lambda>a c. 10 * a + (of_char c - 48)) 0 s) else None)"

lemma of_digit_char: "d < 10 \<Longrightarrow> (of_char (digit_char d) :: nat) = 48 + d"
  by (simp add: digit_char_def of_char_of)

lemma of_digit_char_int: "d < 10 \<Longrightarrow> (of_char (digit_char d) :: int) = 48 + int d"
  using of_digit_char [of d] by (metis of_nat_add of_nat_numeral of_nat_of_char)

lemma is_ascii_digit_digit_char [simp]: "d < 10 \<Longrightarrow> is_ascii_digit (digit_char d)"
  by (simp add: is_ascii_digit_def of_digit_char)

lemma str_nat_neq_Nil [simp]: "str_nat n \<noteq> []"
  by (subst str_nat.simps) simp

lemma str_nat_digits: "list_all is_ascii_digit (str_nat n)"
proof (induction n rule: str_nat.induct)
  case (1 n)
  then show ?case by (subst str_nat.simps) auto
qed

lemma str_nat_value: "foldl (\<lambda>a c. 10 * a + (of_char c - 48)) (0::int) (str_nat n) = int n"
proof (induction n rule: str_nat.induct)
  case (1 n)
  show ?case
  proof (cases "n < 10")
    case True
    then show ?thesis by (subst str_nat.simps) (simp add: of_digit_char_int)
  next
    case False
    with 1 have IH: "foldl (\<lambda>a c. 10 * a + (of_char c - 48)) (0::int) (str_nat (n div 10))
        = int (n div 10)" by simp
    have "10 * int (n div 10) + int (n mod 10) = int n"
      by (metis mult_div_mod_eq of_nat_add of_nat_mult of_nat_numeral)
    with False IH show ?thesis by (subst str_nat.simps) (simp add: of_digit_char_int)
  qed
qed

lemma int_of_digits_str_nat [simp]: "int_of_digits (str_nat n) = Some (int n)"
  by (simp add: int_of_digits_def str_nat_value str_nat_digits)

lemma isdigit_str_nat [simp]: "isdigit (str_nat n)"
  using str_nat_digits [of n] by (auto simp: isdigit_def list_all_iff)

lemma str_nat_inj: "str_nat m = str_nat n \<Longrightarrow> m = n"
  by (metis int_of_digits_str_nat of_nat_eq_iff option.inject)

lemma int_of_digits_isdigit: "int_of_digits s = Some n \<Longrightarrow> isdigit s"
  by (auto simp: int_of_digits_def isdigit_def list_all_iff split: if_splits)

lemma int_of_digits_nonneg: "int_of_digits s = Some n \<Longrightarrow> 0 \<le> n"
proof -
  have "0 \<le> foldl (\<lambda>a c. 10 * a + (of_char c - 48)) a s"
    if "0 \<le> a" "list_all is_ascii_digit s" for a :: int and s
    using that
  proof (induction s arbitrary: a)
    case Nil
    then show ?case by simp
  next
    case (Cons c s)
    then have "(48 :: int) \<le> of_char c"
      by (simp add: is_ascii_digit_def)
        (metis of_nat_le_iff of_nat_numeral of_nat_of_char)
    with Cons show ?case by simp
  qed
  then show "int_of_digits s = Some n \<Longrightarrow> 0 \<le> n"
    by (auto simp: int_of_digits_def split: if_splits)
qed

section \<open>Formatting\<close>

definition upper_char :: "char \<Rightarrow> char" where
  "upper_char c = (let n = (of_char c :: nat) in
     if 97 \<le> n \<and> n \<le> 122 \<or> 224 \<le> n \<and> n \<le> 254 \<and> n \<noteq> 247 then char_of (n - 32) else c)"

fun join :: "string \<Rightarrow> string list \<Rightarrow> string" where
  "join sep [] = []"
| "join sep [s] = s"
| "join sep (s # ss) = s @ sep @ join sep ss"

text \<open>\<open>s.replace(c, new)\<close> for a one-character \<open>c\<close>.\<close>

definition replace_char :: "char \<Rightarrow> string \<Rightarrow> string \<Rightarrow> string" where
  "replace_char c new s = concat (map (\<lambda>x. if x = c then new else [x]) s)"

text \<open>\<open>s.replace(old, new, 1)\<close>: the first occurrence only.\<close>

fun replace_first :: "string \<Rightarrow> string \<Rightarrow> string \<Rightarrow> string" where
  "replace_first old new [] = (if old = [] then new else [])"
| "replace_first old new (c # s) =
     (if prefix old (c # s) then new @ drop (length old) (c # s)
      else c # replace_first old new s)"

text \<open>
  \<open>repr(s)\<close>: single quotes unless the string holds a single quote and no double quote;
  backslashes, the quote in use and non-printable characters are escaped.
\<close>

definition hex_digit :: "nat \<Rightarrow> char" where
  "hex_digit d = (if d < 10 then digit_char d else char_of (87 + d))"

definition repr_char :: "char \<Rightarrow> char \<Rightarrow> string" where
  "repr_char q c = (let n = (of_char c :: nat) in
     if c = q \<or> n = 92 then [char_of (92 :: nat), c]
     else if n = 9 then [char_of (92 :: nat), CHR ''t'']
     else if n = 10 then [char_of (92 :: nat), CHR ''n'']
     else if n = 13 then [char_of (92 :: nat), CHR ''r'']
     else if n < 32 \<or> 127 \<le> n \<and> n \<le> 160 \<or> n = 173
       then [char_of (92 :: nat), CHR ''x'', hex_digit (n div 16), hex_digit (n mod 16)]
     else [c])"

definition py_repr :: "string \<Rightarrow> string" where
  "py_repr s = (let q = (if CHR 0x27 \<in> set s \<and> CHR 0x22 \<notin> set s then CHR 0x22 else CHR 0x27)
     in [q] @ concat (map (repr_char q) s) @ [q])"

end
