(* ===== verification/Errors.thy ===== *)
theory Errors
  imports Pystr
begin

text \<open>
  \<open>errors.py\<close> and \<open>security/reasons.py\<close>: the error codes, the \<open>DomainError\<close>
  that every operation raises towards the caller, the fixed catalog of rejection reasons with
  \<open>reject\<close> of \<open>security/parser.py\<close>, and the exceptions of the libraries the program
  handles.  Every fallible definition of the development returns \<open>exn + 'a\<close>.
\<close>

section \<open>Error codes and domain errors\<close>

datatype error_code =
    INVALID_ARGUMENT | UNKNOWN_SERVER | NOT_FOUND | AMBIGUOUS_OBJECT | ACCESS_LEVEL_DENIED
  | CONFIG_ERROR | CONNECTION_FAILED | ACCESS_DENIED | TIMEOUT | METADATA_UNAVAILABLE
  | DEFINITION_TOO_LARGE | QUERY_REJECTED | INVALID_PII_TOKEN | RESULT_LIMIT_EXCEEDED
  | DATABASE_ERROR

primrec error_code_text :: "error_code \<Rightarrow> string" where
  "error_code_text INVALID_ARGUMENT = ''INVALID_ARGUMENT''"
| "error_code_text UNKNOWN_SERVER = ''UNKNOWN_SERVER''"
| "error_code_text NOT_FOUND = ''NOT_FOUND''"
| "error_code_text AMBIGUOUS_OBJECT = ''AMBIGUOUS_OBJECT''"
| "error_code_text ACCESS_LEVEL_DENIED = ''ACCESS_LEVEL_DENIED''"
| "error_code_text CONFIG_ERROR = ''CONFIG_ERROR''"
| "error_code_text CONNECTION_FAILED = ''CONNECTION_FAILED''"
| "error_code_text ACCESS_DENIED = ''ACCESS_DENIED''"
| "error_code_text TIMEOUT = ''TIMEOUT''"
| "error_code_text METADATA_UNAVAILABLE = ''METADATA_UNAVAILABLE''"
| "error_code_text DEFINITION_TOO_LARGE = ''DEFINITION_TOO_LARGE''"
| "error_code_text QUERY_REJECTED = ''QUERY_REJECTED''"
| "error_code_text INVALID_PII_TOKEN = ''INVALID_PII_TOKEN''"
| "error_code_text RESULT_LIMIT_EXCEEDED = ''RESULT_LIMIT_EXCEEDED''"
| "error_code_text DATABASE_ERROR = ''DATABASE_ERROR''"

record domain_error =
  de_code :: error_code
  de_public_message :: string
  de_hint :: "string option"
  de_retryable :: bool
  de_correlation_id :: "string option"

text \<open>The constructor call \<open>DomainError(code, message, hint)\<close> with its defaults.\<close>

definition make_error :: "error_code \<Rightarrow> string \<Rightarrow> string option \<Rightarrow> domain_error" where
  "make_error c m h = \<lparr>de_code = c, de_public_message = m, de_hint = h,
     de_retryable = False, de_correlation_id = None\<rparr>"

definition truthy_text :: "string option \<Rightarrow> bool" where
  "truthy_text s \<longleftrightarrow> s \<noteq> None \<and> s \<noteq> Some []"

definition domain_error_str :: "domain_error \<Rightarrow> string" where
  "domain_error_str e = join '' ''
     ([''['' @ error_code_text (de_code e) @ ''] '' @ de_public_message e]
      @ (if truthy_text (de_hint e) then [''Hint: '' @ the (de_hint e)] else [])
      @ (if truthy_text (de_correlation_id e)
         then [''Reference: '' @ the (de_correlation_id e)] else []))"

text \<open>\<open>DomainError.unexpected()\<close>; the fresh \<open>uuid4().hex\<close> is the argument.\<close>

definition unexpected_error :: "string \<Rightarrow> domain_error" where
  "unexpected_error ref = \<lparr>de_code = DATABASE_ERROR,
     de_public_message = ''The database operation failed unexpectedly.'',
     de_hint = None, de_retryable = False, de_correlation_id = Some ref\<rparr>"

section \<open>Exceptions\<close>

text \<open>
  What the handlers of the program look at in a library exception: its class name, the values in
  \<open>args\<close> and its text.
\<close>

datatype exc_arg = ArgStr string | ArgInt int | ArgBool bool | ArgOther string

record exc_info =
  ex_class :: string
  ex_args :: "exc_arg list"
  ex_text :: string

text \<open>
  \<open>Dbapi op i\<close> is a SQLAlchemy \<open>DBAPIError\<close> whose \<open>orig\<close> is \<open>i\<close>;
  \<open>op\<close> says that it is an \<open>OperationalError\<close>.  \<open>SqlaTimeout\<close> is the pool
  timeout, \<open>NoSuchTable\<close> and \<open>SqlaError\<close> are other SQLAlchemy errors;
  \<open>SqlglotError\<close> stands for \<open>OptimizeError\<close> and \<open>SqlglotError\<close>;
  \<open>ValidationError\<close> is pydantic's, with the location and message of each issue.
\<close>

datatype exn =
    Domain domain_error
  | ValueError string
  | TypeError string
  | KeyError
  | StopIteration
  | SqlglotError
  | NoSuchTable
  | SqlaTimeout exc_info
  | Dbapi bool exc_info
  | SqlaError exc_info
  | ValidationError "(string list \<times> string) list"
  | OSError
  | YAMLError
  | NotImplementedError
  | OtherError exc_info

type_synonym 'a result = "exn + 'a"

fun is_domain :: "exn \<Rightarrow> bool" where
  "is_domain (Domain _) = True"
| "is_domain _ = False"

fun exn_code :: "exn \<Rightarrow> error_code option" where
  "exn_code (Domain e) = Some (de_code e)"
| "exn_code _ = None"

section \<open>The catalog of rejection reasons\<close>

datatype reason =
    TABLE_RESOLUTION_MISMATCH | DUPLICATE_BINDING | QUALIFIER_UNKNOWN | COLUMN_NOT_FOUND
  | COLUMN_AMBIGUOUS | ORDER_OUTPUT_AMBIGUOUS | QUALIFY_FAILED | LIMIT_NODES | LIMIT_JOINS
  | LIMIT_IN_LIST | TABLE_UNSUPPORTED | COLUMN_REFERENCE_UNSUPPORTED | COUNT_STAR_ONLY
  | STAR_PROJECTION_ONLY | JOIN_NEEDS_ON | JOIN_TYPE_UNSUPPORTED | IS_NULL_ONLY
  | NEGATION_NUMERIC_ONLY | TOP_INTEGER_ONLY | ORDER_DIRECT_COLUMNS_ONLY | IN_LITERALS_ONLY
  | STAR_COMPARISON | SELECT_ONLY | PROJECTION_UNSUPPORTED | LIMIT_CHARS | ONE_STATEMENT
  | PARSE_FAILED | TOKEN_OUTSIDE_PROTECTED | PROTECTED_POSITION | PROTECTED_NEEDS_TOKEN
  | TABLE_GONE | TABLE_NOT_FOUND | TABLE_SCOPE | BIND_UNSAFE | TOKEN_NOT_REPLACED
  | NODE_UNSUPPORTED | OPTION_UNSUPPORTED

primrec reason_text :: "reason \<Rightarrow> string" where
  "reason_text TABLE_RESOLUTION_MISMATCH = ''table resolution does not match the query''"
| "reason_text DUPLICATE_BINDING = ''table names and aliases must be unique''"
| "reason_text QUALIFIER_UNKNOWN = ''a column qualifier does not match a table in the query''"
| "reason_text COLUMN_NOT_FOUND = ''a referenced column was not found or is ambiguous''"
| "reason_text COLUMN_AMBIGUOUS =
     ''a referenced column was not found or is ambiguous; qualify it''"
| "reason_text ORDER_OUTPUT_AMBIGUOUS = ''ORDER BY refers to an ambiguous or non-column output''"
| "reason_text QUALIFY_FAILED = ''the query references unknown or ambiguous columns''"
| "reason_text LIMIT_NODES = ''the query exceeds the configured complexity limit''"
| "reason_text LIMIT_JOINS = ''the query has too many joins''"
| "reason_text LIMIT_IN_LIST = ''an IN list exceeds the configured item limit''"
| "reason_text TABLE_UNSUPPORTED =
     ''only base tables of the current database are supported''"
| "reason_text COLUMN_REFERENCE_UNSUPPORTED = ''unsupported column reference''"
| "reason_text COUNT_STAR_ONLY = ''only COUNT(*) is supported''"
| "reason_text STAR_PROJECTION_ONLY = ''* is supported only as a projection''"
| "reason_text JOIN_NEEDS_ON = ''JOIN requires a table and an explicit ON expression''"
| "reason_text JOIN_TYPE_UNSUPPORTED = ''only INNER JOIN and LEFT JOIN are supported''"
| "reason_text IS_NULL_ONLY = ''IS is supported only with NULL''"
| "reason_text NEGATION_NUMERIC_ONLY = ''negation is supported only for numeric literals''"
| "reason_text TOP_INTEGER_ONLY = ''TOP/LIMIT must be a non-negative integer literal''"
| "reason_text ORDER_DIRECT_COLUMNS_ONLY = ''ORDER BY supports only direct columns''"
| "reason_text IN_LITERALS_ONLY = ''IN supports a column and a list of literals''"
| "reason_text STAR_COMPARISON = ''* cannot be compared''"
| "reason_text SELECT_ONLY = ''only SELECT statements are supported''"
| "reason_text PROJECTION_UNSUPPORTED = ''unsupported projection''"
| "reason_text LIMIT_CHARS = ''the SQL exceeds the configured length limit''"
| "reason_text ONE_STATEMENT = ''exactly one statement is required''"
| "reason_text PARSE_FAILED = ''the SQL could not be parsed''"
| "reason_text TOKEN_OUTSIDE_PROTECTED =
     ''a PII token can only be compared with a protected column''"
| "reason_text PROTECTED_POSITION =
     ''a protected column can only be projected or compared with a token''"
| "reason_text PROTECTED_NEEDS_TOKEN =
     ''a protected column can only be compared with a PII token''"
| "reason_text TABLE_GONE = ''a referenced table no longer exists''"
| "reason_text TABLE_NOT_FOUND =
     ''a referenced table was not found or is ambiguous; qualify it with a schema''"
| "reason_text TABLE_SCOPE = ''only tables of the current database are supported''"
| "reason_text BIND_UNSAFE = ''bind parameters could not be generated safely''"
| "reason_text TOKEN_NOT_REPLACED =
     ''a PII token could not be replaced by a bind parameter''"
| "reason_text NODE_UNSUPPORTED = ''unsupported construct''"
| "reason_text OPTION_UNSUPPORTED = ''unsupported option''"

definition REJECT_HINT :: string where
  "REJECT_HINT = ''Rewrite the operation as a single, simpler SELECT query.''"

text \<open>\<open>reject(reason, detail)\<close>; that \<open>reason\<close> is a \<open>Reason\<close> is its type.\<close>

definition reject_error :: "reason \<Rightarrow> string option \<Rightarrow> domain_error" where
  "reject_error r detail = make_error QUERY_REJECTED
     (''Query rejected: ''
      @ (case detail of None \<Rightarrow> reason_text r | Some d \<Rightarrow> reason_text r @ '': '' @ d) @ ''.'')
     (Some REJECT_HINT)"

abbreviation reject :: "reason \<Rightarrow> exn" where
  "reject r \<equiv> Domain (reject_error r None)"

abbreviation reject_detail :: "reason \<Rightarrow> string \<Rightarrow> exn" where
  "reject_detail r d \<equiv> Domain (reject_error r (Some d))"

lemma de_code_make_error [simp]: "de_code (make_error c m h) = c"
  by (simp add: make_error_def)

lemma de_code_reject_error [simp]: "de_code (reject_error r d) = QUERY_REJECTED"
  by (simp add: reject_error_def)

end
