(* ===== verification/Base64.thy ===== *)
theory Base64
  imports Errors
begin

text \<open>
  The Python standard library's \<open>base64\<close> as the program uses it: \<open>b64encode\<close>,
  \<open>urlsafe_b64encode\<close>, and the decoder \<open>binascii.a2b_base64\<close> in its strict mode
  (\<open>b64decode(s, validate=True)\<close>) and its lenient mode (\<open>urlsafe_b64decode\<close>, which
  skips characters outside the alphabet).  A byte is a \<^typ>\<open>char\<close>, so byte strings and
  ASCII texts share their type.
\<close>

type_synonym bytes = "char list"

definition isascii :: "string \<Rightarrow> bool" where
  "isascii s = list_all (\<lambda>c. (of_char c :: nat) < 128) s"

section \<open>Alphabets\<close>

definition b64_char :: "char \<Rightarrow> char \<Rightarrow> nat \<Rightarrow> char" where
  "b64_char c62 c63 n =
     (if n < 26 then char_of (65 + n)
      else if n < 52 then char_of (97 + (n - 26))
      else if n < 62 then char_of (48 + (n - 52))
      else if n = 62 then c62 else c63)"

abbreviation std_char :: "nat \<Rightarrow> char" where
  "std_char \<equiv> b64_char (CHR ''+'') (CHR ''/'')"

abbreviation url_char :: "nat \<Rightarrow> char" where
  "url_char \<equiv> b64_char (CHR ''-'') (CHR ''_'')"

text \<open>The value of a character of the standard alphabet.\<close>

definition b64_val :: "char \<Rightarrow> nat option" where
  "b64_val c = (let n = of_char c in
     if 65 \<le> n \<and> n \<le> 90 then Some (n - 65)
     else if 97 \<le> n \<and> n \<le> 122 then Some (n - 71)
     else if 48 \<le> n \<and> n \<le> 57 then Some (n + 4)
     else if c = CHR ''+'' then Some 62
     else if c = CHR ''/'' then Some 63
     else None)"

section \<open>Encoding\<close>

abbreviation ord :: "char \<Rightarrow> nat" where
  "ord c \<equiv> of_char c"

fun b2a :: "(nat \<Rightarrow> char) \<Rightarrow> bytes \<Rightarrow> string" where
  "b2a f [] = []"
| "b2a f [a] = [f (ord a div 4), f (ord a mod 4 * 16), CHR ''='', CHR ''='']"
| "b2a f [a, b] =
     [f (ord a div 4), f (ord a mod 4 * 16 + ord b div 16), f (ord b mod 16 * 4), CHR ''='']"
| "b2a f (a # b # c # r) =
     [f (ord a div 4), f (ord a mod 4 * 16 + ord b div 16), f (ord b mod 16 * 4 + ord c div 64),
      f (ord c mod 64)] @ b2a f r"

definition b64encode :: "bytes \<Rightarrow> string" where
  "b64encode bs = b2a std_char bs"

definition urlsafe_b64encode :: "bytes \<Rightarrow> string" where
  "urlsafe_b64encode bs = b2a url_char bs"

section \<open>Decoding\<close>

text \<open>
  The loop of \<open>a2b_base64\<close>: \<open>q\<close> is the position in the current group of four, \<open>l\<close> the
  bits left over from the last character, \<open>pads\<close> the padding characters seen in this
  group, \<open>started\<close> whether padding has been seen at all.
\<close>

fun a2b :: "bool \<Rightarrow> nat \<Rightarrow> nat \<Rightarrow> nat \<Rightarrow> bool \<Rightarrow> string \<Rightarrow> bytes option" where
  "a2b strict q l pads started [] = (if q = 0 then Some [] else None)"
| "a2b strict q l pads started (c # cs) =
     (if c = CHR ''='' then
        if strict \<and> q = 0 then None
        else if 2 \<le> q then
          (if 4 \<le> q + Suc pads
           then (if strict \<and> cs \<noteq> [] then None else Some [])
           else a2b strict q l (Suc pads) True cs)
        else a2b strict q l pads True cs
      else (case b64_val c of
          None \<Rightarrow> (if strict then None else a2b strict q l pads started cs)
        | Some v \<Rightarrow>
            if strict \<and> started then None
            else if q = 0 then a2b strict 1 v 0 started cs
            else if q = 1 then
              map_option ((#) (char_of (l * 4 + v div 16))) (a2b strict 2 (v mod 16) 0 started cs)
            else if q = 2 then
              map_option ((#) (char_of (l * 16 + v div 4))) (a2b strict 3 (v mod 4) 0 started cs)
            else
              map_option ((#) (char_of (l * 64 + v))) (a2b strict 0 0 0 started cs)))"

text \<open>\<open>base64.b64decode(s, validate=True)\<close>; \<open>None\<close> is \<open>binascii.Error\<close> or \<open>ValueError\<close>.\<close>

definition b64decode_strict :: "string \<Rightarrow> bytes option" where
  "b64decode_strict s = (if isascii s then a2b True 0 0 0 False s else None)"

definition url_to_std :: "char \<Rightarrow> char" where
  "url_to_std c = (if c = CHR ''-'' then CHR ''+'' else if c = CHR ''_'' then CHR ''/'' else c)"

definition urlsafe_b64decode :: "string \<Rightarrow> bytes option" where
  "urlsafe_b64decode s =
     (if isascii s then a2b False 0 0 0 False (map url_to_std s) else None)"

text \<open>\<open>s.rstrip("=")\<close>.\<close>

definition rstrip_eq :: "string \<Rightarrow> string" where
  "rstrip_eq s = rev (dropWhile (\<lambda>c. c = CHR ''='') (rev s))"

section \<open>Round trip\<close>

lemma b64_val_std_char: "n < 64 \<Longrightarrow> b64_val (std_char n) = Some n"
proof -
  assume n: "n < 64"
  consider "n < 26" | "26 \<le> n" "n < 52" | "52 \<le> n" "n < 62" | "n = 62" | "n = 63"
    using n by linarith
  then show ?thesis
    by cases (auto simp: b64_char_def b64_val_def Let_def of_char_of)
qed

lemma b64_char_same: "n < 62 \<Longrightarrow> url_char n = std_char n"
  by (simp add: b64_char_def)

lemma b64_val_None: "b64_val (CHR ''='') = None" "b64_val (CHR ''-'') = None"
  "b64_val (CHR ''_'') = None"
  by (simp_all add: b64_val_def Let_def)

lemma b64_val_ascii: "b64_val c = Some n \<Longrightarrow> ord c < 128"
  by (auto simp: b64_val_def Let_def split: if_splits)

lemma b64_char_facts:
  assumes n: "n < 64"
  shows "b64_val (std_char n) = Some n" and "std_char n \<noteq> CHR ''=''"
    and "url_char n \<noteq> CHR ''=''" and "url_to_std (url_char n) = std_char n"
    and "ord (std_char n) < 128" and "ord (url_char n) < 128"
proof -
  show val: "b64_val (std_char n) = Some n" by (rule b64_val_std_char [OF n])
  show std: "std_char n \<noteq> CHR ''=''" and asc: "ord (std_char n) < 128"
    using val b64_val_None b64_val_ascii by fastforce+
  consider "n < 62" | "n = 62" | "n = 63" using n by linarith
  then show "url_to_std (url_char n) = std_char n" and "url_char n \<noteq> CHR ''=''"
      and "ord (url_char n) < 128"
  proof (atomize (full), cases)
    case 1
    then have "url_char n = std_char n" by (rule b64_char_same)
    moreover have "std_char n \<noteq> CHR ''-''" "std_char n \<noteq> CHR ''_''"
      using val b64_val_None by fastforce+
    ultimately show "url_to_std (url_char n) = std_char n \<and> url_char n \<noteq> CHR ''='' \<and>
        ord (url_char n) < 128"
      using std asc by (simp add: url_to_std_def)
  qed (simp_all add: b64_char_def url_to_std_def)
qed

lemma join_bits:
  fixes a b m :: nat
  shows "b < m \<Longrightarrow> (a * m + b) div m = a" "b < m \<Longrightarrow> (a * m + b) mod m = b"
  by simp_all

lemma byte_bound [simp]: "ord c < 256"
  by (rule nat_of_char_less_256)

lemma byte_parts [simp]: "ord c div 4 < 64" "ord c div 16 < 16" "ord c div 64 < 4"
  using byte_bound [of c] by linarith+

lemma sextets [simp]:
  "ord a mod 4 * 16 < 64" "ord a mod 4 * 16 + ord b div 16 < 64"
  "ord b mod 16 * 4 < 64" "ord b mod 16 * 4 + ord c div 64 < 64"
proof -
  have "ord a mod 4 < 4" "ord b mod 16 < 16" by simp_all
  moreover note byte_parts [of b] byte_parts [of c]
  ultimately show "ord a mod 4 * 16 < 64" "ord a mod 4 * 16 + ord b div 16 < 64"
    "ord b mod 16 * 4 < 64" "ord b mod 16 * 4 + ord c div 64 < 64" by linarith+
qed

text \<open>The bytes put together again from the sextets.\<close>

lemma rejoin [simp]:
  "(ord a mod 4 * 16 + ord b div 16) div 16 = ord a mod 4"
  "(ord a mod 4 * 16 + ord b div 16) mod 16 = ord b div 16"
  "(ord b mod 16 * 4 + ord c div 64) div 4 = ord b mod 16"
  "(ord b mod 16 * 4 + ord c div 64) mod 4 = ord c div 64"
  by (simp_all add: join_bits)

lemma map_url_to_std_b2a: "map url_to_std (b2a url_char bs) = b2a std_char bs"
  by (induction "url_char" bs rule: b2a.induct)
    (simp_all add: b64_char_facts, simp_all add: url_to_std_def)

text \<open>Decoding what was encoded, in either mode.\<close>

lemma a2b_b2a: "a2b strict 0 l p False (b2a std_char bs) = Some bs"
  by (induction "std_char" bs arbitrary: l p rule: b2a.induct)
    (simp_all add: b64_char_facts)

lemma isascii_simps [simp]:
  "isascii []" "isascii (c # s) \<longleftrightarrow> ord c < 128 \<and> isascii s"
  "isascii (s @ t) \<longleftrightarrow> isascii s \<and> isascii t"
  by (simp_all add: isascii_def)

lemma isascii_b2a:
  assumes "\<And>n. n < 64 \<Longrightarrow> ord (f n) < 128"
  shows "isascii (b2a f bs)"
  using assms by (induction f bs rule: b2a.induct) simp_all

lemma b64decode_b64encode: "b64decode_strict (b64encode bs) = Some bs"
  by (simp add: b64decode_strict_def b64encode_def a2b_b2a isascii_b2a b64_char_facts)

lemma urlsafe_b64decode_encode: "urlsafe_b64decode (urlsafe_b64encode bs) = Some bs"
  by (simp add: urlsafe_b64decode_def urlsafe_b64encode_def map_url_to_std_b2a a2b_b2a
      isascii_b2a b64_char_facts)

text \<open>
  The encoded text is its unpadded body and the padding that completes it to a multiple of four
  characters; stripping and restoring the padding is the identity.
\<close>

definition b64_pad :: "string \<Rightarrow> string" where
  "b64_pad body = replicate ((4 - length body mod 4) mod 4) (CHR ''='')"

lemma rstrip_eq_append:
  "t \<noteq> [] \<Longrightarrow> rstrip_eq (s @ t) = (if rstrip_eq t = [] then rstrip_eq s else s @ rstrip_eq t)"
  by (auto simp: rstrip_eq_def dropWhile_append dropWhile_eq_Nil_conv)

lemma rstrip_eq_snoc: "c \<noteq> CHR ''='' \<Longrightarrow> rstrip_eq (s @ [c]) = s @ [c]"
  by (simp add: rstrip_eq_def)

lemma rstrip_pad_b2a:
  assumes nopad: "\<And>n. n < 64 \<Longrightarrow> f n \<noteq> CHR ''=''"
  shows "rstrip_eq (b2a f bs) @ b64_pad (rstrip_eq (b2a f bs)) = b2a f bs"
  using assms
proof (induction f bs rule: b2a.induct)
  case (4 f a b c r)
  let ?x = "of_char a :: nat" and ?y = "of_char b :: nat" and ?z = "of_char c :: nat"
  let ?g = "[f (?x div 4), f (?x mod 4 * 16 + ?y div 16), f (?y mod 16 * 4 + ?z div 64),
    f (?z mod 64)]"
  have last: "rstrip_eq ?g = ?g"
    using rstrip_eq_snoc [of "f (?z mod 64)" "butlast ?g"] "4.prems" by simp
  show ?case
  proof (cases "r = []")
    case True
    then show ?thesis using last by (simp add: b64_pad_def)
  next
    case False
    then have ne: "b2a f r \<noteq> []" by (cases "(f, r)" rule: b2a.cases) simp_all
    have eq: "rstrip_eq (b2a f (a # b # c # r)) =
        (if rstrip_eq (b2a f r) = [] then ?g else ?g @ rstrip_eq (b2a f r))"
      using rstrip_eq_append [OF ne, of ?g] last by simp
    have IH: "rstrip_eq (b2a f r) @ b64_pad (rstrip_eq (b2a f r)) = b2a f r"
      using "4" by blast
    then have "rstrip_eq (b2a f r) \<noteq> []" using ne by (auto simp: b64_pad_def)
    with eq IH show ?thesis by (simp add: b64_pad_def)
  qed
qed (simp_all add: rstrip_eq_def b64_pad_def numeral_2_eq_2)

lemma urlsafe_rstrip_pad:
  "rstrip_eq (urlsafe_b64encode bs) @ b64_pad (rstrip_eq (urlsafe_b64encode bs))
     = urlsafe_b64encode bs"
  unfolding urlsafe_b64encode_def by (rule rstrip_pad_b2a) (rule b64_char_facts)

lemma urlsafe_b64encode_inj: "urlsafe_b64encode bs = urlsafe_b64encode bs' \<Longrightarrow> bs = bs'"
  by (metis option.inject urlsafe_b64decode_encode)

end
