(* ===== verification/Config.thy ===== *)
theory Config
  imports Base64
begin

text \<open>
  \<open>config.py\<close>: the configuration models with the bounds of their fields and their validators.
  \<open>Config_Load\<close> has the functions that build a configuration from a file.  SQLAlchemy's
  \<open>make_url\<close> is a parameter.
\<close>

section \<open>Runtime limits\<close>

record runtime_config =
  max_concurrent_db_operations :: int
  engine_cache_size :: int
  pool_size :: int
  max_overflow :: int
  pool_timeout_seconds :: int
  statement_timeout_seconds :: int
  max_definition_chars :: int
  default_max_rows :: int
  hard_max_rows :: int
  rt_max_sql_chars :: int
  rt_max_ast_nodes :: int
  rt_max_joins :: int
  rt_max_in_list_items :: int

definition default_runtime :: runtime_config where
  "default_runtime = \<lparr>max_concurrent_db_operations = 8, engine_cache_size = 32, pool_size = 2,
     max_overflow = 2, pool_timeout_seconds = 10, statement_timeout_seconds = 30,
     max_definition_chars = 262144, default_max_rows = 200, hard_max_rows = 1000,
     rt_max_sql_chars = 65536, rt_max_ast_nodes = 2000, rt_max_joins = 8,
     rt_max_in_list_items = 500\<rparr>"

definition within :: "int \<Rightarrow> int \<Rightarrow> int \<Rightarrow> bool" where
  "within lo hi x \<longleftrightarrow> lo \<le> x \<and> x \<le> hi"

text \<open>The bounds \<open>Field(ge=..., le=...)\<close> of the fields.\<close>

definition runtime_fields_ok :: "runtime_config \<Rightarrow> bool" where
  "runtime_fields_ok r \<longleftrightarrow>
     within 1 128 (max_concurrent_db_operations r) \<and> within 1 1024 (engine_cache_size r) \<and>
     within 1 32 (pool_size r) \<and> within 0 64 (max_overflow r) \<and>
     within 1 300 (pool_timeout_seconds r) \<and> within 1 3600 (statement_timeout_seconds r) \<and>
     within 1024 10000000 (max_definition_chars r) \<and> within 1 100000 (default_max_rows r) \<and>
     within 1 100000 (hard_max_rows r) \<and> within 256 1000000 (rt_max_sql_chars r) \<and>
     within 10 100000 (rt_max_ast_nodes r) \<and> within 0 100 (rt_max_joins r) \<and>
     within 1 100000 (rt_max_in_list_items r)"

definition validate_row_limits :: "runtime_config \<Rightarrow> unit result" where
  "validate_row_limits r = raise_if (default_max_rows r > hard_max_rows r)
     (ValueError ''default_max_rows cannot exceed hard_max_rows'')"

datatype log_level = DEBUG | INFO | WARNING | ERROR

section \<open>PII rules\<close>

record pii_rule =
  pr_database :: string
  pr_schema :: "string option"
  pr_table :: string
  pr_columns :: "string list"

definition pii_rule_fields_ok :: "pii_rule \<Rightarrow> bool" where
  "pii_rule_fields_ok r \<longleftrightarrow> pr_database r \<noteq> [] \<and> pr_table r \<noteq> [] \<and> pr_columns r \<noteq> []"

definition validate_wildcards :: "pii_rule \<Rightarrow> unit result" where
  "validate_wildcards r =
     rbind (raise_if (pr_schema r \<noteq> None \<and> CHR ''*'' \<in> set (the (pr_schema r)))
       (ValueError ''wildcards are allowed only in pii rule table or database'')) (\<lambda>_.
     rbind (raise_if (pr_database r \<noteq> ''*'' \<and> CHR ''*'' \<in> set (pr_database r))
       (ValueError (''database must be an exact name or '' @ py_repr ''*''))) (\<lambda>_.
     raise_if (\<not> distinct (map casefold (pr_columns r)))
       (ValueError ''pii rule columns must be unique'')))"

record pii_config =
  pc_rules :: "pii_rule list"

record pii_config_input =
  pci_include :: "string list"
  pci_rules :: "pii_rule list"

record pii_rule_set =
  rs_name :: "string option"
  rs_rules :: "pii_rule list"

section \<open>Servers\<close>

datatype engine = SQLSERVER_ENGINE | MYSQL_ENGINE | MARIADB_ENGINE

primrec engine_text :: "engine \<Rightarrow> string" where
  "engine_text SQLSERVER_ENGINE = ''sqlserver''"
| "engine_text MYSQL_ENGINE = ''mysql''"
| "engine_text MARIADB_ENGINE = ''mariadb''"

text \<open>\<open>_DRIVERNAMES\<close>.\<close>

primrec drivername_for :: "engine \<Rightarrow> string" where
  "drivername_for SQLSERVER_ENGINE = ''mssql+pyodbc''"
| "drivername_for MYSQL_ENGINE = ''mysql+pymysql''"
| "drivername_for MARIADB_ENGINE = ''mysql+pymysql''"

datatype access_level = METADATA | META_AND_CODE | ALL_PII_SAFE

primrec access_text :: "access_level \<Rightarrow> string" where
  "access_text METADATA = ''metadata''"
| "access_text META_AND_CODE = ''meta_and_code''"
| "access_text ALL_PII_SAFE = ''all_pii_safe''"

primrec access_rank :: "access_level \<Rightarrow> nat" where
  "access_rank METADATA = 0"
| "access_rank META_AND_CODE = 1"
| "access_rank ALL_PII_SAFE = 2"

text \<open>Each level permits what the one before it permits, and more.\<close>

instantiation access_level :: linorder
begin

definition less_eq_access_level :: "access_level \<Rightarrow> access_level \<Rightarrow> bool" where
  "a \<le> b \<longleftrightarrow> access_rank a \<le> access_rank b"

definition less_access_level :: "access_level \<Rightarrow> access_level \<Rightarrow> bool" where
  "a < b \<longleftrightarrow> access_rank a < access_rank b"

instance
proof
  fix a b :: access_level
  show "a \<le> b \<Longrightarrow> b \<le> a \<Longrightarrow> a = b"
    by (cases a; cases b) (simp_all add: less_eq_access_level_def)
qed (auto simp: less_eq_access_level_def less_access_level_def)

end

text \<open>The part of a parsed SQLAlchemy URL the program reads.\<close>

record url =
  url_drivername :: string
  url_username :: "string option"
  url_password :: "string option"
  url_host :: "string option"

text \<open>\<open>make_url\<close>; \<open>None\<close> is \<open>ArgumentError\<close>.\<close>

type_synonym url_parser = "string \<Rightarrow> url option"

text \<open>
  \<open>ServerConfigBase\<close>, with the type of its \<open>pii\<close> section left open: \<open>ServerConfig\<close> and
  \<open>ServerConfigInput\<close> differ in it only.
\<close>

record 'p server_base =
  sc_engine :: engine
  sc_access_level :: access_level
  sc_connection_url :: string
  sc_pii_key_env :: "string option"
  sc_pii_key :: "string option"
  sc_pii :: "'p option"

type_synonym server_config = "pii_config server_base"
type_synonym server_config_input = "pii_config_input server_base"

definition is_hex_char :: "char \<Rightarrow> bool" where
  "is_hex_char c \<longleftrightarrow> is_ascii_digit c \<or> 65 \<le> ord c \<and> ord c \<le> 70 \<or> 97 \<le> ord c \<and> ord c \<le> 102"

text \<open>\<open>_PERCENT_ESCAPE.search(s)\<close>.\<close>

fun has_percent_escape :: "string \<Rightarrow> bool" where
  "has_percent_escape (c # d # e # s) =
     (c = CHR ''%'' \<and> is_hex_char d \<and> is_hex_char e \<or> has_percent_escape (d # e # s))"
| "has_percent_escape _ = False"

definition validate_connection_url :: "url_parser \<Rightarrow> 'p server_base \<Rightarrow> unit result" where
  "validate_connection_url make_url s = (case make_url (sc_connection_url s) of
       None \<Rightarrow> Inl (ValueError ''connection_url must be a valid SQLAlchemy URL'')
     | Some u \<Rightarrow>
         rbind (raise_if (truthy_text (url_host u) \<and> has_percent_escape (the (url_host u)))
           (ValueError (''connection_url host contains an encoded character; a ${NAME} '' @
              ''placeholder inside a URL is URL-encoded, so a '' @ py_repr ''host:port'' @
              '' value breaks. Use separate ${HOST} and ${PORT} variables''))) (\<lambda>_.
         raise_if (url_drivername u \<noteq> drivername_for (sc_engine s))
           (ValueError (''engine '' @ py_repr (engine_text (sc_engine s)) @
              '' requires SQLAlchemy dialect '' @ py_repr (drivername_for (sc_engine s))))))"

definition key_bytes :: "'p server_base \<Rightarrow> bytes option result" where
  "key_bytes s = (case sc_pii_key s of
       None \<Rightarrow> Inr None
     | Some k \<Rightarrow> (case b64decode_strict k of
           None \<Rightarrow> Inl (ValueError ''Invalid base64'')
         | Some b \<Rightarrow> Inr (Some b)))"

definition no_pii_message :: "access_level \<Rightarrow> string" where
  "no_pii_message a = access_text a @ '' servers cannot configure pii_key_env or pii rules''"

definition validate_security_shape :: "server_config \<Rightarrow> unit result" where
  "validate_security_shape s =
     (if sc_access_level s = ALL_PII_SAFE then
        rbind (raise_if (\<not> truthy_text (sc_pii_key_env s) \<or> sc_pii s = None)
          (ValueError ''all_pii_safe servers require pii_key_env and pii rules'')) (\<lambda>_.
        raise_if (sc_engine s \<noteq> SQLSERVER_ENGINE \<and>
            list_ex (\<lambda>r. truthy_text (pr_schema r)) (pc_rules (the (sc_pii s))))
          (ValueError (''pii rules for engine '' @ py_repr (engine_text (sc_engine s)) @
             '' cannot set schema'')))
      else raise_if (sc_pii_key_env s \<noteq> None \<or> sc_pii s \<noteq> None)
        (ValueError (no_pii_message (sc_access_level s))))"

section \<open>The application configuration\<close>

record app_config =
  ac_runtime :: runtime_config
  ac_logging :: log_level
  ac_servers :: "(string \<times> server_config) list"

record app_config_input =
  aci_runtime :: runtime_config
  aci_logging :: log_level
  aci_pii_rules :: "pii_rule_set list option"
  aci_servers :: "(string \<times> server_config_input) list"

definition is_alnum :: "char \<Rightarrow> bool" where
  "is_alnum c \<longleftrightarrow> is_ascii_digit c \<or> 65 \<le> ord c \<and> ord c \<le> 90 \<or> 97 \<le> ord c \<and> ord c \<le> 122"

text \<open>\<open>re.fullmatch(_SERVER_ALIAS_PATTERN, alias)\<close>.\<close>

fun alias_ok :: "string \<Rightarrow> bool" where
  "alias_ok [] = False"
| "alias_ok (c # s) = (is_alnum c \<and>
     list_all (\<lambda>d. is_alnum d \<or> d \<in> {CHR ''.'', CHR ''_'', CHR ''-''}) s)"

definition validate_alias :: "string \<times> server_config \<Rightarrow> (bytes \<times> string) list
    \<Rightarrow> (bytes \<times> string) list result" where
  "validate_alias s seen =
     rbind (raise_if (\<not> alias_ok (fst s)) (ValueError (''invalid server alias '' @ py_repr (fst s))))
       (\<lambda>_. rbind (key_bytes (snd s)) (\<lambda>k. case k of
         None \<Rightarrow> Inr seen
       | Some key \<Rightarrow>
           rbind (raise_if (length key \<noteq> 32) (ValueError
             (''PII key for server '' @ py_repr (fst s) @ '' must decode to 32 bytes''))) (\<lambda>_.
           rbind (raise_if (truthy_text (map_of seen key)) (ValueError
             (''PII keys must be unique per server alias; '' @ py_repr (fst s) @ '' duplicates '' @
              py_repr (the (map_of seen key))))) (\<lambda>_.
           Inr (AList.update key (fst s) seen)))))"

definition validate_aliases_and_keys :: "app_config \<Rightarrow> unit result" where
  "validate_aliases_and_keys c =
     rbind (rfold validate_alias (ac_servers c) []) (\<lambda>_. Inr ())"

text \<open>
  What \<open>AppConfig.model_validate\<close> has established when it returns: the field bounds and every
  validator of the models, and the dictionary of servers has distinct keys.
\<close>

definition server_ok :: "url_parser \<Rightarrow> server_config \<Rightarrow> bool" where
  "server_ok make_url s \<longleftrightarrow> validate_connection_url make_url s = Inr () \<and>
     validate_security_shape s = Inr () \<and>
     (\<forall>p. sc_pii s = Some p \<longrightarrow> pc_rules p \<noteq> [] \<and>
        list_all (\<lambda>r. pii_rule_fields_ok r \<and> validate_wildcards r = Inr ()) (pc_rules p))"

definition app_config_ok :: "url_parser \<Rightarrow> app_config \<Rightarrow> bool" where
  "app_config_ok make_url c \<longleftrightarrow> runtime_fields_ok (ac_runtime c) \<and>
     validate_row_limits (ac_runtime c) = Inr () \<and> ac_servers c \<noteq> [] \<and>
     distinct (map fst (ac_servers c)) \<and>
     list_all (\<lambda>s. server_ok make_url (snd s)) (ac_servers c) \<and>
     validate_aliases_and_keys c = Inr ()"

subsection \<open>Laws of the validators\<close>

text \<open>The decoded keys of a list of servers, in order.\<close>

definition server_keys :: "(string \<times> server_config) list \<Rightarrow> bytes list" where
  "server_keys xs = List.map_filter
     (\<lambda>s. case key_bytes (snd s) of Inr (Some k) \<Rightarrow> Some k | _ \<Rightarrow> None) xs"

lemma validate_alias_Inr:
  assumes "validate_alias s seen = Inr seen'" and "\<forall>a \<in> ran (map_of seen). a \<noteq> []"
  shows "alias_ok (fst s)"
    and "key_bytes (snd s) = Inr None \<and> seen' = seen \<or>
      (\<exists>k. key_bytes (snd s) = Inr (Some k) \<and> length k = 32 \<and> map_of seen k = None \<and>
         seen' = AList.update k (fst s) seen)"
proof -
  show "alias_ok (fst s)"
    using assms(1) by (auto simp: validate_alias_def result_simps)
  show "key_bytes (snd s) = Inr None \<and> seen' = seen \<or>
      (\<exists>k. key_bytes (snd s) = Inr (Some k) \<and> length k = 32 \<and> map_of seen k = None \<and>
         seen' = AList.update k (fst s) seen)"
  proof (cases "key_bytes (snd s)")
    case (Inr k)
    show ?thesis
    proof (cases k)
      case (Some b)
      then have "length b = 32" "\<not> truthy_text (map_of seen b)"
        "seen' = AList.update b (fst s) seen"
        using assms(1) Inr by (auto simp: validate_alias_def result_simps)
      moreover have "map_of seen b \<noteq> Some []"
        using assms(2) by (auto simp: ran_def)
      ultimately show ?thesis using Inr Some by (auto simp: truthy_text_def)
    qed (use assms(1) Inr in \<open>auto simp: validate_alias_def result_simps\<close>)
  qed (use assms(1) in \<open>auto simp: validate_alias_def result_simps\<close>)
qed

lemma rfold_validate_alias:
  assumes "rfold validate_alias xs seen = Inr seen'" and "\<forall>a \<in> ran (map_of seen). a \<noteq> []"
  shows "list_all (\<lambda>s. alias_ok (fst s)) xs \<and> distinct (server_keys xs) \<and>
    list_all (\<lambda>k. length k = 32) (server_keys xs) \<and>
    set (server_keys xs) \<inter> dom (map_of seen) = {}"
  using assms
proof (induction xs arbitrary: seen)
  case Nil
  then show ?case by (simp add: server_keys_def List.map_filter_def)
next
  case (Cons s xs)
  then obtain seen1 where step: "validate_alias s seen = Inr seen1"
    and rest: "rfold validate_alias xs seen1 = Inr seen'"
    by (auto simp: rbind_eq_Inr_iff)
  note cases = validate_alias_Inr [OF step Cons.prems(2)]
  from cases(1) have nonempty: "fst s \<noteq> []" by (cases "fst s") auto
  from cases(2) show ?case
  proof
    assume none: "key_bytes (snd s) = Inr None \<and> seen1 = seen"
    then show ?thesis using Cons.IH [OF rest] Cons.prems(2) cases(1)
      by (simp add: server_keys_def List.map_filter_simps)
  next
    assume "\<exists>k. key_bytes (snd s) = Inr (Some k) \<and> length k = 32 \<and> map_of seen k = None \<and>
         seen1 = AList.update k (fst s) seen"
    then obtain k where k: "key_bytes (snd s) = Inr (Some k)" "length k = 32"
      "map_of seen k = None" and seen1: "seen1 = AList.update k (fst s) seen" by blast
    have "\<forall>a \<in> ran (map_of seen1). a \<noteq> []"
      using Cons.prems(2) nonempty unfolding seen1 update_conv'
      by (auto simp: ran_def)
    with Cons.IH [OF rest] have IH: "list_all (\<lambda>s. alias_ok (fst s)) xs"
      "distinct (server_keys xs)" "list_all (\<lambda>k. length k = 32) (server_keys xs)"
      "set (server_keys xs) \<inter> dom (map_of seen1) = {}" by blast+
    have "server_keys (s # xs) = k # server_keys xs"
      using k(1) by (simp add: server_keys_def List.map_filter_simps)
    moreover have "dom (map_of seen1) = insert k (dom (map_of seen))"
      by (simp add: seen1 update_conv')
    ultimately show ?thesis using IH k cases(1) by auto
  qed
qed

lemma app_config_ok_keys:
  assumes "app_config_ok make_url c"
  shows "distinct (server_keys (ac_servers c))"
    and "k \<in> set (server_keys (ac_servers c)) \<Longrightarrow> length k = 32"
    and "a \<in> fst ` set (ac_servers c) \<Longrightarrow> alias_ok a"
proof -
  from assms obtain seen where "rfold validate_alias (ac_servers c) [] = Inr seen"
    by (auto simp: app_config_ok_def validate_aliases_and_keys_def rbind_eq_Inr_iff)
  from rfold_validate_alias [OF this]
  show "distinct (server_keys (ac_servers c))"
    and "k \<in> set (server_keys (ac_servers c)) \<Longrightarrow> length k = 32"
    and "a \<in> fst ` set (ac_servers c) \<Longrightarrow> alias_ok a"
    by (auto simp: list_all_iff)
qed

lemma app_config_ok_server:
  "app_config_ok make_url c \<Longrightarrow> map_of (ac_servers c) a = Some s \<Longrightarrow> server_ok make_url s"
  by (auto simp: app_config_ok_def list_all_iff dest!: map_of_SomeD)

end
