(* ===== verification/Ast.thy ===== *)
theory Ast
  imports Errors
begin

text \<open>
  The SQLGlot syntax tree as the program sees it.  SQLGlot is a library the repository only
  calls, so its algorithms (parsing, traversal, generation, qualification) are parameters,
  collected in the record \<open>sqlglot\<close>; what is fixed here is the data that crosses the
  interface: a node is a class name, the ordered dictionary \<open>args\<close> and the comments.

  Python nodes have an identity, a parent and are mutated in place.  Here a node is named by
  its position, the path of (argument, index) steps from the root: \<open>node.parent\<close> is the
  node at the position without its last step, \<open>node.set\<close> and \<open>node.replace\<close> are
  updates at a position, and two references are the same object when their positions agree.
\<close>

section \<open>Nodes\<close>

text \<open>The node classes the program names; any other class is \<open>KOther\<close> with its name.\<close>

datatype kind =
    KSelect | KFrom | KTable | KTableAlias | KIdentifier | KColumn | KStar | KCount | KLiteral
  | KNull | KNeg | KAlias | KJoin | KAnd | KOr | KParen | KIn | KIs | KWhere | KOrder | KOrdered
  | KLimit | KEQ | KNEQ | KGT | KGTE | KLT | KLTE | KPlaceholder | KVar | KOther string

text \<open>\<open>type(node).__name__\<close>.\<close>

primrec kind_name :: "kind \<Rightarrow> string" where
  "kind_name KSelect = ''Select''"
| "kind_name KFrom = ''From''"
| "kind_name KTable = ''Table''"
| "kind_name KTableAlias = ''TableAlias''"
| "kind_name KIdentifier = ''Identifier''"
| "kind_name KColumn = ''Column''"
| "kind_name KStar = ''Star''"
| "kind_name KCount = ''Count''"
| "kind_name KLiteral = ''Literal''"
| "kind_name KNull = ''Null''"
| "kind_name KNeg = ''Neg''"
| "kind_name KAlias = ''Alias''"
| "kind_name KJoin = ''Join''"
| "kind_name KAnd = ''And''"
| "kind_name KOr = ''Or''"
| "kind_name KParen = ''Paren''"
| "kind_name KIn = ''In''"
| "kind_name KIs = ''Is''"
| "kind_name KWhere = ''Where''"
| "kind_name KOrder = ''Order''"
| "kind_name KOrdered = ''Ordered''"
| "kind_name KLimit = ''Limit''"
| "kind_name KEQ = ''EQ''"
| "kind_name KNEQ = ''NEQ''"
| "kind_name KGT = ''GT''"
| "kind_name KGTE = ''GTE''"
| "kind_name KLT = ''LT''"
| "kind_name KLTE = ''LTE''"
| "kind_name KPlaceholder = ''Placeholder''"
| "kind_name KVar = ''Var''"
| "kind_name (KOther n) = n"

text \<open>Argument values: \<open>None\<close>, a boolean, a string, a number, a node or a list of nodes.\<close>

datatype node = Node kind "(string \<times> argval) list" "string list"
  and argval = ANone | ABool bool | AStr string | AInt int | ANode node | AList "node list"

primrec nkind :: "node \<Rightarrow> kind" where "nkind (Node k as cs) = k"
primrec nargs :: "node \<Rightarrow> (string \<times> argval) list" where "nargs (Node k as cs) = as"
primrec ncomments :: "node \<Rightarrow> string list" where "ncomments (Node k as cs) = cs"

text \<open>The constructor call \<open>exp.K(name=value, ...)\<close>: no comments.\<close>

abbreviation mk :: "kind \<Rightarrow> (string \<times> argval) list \<Rightarrow> node" where
  "mk k as \<equiv> Node k as []"

text \<open>\<open>exp.to_identifier(name, quoted=True)\<close> and \<open>exp.Literal.number(n)\<close>, \<open>0 \<le> n\<close>.\<close>

definition to_identifier :: "string \<Rightarrow> node" where
  "to_identifier name = mk KIdentifier [(''this'', AStr name), (''quoted'', ABool True)]"

definition literal_number :: "int \<Rightarrow> node" where
  "literal_number n = mk KLiteral [(''this'', AStr (str_int n)), (''is_string'', ABool False)]"

section \<open>Reading a node\<close>

text \<open>\<open>node.args.get(name)\<close>; a missing key reads as \<open>None\<close>.\<close>

definition arg :: "node \<Rightarrow> string \<Rightarrow> argval" where
  "arg n name = (case map_of (nargs n) name of None \<Rightarrow> ANone | Some v \<Rightarrow> v)"

fun as_node :: "argval \<Rightarrow> node option" where
  "as_node (ANode n) = Some n"
| "as_node _ = None"

text \<open>A list argument that may be absent: \<open>args.get(name) or []\<close>.\<close>

fun as_list :: "argval \<Rightarrow> node list" where
  "as_list (AList ns) = ns"
| "as_list _ = []"

definition is_kind :: "argval \<Rightarrow> kind list \<Rightarrow> bool" where
  "is_kind v ks \<longleftrightarrow> (case v of ANode n \<Rightarrow> nkind n \<in> set ks | _ \<Rightarrow> False)"

text \<open>
  \<open>str(x)\<close> of the \<open>this\<close> argument of an identifier or a literal, which is a string;
  the other clauses are Python's texts of those constants.
\<close>

fun arg_str :: "argval \<Rightarrow> string" where
  "arg_str (AStr s) = s"
| "arg_str (ABool True) = ''True''"
| "arg_str (ABool False) = ''False''"
| "arg_str (AInt i) = str_int i"
| "arg_str _ = ''None''"

text \<open>
  \<open>node.text(key)\<close>: a string argument itself, the name inside an identifier, literal or
  variable, the fixed names of a star and a null, and the empty string for anything else.
\<close>

definition node_text :: "node \<Rightarrow> string \<Rightarrow> string" where
  "node_text n key = (case arg n key of
       AStr s \<Rightarrow> s
     | ANode m \<Rightarrow>
         (if nkind m \<in> {KIdentifier, KLiteral, KVar} then arg_str (arg m ''this'')
          else if nkind m = KStar then ''*''
          else if nkind m = KNull then ''NULL''
          else [])
     | _ \<Rightarrow> [])"

abbreviation node_name :: "node \<Rightarrow> string" where
  "node_name n \<equiv> node_text n ''this''"

text \<open>\<open>node.alias\<close>: the name of a table alias, or the text of the argument.\<close>

definition node_alias :: "node \<Rightarrow> string" where
  "node_alias n = (case arg n ''alias'' of
       ANode m \<Rightarrow> (if nkind m = KTableAlias then node_name m else node_text n ''alias'')
     | _ \<Rightarrow> node_text n ''alias'')"

definition is_string_literal :: "node \<Rightarrow> bool" where
  "is_string_literal n \<longleftrightarrow> nkind n = KLiteral \<and> arg n ''is_string'' = ABool True"

section \<open>Positions\<close>

type_synonym step = "string \<times> nat"
type_synonym pos = "step list"

fun arg_children :: "string \<times> argval \<Rightarrow> (step \<times> node) list" where
  "arg_children (k, ANode n) = [((k, 0), n)]"
| "arg_children (k, AList ns) = map (\<lambda>(i, n). ((k, i), n)) (enumerate 0 ns)"
| "arg_children (k, _) = []"

text \<open>The child at a step: the node argument, or the element of the list argument.\<close>

definition child :: "node \<Rightarrow> step \<Rightarrow> node option" where
  "child n s = (case arg n (fst s) of
       ANode m \<Rightarrow> (if snd s = 0 then Some m else None)
     | AList ns \<Rightarrow> (if snd s < length ns then Some (ns ! snd s) else None)
     | _ \<Rightarrow> None)"

fun sub :: "node \<Rightarrow> pos \<Rightarrow> node option" where
  "sub t [] = Some t"
| "sub t (s # p) = (case child t s of None \<Rightarrow> None | Some c \<Rightarrow> sub c p)"

definition kind_at :: "node \<Rightarrow> pos \<Rightarrow> kind option" where
  "kind_at t p = map_option nkind (sub t p)"

text \<open>The class of \<open>node.parent\<close>; the root has no parent.\<close>

definition parent_kind :: "node \<Rightarrow> pos \<Rightarrow> kind option" where
  "parent_kind t p = (if p = [] then None else kind_at t (butlast p))"

section \<open>Updating a node\<close>

text \<open>\<open>node.set(name, value)\<close>: a dictionary update, so an existing key keeps its place.\<close>

definition set_arg :: "string \<Rightarrow> argval \<Rightarrow> node \<Rightarrow> node" where
  "set_arg name v n = Node (nkind n) (AList.update name v (nargs n)) (ncomments n)"

definition set_child :: "node \<Rightarrow> step \<Rightarrow> node \<Rightarrow> node" where
  "set_child n s c = (case arg n (fst s) of
       ANode _ \<Rightarrow> (if snd s = 0 then set_arg (fst s) (ANode c) n else n)
     | AList ns \<Rightarrow> set_arg (fst s) (AList (ns[snd s := c])) n
     | _ \<Rightarrow> n)"

text \<open>Apply an in-place change to the node at a position (no node there: no change).\<close>

fun upd :: "pos \<Rightarrow> (node \<Rightarrow> node) \<Rightarrow> node \<Rightarrow> node" where
  "upd [] f t = f t"
| "upd (s # p) f t = (case child t s of None \<Rightarrow> t | Some c \<Rightarrow> set_child t s (upd p f c))"

text \<open>\<open>node.replace(new)\<close> for the node at a position.\<close>

abbreviation replace_at :: "pos \<Rightarrow> node \<Rightarrow> node \<Rightarrow> node" where
  "replace_at p new t \<equiv> upd p (\<lambda>_. new) t"

subsection \<open>Laws of reading and updating\<close>

lemma nkind_set_arg [simp]: "nkind (set_arg k v n) = nkind n"
  by (simp add: set_arg_def)

lemma ncomments_set_arg [simp]: "ncomments (set_arg k v n) = ncomments n"
  by (simp add: set_arg_def)

lemma arg_set_arg: "arg (set_arg k v n) k' = (if k' = k then v else arg n k')"
  by (simp add: arg_def set_arg_def update_conv')

lemma arg_set_arg_simps [simp]:
  "arg (set_arg k v n) k = v"
  "k' \<noteq> k \<Longrightarrow> arg (set_arg k v n) k' = arg n k'"
  by (simp_all add: arg_set_arg)

lemma nkind_set_child [simp]: "nkind (set_child n s c) = nkind n"
  by (simp add: set_child_def split: argval.splits)

lemma child_set_child_same: "child n s \<noteq> None \<Longrightarrow> child (set_child n s c) s = Some c"
  by (auto simp: child_def set_child_def split: argval.splits if_splits)

lemma child_set_child_other: "s' \<noteq> s \<Longrightarrow> child (set_child n s c) s' = child n s'"
  by (cases s; cases s')
    (auto simp: child_def set_child_def arg_set_arg nth_list_update split: argval.splits if_splits)

lemma child_set_child:
  "child n s \<noteq> None \<Longrightarrow> child (set_child n s c) s' = (if s' = s then Some c else child n s')"
  by (simp add: child_set_child_same child_set_child_other)

lemma sub_append: "sub t (p @ q) = (case sub t p of None \<Rightarrow> None | Some c \<Rightarrow> sub c q)"
  by (induction p arbitrary: t) (auto split: option.splits)

lemma sub_snoc: "sub t (p @ [s]) = (case sub t p of None \<Rightarrow> None | Some c \<Rightarrow> child c s)"
  by (auto simp: sub_append split: option.splits)

lemma upd_no_node: "sub t p = None \<Longrightarrow> upd p f t = t"
proof (induction p arbitrary: t)
  case Nil
  then show ?case by simp
next
  case (Cons s p)
  show ?case
  proof (cases "child t s")
    case None
    then show ?thesis by simp
  next
    case (Some c)
    with Cons.prems have "upd p f c = c" using Cons.IH by simp
    with Some show ?thesis
      by (auto simp: child_def set_child_def set_arg_def arg_def update_triv
          split: argval.splits if_splits option.splits)
        (cases t; auto simp: update_triv)+
  qed
qed

text \<open>What is found at and below an updated position, and elsewhere.\<close>

lemma sub_upd_below:
  "sub t p = Some c \<Longrightarrow> sub (upd p f t) (p @ q) = sub (f c) q"
proof (induction p arbitrary: t)
  case Nil
  then show ?case by simp
next
  case (Cons s p)
  then show ?case
    by (auto simp: child_set_child_same split: option.splits)
qed

lemma sub_upd_same: "sub t p = Some c \<Longrightarrow> sub (upd p f t) p = Some (f c)"
  using sub_upd_below [of t p c f "[]"] by simp

text \<open>A position that is not below the updated one keeps its node's class.\<close>

lemma sub_upd_disjoint:
  "\<not> prefix p q \<Longrightarrow> \<not> prefix q p \<Longrightarrow> sub (upd p f t) q = sub t q"
proof (induction p arbitrary: t q)
  case Nil
  then show ?case by simp
next
  case (Cons s p)
  from Cons.prems obtain s' q' where q: "q = s' # q'" by (cases q) auto
  show ?case
  proof (cases "child t s")
    case None
    then show ?thesis by simp
  next
    case (Some c)
    then show ?thesis
      using Cons.prems Cons.IH [of q' c] q
      by (cases "s' = s") (auto simp: child_set_child split: option.splits)
  qed
qed

lemma kind_at_upd_above:
  assumes "strict_prefix q p"
  shows "kind_at (upd p f t) q = kind_at t q"
  using assms
proof (induction p arbitrary: t q)
  case Nil
  then show ?case by simp
next
  case (Cons s p)
  show ?case
  proof (cases q)
    case Nil
    then show ?thesis by (simp add: kind_at_def split: option.splits)
  next
    case (Cons s' q')
    with Cons.prems have "s' = s" "strict_prefix q' p" by auto
    with Cons \<open>strict_prefix q' p\<close> Cons.IH show ?thesis
      by (auto simp: kind_at_def child_set_child_same split: option.splits)
  qed
qed

lemma sub_upd_above:
  "sub t q = Some n \<Longrightarrow> sub (upd (q @ r) f t) q = Some (upd r f n)"
proof (induction q arbitrary: t)
  case Nil
  then show ?case by simp
next
  case (Cons s q)
  then show ?case by (auto simp: child_set_child_same split: option.splits)
qed

lemma child_to_identifier [simp]: "child (to_identifier s) x = None"
  by (auto simp: child_def to_identifier_def arg_def split: argval.splits option.splits if_splits)

lemma sub_to_identifier [simp]: "sub (to_identifier s) p = (if p = [] then Some (to_identifier s) else None)"
  by (cases p) simp_all

lemma nkind_to_identifier [simp]: "nkind (to_identifier s) = KIdentifier"
  by (simp add: to_identifier_def)

lemma arg_to_identifier [simp]: "arg (to_identifier s) ''this'' = AStr s"
  by (simp add: to_identifier_def arg_def)

lemma child_cong: "arg n (fst s) = arg m (fst s) \<Longrightarrow> child n s = child m s"
  by (simp add: child_def)

lemma arg_set_child:
  "arg (set_child n s c) k =
     (if k = fst s then (case arg n k of
          ANode m \<Rightarrow> (if snd s = 0 then ANode c else ANode m)
        | AList ns \<Rightarrow> AList (ns[snd s := c])
        | v \<Rightarrow> v)
      else arg n k)"
  by (auto simp: set_child_def arg_set_arg split: argval.splits)

lemma kind_at_Some: "kind_at t p = Some k \<longleftrightarrow> (\<exists>n. sub t p = Some n \<and> nkind n = k)"
  by (auto simp: kind_at_def)

lemma kind_at_append: "sub t p = Some n \<Longrightarrow> kind_at t (p @ q) = kind_at n q"
  by (simp add: kind_at_def sub_append)

end
