(* ===== verification/Traversal.thy ===== *)
theory Traversal
  imports Ast
begin

text \<open>
  The SQLGlot interface: the record of library functions the program calls, what it relies on
  from \<open>Expression.walk\<close> and \<open>find_all\<close> (every node of the tree is visited, and
  once), and a breadth-first traversal that satisfies it, the concrete instance of the
  parameter in the evaluated examples.
\<close>

section \<open>The library's functions\<close>

text \<open>
  The tables handed to \<open>qualify\<close>: per schema, or flat where there is no schema level; each
  table with its column names.
\<close>

datatype qualify_schema =
    SchemaTables "(string \<times> (string \<times> string list) list) list"
  | FlatTables "(string \<times> string list) list"

text \<open>
  \<open>sg_parse d sql\<close>: the statements (or \<open>None\<close>) of \<open>sqlglot.parse\<close>, or what it raises;
  \<open>sg_walk t\<close>: the nodes of \<open>t\<close> in the order of \<open>walk\<close>;
  \<open>sg_sql d t\<close>: the generated text;
  \<open>sg_qualify d schema t\<close>: whether \<open>qualify\<close> returns or what it raises.
\<close>

record sqlglot =
  sg_parse :: "string \<Rightarrow> string \<Rightarrow> node option list result"
  sg_walk :: "node \<Rightarrow> pos list"
  sg_sql :: "string \<Rightarrow> node \<Rightarrow> string result"
  sg_qualify :: "string \<Rightarrow> qualify_schema \<Rightarrow> node \<Rightarrow> unit result"

type_synonym walker = "node \<Rightarrow> pos list"

text \<open>\<open>node.find_all(K1, ...)\<close>: the visited nodes of the given classes, in walk order.\<close>

definition find_all :: "walker \<Rightarrow> kind list \<Rightarrow> node \<Rightarrow> pos list" where
  "find_all walk ks t = filter (\<lambda>p. kind_at t p \<in> Some ` set ks) (walk t)"

text \<open>
  The same below a node at a position: the positions are those of the whole tree.
\<close>

definition find_all_at :: "walker \<Rightarrow> kind list \<Rightarrow> node \<Rightarrow> pos \<Rightarrow> pos list" where
  "find_all_at walk ks t p =
     (case sub t p of None \<Rightarrow> [] | Some n \<Rightarrow> map ((@) p) (find_all walk ks n))"

text \<open>What is relied on: a traversal visits exactly the nodes of the tree, each once.\<close>

definition walk_ok :: "walker \<Rightarrow> bool" where
  "walk_ok walk \<longleftrightarrow> (\<forall>t. distinct (walk t) \<and> set (walk t) = {p. sub t p \<noteq> None})"

lemma walk_ok_set: "walk_ok walk \<Longrightarrow> p \<in> set (walk t) \<longleftrightarrow> sub t p \<noteq> None"
  by (simp add: walk_ok_def)

lemma walk_ok_distinct: "walk_ok walk \<Longrightarrow> distinct (walk t)"
  by (simp add: walk_ok_def)

lemma set_find_all:
  "walk_ok walk \<Longrightarrow> set (find_all walk ks t) = {p. kind_at t p \<in> Some ` set ks}"
  by (auto simp: find_all_def walk_ok_set kind_at_def)

lemma set_find_all_at:
  assumes "walk_ok walk"
  shows "set (find_all_at walk ks t p) = {p @ q | q. kind_at t (p @ q) \<in> Some ` set ks}"
proof (cases "sub t p")
  case None
  then show ?thesis by (auto simp: find_all_at_def kind_at_def sub_append)
next
  case (Some n)
  then have "kind_at t (p @ q) = kind_at n q" for q
    by (simp add: kind_at_def sub_append)
  with Some show ?thesis by (auto simp: find_all_at_def set_find_all [OF assms])
qed

lemma distinct_find_all: "walk_ok walk \<Longrightarrow> distinct (find_all walk ks t)"
  by (simp add: find_all_def walk_ok_distinct)

section \<open>A breadth-first traversal\<close>

definition arg_names :: "node \<Rightarrow> string list" where
  "arg_names n = remdups (map fst (nargs n))"

definition node_children :: "node \<Rightarrow> (step \<times> node) list" where
  "node_children n = concat (map (\<lambda>k. arg_children (k, arg n k)) (arg_names n))"

lemma arg_children_steps:
  "(s, c) \<in> set (arg_children (k, arg n k)) \<longleftrightarrow> fst s = k \<and> child n s = Some c"
proof (cases "arg n k")
  case (AList ns)
  have "(s, c) \<in> set (arg_children (k, arg n k)) \<longleftrightarrow>
      (\<exists>i < length ns. s = (k, i) \<and> c = ns ! i)"
  proof
    assume "\<exists>i < length ns. s = (k, i) \<and> c = ns ! i"
    then obtain i where i: "i < length ns" "s = (k, i)" "c = ns ! i" by blast
    then have "(i, c) \<in> set (enumerate 0 ns)" by (simp add: in_set_enumerate_eq)
    with i show "(s, c) \<in> set (arg_children (k, arg n k))"
      by (auto simp: AList intro!: rev_image_eqI)
  qed (auto simp: AList in_set_enumerate_eq)
  then show ?thesis
    by (cases s) (auto simp: AList child_def split: if_splits)
next
  case (ANode m)
  then show ?thesis by (cases s) (auto simp: child_def split: if_splits)
qed (cases s; auto simp: child_def)+

lemma child_arg_names: "child n s = Some c \<Longrightarrow> fst s \<in> set (arg_names n)"
proof -
  assume "child n s = Some c"
  then have "map_of (nargs n) (fst s) \<noteq> None"
    by (auto simp: child_def arg_def split: option.splits)
  then show ?thesis by (auto simp: arg_names_def map_of_eq_None_iff)
qed

lemma in_node_children: "(s, c) \<in> set (node_children n) \<longleftrightarrow> child n s = Some c"
  by (auto simp: node_children_def arg_children_steps dest: child_arg_names)

lemma arg_children_fst: "s \<in> fst ` set (arg_children (k, v)) \<Longrightarrow> fst s = k"
  by (cases v) (auto simp: in_set_enumerate_eq)

lemma distinct_arg_children: "distinct (map fst (arg_children (k, v)))"
proof (cases v)
  case (AList ns)
  have "map fst (arg_children (k, v)) = map (\<lambda>i. (k, i)) [0..<length ns]"
    by (simp add: AList comp_def case_prod_beta)
      (metis (no_types, lifting) add_0 comp_apply map_eq_conv map_fst_enumerate map_map)
  then show ?thesis by (simp add: distinct_map inj_on_def)
qed simp_all

lemma distinct_node_children: "distinct (map fst (node_children n))"
proof -
  let ?f = "\<lambda>k. map fst (arg_children (k, arg n k))"
  have key: "fst s = k" if "s \<in> set (?f k)" for s k
    using that arg_children_fst [of s k "arg n k"] by simp
  have "distinct (concat (map ?f ks))" if "distinct ks" for ks
    using that
  proof (induction ks)
    case Nil
    then show ?case by simp
  next
    case (Cons k ks)
    have "set (?f k) \<inter> set (concat (map ?f ks)) = {}"
    proof (rule equals0I)
      fix s assume "s \<in> set (?f k) \<inter> set (concat (map ?f ks))"
      then obtain k' where "s \<in> set (?f k)" "k' \<in> set ks" "s \<in> set (?f k')" by auto
      with key [of s k] key [of s k'] Cons.prems show False by simp
    qed
    with Cons show ?case by (simp add: distinct_arg_children)
  qed
  from this [of "arg_names n"] show ?thesis
    by (simp add: node_children_def map_concat comp_def arg_names_def)
qed

fun height :: "node \<Rightarrow> nat" and arg_height :: "argval \<Rightarrow> nat" where
  "height (Node k as cs) = Suc (foldr max (map (\<lambda>x. arg_height (snd x)) as) 0)"
| "arg_height (ANode n) = height n"
| "arg_height (AList ns) = foldr max (map height ns) 0"
| "arg_height _ = 0"

lemma foldr_max_ge: "x \<in> set xs \<Longrightarrow> x \<le> foldr max xs (0::nat)"
  by (induction xs) auto

lemma height_child: "child n s = Some c \<Longrightarrow> height c < height n"
proof -
  assume c: "child n s = Some c"
  have "height c \<le> arg_height (arg n (fst s))"
    using c by (auto simp: child_def foldr_max_ge split: argval.splits if_splits)
  moreover have "arg_height (arg n (fst s)) < height n"
  proof (cases n)
    case (Node k as cs)
    with c obtain v where "map_of as (fst s) = Some v" and v: "arg n (fst s) = v"
      by (auto simp: child_def arg_def split: option.splits)
    then have "(fst s, v) \<in> set as" by (simp add: map_of_SomeD)
    then have "arg_height v \<in> set (map (\<lambda>x. arg_height (snd x)) as)" by force
    then show ?thesis using Node v foldr_max_ge by fastforce
  qed
  ultimately show ?thesis by simp
qed

lemma height_sub: "sub t p = Some n \<Longrightarrow> length p < height t"
proof (induction p arbitrary: t)
  case Nil
  show ?case by (cases t) simp
next
  case (Cons s p)
  then show ?case by (fastforce split: option.splits dest: height_child)
qed

text \<open>The positions at depth \<open>d\<close>, parents in order and children of a parent in order.\<close>

fun level :: "nat \<Rightarrow> node \<Rightarrow> pos list" where
  "level 0 t = [[]]"
| "level (Suc d) t =
     concat (map (\<lambda>x. map ((#) (fst x)) (level d (snd x))) (node_children t))"

definition bfs_walk :: walker where
  "bfs_walk t = concat (map (\<lambda>d. level d t) [0..<height t])"

lemma set_level: "p \<in> set (level d t) \<longleftrightarrow> length p = d \<and> sub t p \<noteq> None"
proof (induction d arbitrary: p t)
  case 0
  then show ?case by auto
next
  case (Suc d)
  show ?case
  proof (cases p)
    case Nil
    then show ?thesis by auto
  next
    case (Cons s q)
    have "p \<in> set (level (Suc d) t) \<longleftrightarrow> (\<exists>c. (s, c) \<in> set (node_children t) \<and> q \<in> set (level d c))"
      using Cons by force
    also have "\<dots> \<longleftrightarrow> (\<exists>c. child t s = Some c \<and> length q = d \<and> sub c q \<noteq> None)"
      by (simp add: in_node_children Suc.IH)
    finally show ?thesis using Cons by (auto split: option.splits)
  qed
qed

lemma distinct_level: "distinct (level d t)"
proof (induction d arbitrary: t)
  case 0
  then show ?case by simp
next
  case (Suc d)
  let ?f = "\<lambda>x. map ((#) (fst x)) (level d (snd x))"
  have "distinct (concat (map ?f xs))" if "distinct (map fst xs)" for xs :: "(step \<times> node) list"
    using that
  proof (induction xs)
    case Nil
    then show ?case by simp
  next
    case (Cons x xs)
    moreover have "distinct (?f x)" using Suc.IH by (simp add: distinct_map)
    moreover have "set (?f x) \<inter> set (concat (map ?f xs)) = {}"
      using Cons.prems by (auto simp: image_iff)
    ultimately show ?case by simp
  qed
  from this [OF distinct_node_children] show ?case by simp
qed

lemma walk_ok_bfs_walk: "walk_ok bfs_walk"
proof -
  have "set (bfs_walk t) = {p. sub t p \<noteq> None}" for t
    by (auto simp: bfs_walk_def set_level dest: height_sub)
  moreover have "distinct (concat (map (\<lambda>d. level d t) [0..<n]))" for t n
    by (induction n) (auto simp: distinct_level set_level)
  ultimately show ?thesis by (simp add: walk_ok_def bfs_walk_def)
qed

end
