(* ===== verification/Parser.thy ===== *)
theory Parser
  imports Config Traversal
begin

text \<open>
  \<open>security/dialect.py\<close> and \<open>security/parser.py\<close>: the facts that differ per SQL dialect,
  the size limits, the allowlist of syntax and \<open>parse_select\<close>.
\<close>

section \<open>Dialects\<close>

record dialect =
  d_name :: string
  d_has_schema :: bool
  d_bind_marker :: string
  d_escape_percent :: bool

definition SQLSERVER :: dialect where
  "SQLSERVER = \<lparr>d_name = ''tsql'', d_has_schema = True, d_bind_marker = ''?'',
     d_escape_percent = False\<rparr>"

definition MYSQL :: dialect where
  "MYSQL = \<lparr>d_name = ''mysql'', d_has_schema = False, d_bind_marker = ''%s'',
     d_escape_percent = True\<rparr>"

definition dialect_for :: "string \<Rightarrow> dialect result" where
  "dialect_for e =
     (if e = ''sqlserver'' then Inr SQLSERVER
      else if e \<in> {''mysql'', ''mariadb''} then Inr MYSQL
      else Inl (ValueError (''unsupported engine '' @ py_repr e)))"

lemma dialect_for_engine:
  "dialect_for (engine_text e) = Inr (if e = SQLSERVER_ENGINE then SQLSERVER else MYSQL)"
  by (cases e) (simp_all add: dialect_for_def)

section \<open>Limits\<close>

record parser_limits =
  max_sql_chars :: int
  max_ast_nodes :: int
  max_joins :: int
  max_in_list_items :: int

definition limits_from_runtime :: "runtime_config \<Rightarrow> parser_limits" where
  "limits_from_runtime r = \<lparr>max_sql_chars = rt_max_sql_chars r,
     max_ast_nodes = rt_max_ast_nodes r, max_joins = rt_max_joins r,
     max_in_list_items = rt_max_in_list_items r\<rparr>"

text \<open>The number of items of \<open>node.expressions\<close> at a position.\<close>

definition expressions_at :: "node \<Rightarrow> pos \<Rightarrow> node list" where
  "expressions_at q p = (case sub q p of None \<Rightarrow> [] | Some n \<Rightarrow> as_list (arg n ''expressions''))"

definition check_limits :: "walker \<Rightarrow> node \<Rightarrow> parser_limits \<Rightarrow> unit result" where
  "check_limits walk q lim =
     rbind (rcheck (\<lambda>count. raise_if (int count > max_ast_nodes lim) (reject LIMIT_NODES))
       [1..<Suc (length (walk q))]) (\<lambda>_.
     rbind (raise_if (int (length (find_all walk [KJoin] q)) > max_joins lim)
       (reject LIMIT_JOINS)) (\<lambda>_.
     rcheck (\<lambda>p. raise_if (int (length (expressions_at q p)) > max_in_list_items lim)
       (reject LIMIT_IN_LIST)) (find_all walk [KIn] q)))"

section \<open>The allowlist\<close>

definition COMPARISONS :: "kind list" where
  "COMPARISONS = [KEQ, KNEQ, KGT, KGTE, KLT, KLTE]"

text \<open>\<open>_ALLOWED_ARGS\<close>: the arguments of a class that may be non-empty; \<open>None\<close> off the list.\<close>

primrec ALLOWED_ARGS :: "kind \<Rightarrow> string list option" where
  "ALLOWED_ARGS KSelect =
     Some [''expressions'', ''from_'', ''joins'', ''where'', ''order'', ''limit'']"
| "ALLOWED_ARGS KFrom = Some [''this'']"
| "ALLOWED_ARGS KTable = Some [''this'', ''db'', ''alias'']"
| "ALLOWED_ARGS KTableAlias = Some [''this'']"
| "ALLOWED_ARGS KIdentifier = Some [''this'', ''quoted'']"
| "ALLOWED_ARGS KColumn = Some [''this'', ''table'']"
| "ALLOWED_ARGS KStar = Some []"
| "ALLOWED_ARGS KCount = Some [''this'', ''big_int'']"
| "ALLOWED_ARGS KLiteral = Some [''this'', ''is_string'']"
| "ALLOWED_ARGS KNull = Some []"
| "ALLOWED_ARGS KNeg = Some [''this'']"
| "ALLOWED_ARGS KAlias = Some [''this'', ''alias'']"
| "ALLOWED_ARGS KJoin = Some [''this'', ''on'', ''side'', ''kind'']"
| "ALLOWED_ARGS KAnd = Some [''this'', ''expression'']"
| "ALLOWED_ARGS KOr = Some [''this'', ''expression'']"
| "ALLOWED_ARGS KParen = Some [''this'']"
| "ALLOWED_ARGS KIn = Some [''this'', ''expressions'']"
| "ALLOWED_ARGS KIs = Some [''this'', ''expression'']"
| "ALLOWED_ARGS KWhere = Some [''this'']"
| "ALLOWED_ARGS KOrder = Some [''expressions'']"
| "ALLOWED_ARGS KOrdered = Some [''this'', ''desc'', ''nulls_first'']"
| "ALLOWED_ARGS KLimit = Some [''expression'']"
| "ALLOWED_ARGS KEQ = Some [''this'', ''expression'']"
| "ALLOWED_ARGS KNEQ = Some [''this'', ''expression'']"
| "ALLOWED_ARGS KGT = Some [''this'', ''expression'']"
| "ALLOWED_ARGS KGTE = Some [''this'', ''expression'']"
| "ALLOWED_ARGS KLT = Some [''this'', ''expression'']"
| "ALLOWED_ARGS KLTE = Some [''this'', ''expression'']"
| "ALLOWED_ARGS KPlaceholder = None"
| "ALLOWED_ARGS KVar = None"
| "ALLOWED_ARGS (KOther n) = None"

definition PLACEHOLDER_ARGS :: "string list" where
  "PLACEHOLDER_ARGS = [''this'']"

definition PROJECTIONS :: "kind list" where
  "PROJECTIONS = [KColumn, KStar, KLiteral, KNull, KNeg, KAlias, KCount]"

definition is_numeric_literal :: "argval \<Rightarrow> bool" where
  "is_numeric_literal v \<longleftrightarrow> (case v of
       ANode n \<Rightarrow> nkind n = KLiteral \<and> arg n ''is_string'' \<noteq> ABool True
     | _ \<Rightarrow> False)"

fun is_empty_arg :: "argval \<Rightarrow> bool" where
  "is_empty_arg ANone = True"
| "is_empty_arg (ABool b) = (\<not> b)"
| "is_empty_arg (AList ns) = (ns = [])"
| "is_empty_arg _ = False"

definition allowed_args :: "bool \<Rightarrow> kind \<Rightarrow> string list result" where
  "allowed_args allow_placeholders k =
     (if k = KPlaceholder \<and> allow_placeholders then Inr PLACEHOLDER_ARGS
      else case ALLOWED_ARGS k of
          Some as \<Rightarrow> Inr as
        | None \<Rightarrow> Inl (reject_detail NODE_UNSUPPORTED (kind_name k)))"

definition check_args :: "node \<Rightarrow> string list \<Rightarrow> unit result" where
  "check_args n allowed = rcheck (\<lambda>(name, v).
     raise_if (name \<notin> set allowed \<and> \<not> is_empty_arg v)
       (reject_detail OPTION_UNSUPPORTED (kind_name (nkind n) @ ''.'' @ name))) (nargs n)"

text \<open>\<open>node.side\<close> and \<open>node.kind\<close> of a join: the upper-case text of the argument.\<close>

definition join_word :: "node \<Rightarrow> string \<Rightarrow> string" where
  "join_word n key = map upper_char (node_text n key)"

text \<open>The conditions on the shape of a node, one branch per class.\<close>

definition check_shape :: "node \<Rightarrow> pos \<Rightarrow> node \<Rightarrow> unit result" where
  "check_shape q p n = (let this = arg n ''this''; expression = arg n ''expression'' in
     if nkind n = KTable then
       raise_if (\<not> is_kind this [KIdentifier] \<or>
           startswith (node_name n) ''#'' \<or> startswith (node_name n) ''@'')
         (reject TABLE_UNSUPPORTED)
     else if nkind n = KColumn then
       raise_if (\<not> is_kind this [KIdentifier, KStar]) (reject COLUMN_REFERENCE_UNSUPPORTED)
     else if nkind n = KCount then
       raise_if (\<not> is_kind this [KStar]) (reject COUNT_STAR_ONLY)
     else if nkind n = KStar then
       raise_if (parent_kind q p \<notin> {Some KSelect, Some KColumn, Some KCount})
         (reject STAR_PROJECTION_ONLY)
     else if nkind n = KJoin then
       rbind (raise_if (\<not> is_kind this [KTable] \<or> arg n ''on'' = ANone) (reject JOIN_NEEDS_ON))
         (\<lambda>_. raise_if (join_word n ''side'' \<notin> {'''', ''LEFT''} \<or>
                      join_word n ''kind'' \<notin> {'''', ''INNER''})
           (reject JOIN_TYPE_UNSUPPORTED))
     else if nkind n = KIs then
       raise_if (\<not> is_kind expression [KNull]) (reject IS_NULL_ONLY)
     else if nkind n = KNeg then
       raise_if (\<not> is_numeric_literal this) (reject NEGATION_NUMERIC_ONLY)
     else if nkind n = KLimit then
       raise_if (\<not> is_numeric_literal expression \<or> \<not> isdigit (node_text n ''expression''))
         (reject TOP_INTEGER_ONLY)
     else if nkind n = KOrdered then
       raise_if (\<not> is_kind this [KColumn] \<or>
           (case this of ANode c \<Rightarrow> is_kind (arg c ''this'') [KStar] | _ \<Rightarrow> False))
         (reject ORDER_DIRECT_COLUMNS_ONLY)
     else if nkind n = KIn then
       raise_if (\<not> is_kind this [KColumn] \<or>
           \<not> list_all (\<lambda>i. nkind i \<in> {KLiteral, KNeg, KPlaceholder})
              (as_list (arg n ''expressions'')))
         (reject IN_LITERALS_ONLY)
     else if nkind n \<in> set COMPARISONS then
       raise_if (is_kind this [KStar] \<or> is_kind expression [KStar]) (reject STAR_COMPARISON)
     else Inr ())"

definition check_node :: "bool \<Rightarrow> node \<Rightarrow> pos \<Rightarrow> unit result" where
  "check_node allow_placeholders q p = (case sub q p of
       None \<Rightarrow> Inr ()
     | Some n \<Rightarrow>
         rbind (allowed_args allow_placeholders (nkind n)) (\<lambda>allowed.
         rbind (check_args n allowed) (\<lambda>_.
         check_shape q p n)))"

definition validate_allowlist :: "walker \<Rightarrow> node \<Rightarrow> bool \<Rightarrow> unit result" where
  "validate_allowlist walk q allow_placeholders =
     rbind (raise_if (nkind q \<noteq> KSelect) (reject SELECT_ONLY)) (\<lambda>_.
     rbind (rcheck (check_node allow_placeholders q) (walk q)) (\<lambda>_.
     rcheck (\<lambda>n. raise_if (nkind n \<notin> set PROJECTIONS) (reject PROJECTION_UNSUPPORTED))
       (as_list (arg q ''expressions''))))"

section \<open>Comments\<close>

definition pop_comments :: "node \<Rightarrow> node" where
  "pop_comments n = Node (nkind n) (nargs n) []"

definition strip_comments :: "walker \<Rightarrow> node \<Rightarrow> node" where
  "strip_comments walk q = fold (\<lambda>p t. upd p pop_comments t) (walk q) q"

section \<open>Parsing\<close>

text \<open>
  The \<open>try\<close> block: any exception that is not a \<open>DomainError\<close> becomes a parse failure.
\<close>

definition parse_select :: "sqlglot \<Rightarrow> string \<Rightarrow> parser_limits \<Rightarrow> dialect \<Rightarrow> node result" where
  "parse_select lib sql lim d =
     rbind (raise_if (int (length sql) > max_sql_chars lim) (reject LIMIT_CHARS)) (\<lambda>_.
     rcatch
       (rbind (sg_parse lib (d_name d) sql) (\<lambda>parsed.
        let statements = map the (filter (\<lambda>s. s \<noteq> None) parsed) in
        rbind (raise_if (length statements \<noteq> 1) (reject ONE_STATEMENT)) (\<lambda>_.
        let query = hd statements in
        rbind (raise_if (nkind query \<noteq> KSelect) (reject SELECT_ONLY)) (\<lambda>_.
        rbind (check_limits (sg_walk lib) query lim) (\<lambda>_.
        rbind (validate_allowlist (sg_walk lib) query False) (\<lambda>_.
        Inr (strip_comments (sg_walk lib) query)))))))
       (\<lambda>e. if is_domain e then Inl e else Inl (reject PARSE_FAILED)))"

section \<open>What passing the checks means\<close>

lemma check_limits_Inr_iff:
  "check_limits walk q lim = Inr () \<longleftrightarrow>
     (\<forall>n \<in> {1..length (walk q)}. int n \<le> max_ast_nodes lim) \<and>
     int (length (find_all walk [KJoin] q)) \<le> max_joins lim \<and>
     (\<forall>p \<in> set (find_all walk [KIn] q). int (length (expressions_at q p)) \<le> max_in_list_items lim)"
proof -
  have "set [1..<Suc (length (walk q))] = {1..length (walk q)}" by auto
  then show ?thesis by (simp add: check_limits_def result_simps not_less)
qed

lemma check_limits_nodes:
  "check_limits walk q lim = Inr () \<Longrightarrow> walk q \<noteq> [] \<Longrightarrow> int (length (walk q)) \<le> max_ast_nodes lim"
  unfolding check_limits_Inr_iff
  by (erule conjE, drule bspec [of _ _ "length (walk q)"]) (auto simp: Suc_le_eq)

lemma validate_allowlist_Inr_iff:
  assumes "walk_ok walk"
  shows "validate_allowlist walk q ph = Inr () \<longleftrightarrow>
     nkind q = KSelect \<and> (\<forall>p n. sub q p = Some n \<longrightarrow> check_node ph q p = Inr ()) \<and>
     (\<forall>n \<in> set (as_list (arg q ''expressions'')). nkind n \<in> set PROJECTIONS)"
  by (auto simp: validate_allowlist_def result_simps walk_ok_set [OF assms])

lemma validate_allowlist_node:
  assumes "walk_ok walk" and "validate_allowlist walk q ph = Inr ()" and "sub q p = Some n"
  shows "check_node ph q p = Inr ()"
  using assms validate_allowlist_Inr_iff by blast

text \<open>The classes that can occur in a tree that passed.\<close>

definition ALLOWED_KINDS :: "kind list" where
  "ALLOWED_KINDS = [KSelect, KFrom, KTable, KTableAlias, KIdentifier, KColumn, KStar, KCount,
     KLiteral, KNull, KNeg, KAlias, KJoin, KAnd, KOr, KParen, KIn, KIs, KWhere, KOrder, KOrdered,
     KLimit, KEQ, KNEQ, KGT, KGTE, KLT, KLTE]"

lemma ALLOWED_ARGS_kinds: "ALLOWED_ARGS k \<noteq> None \<longleftrightarrow> k \<in> set ALLOWED_KINDS"
  by (cases k) (simp_all add: ALLOWED_KINDS_def)

lemma check_node_kind:
  assumes "check_node ph q p = Inr ()" and "sub q p = Some n"
  shows "nkind n \<in> set ALLOWED_KINDS \<or> ph \<and> nkind n = KPlaceholder"
  using assms ALLOWED_ARGS_kinds [of "nkind n"]
  by (auto simp: check_node_def allowed_args_def result_simps split: if_splits option.splits)

lemma check_node_args:
  assumes "check_node ph q p = Inr ()" and "sub q p = Some n" and "nkind n \<noteq> KPlaceholder"
    and "(name, v) \<in> set (nargs n)" and "\<not> is_empty_arg v"
  shows "\<exists>as. ALLOWED_ARGS (nkind n) = Some as \<and> name \<in> set as"
proof -
  from assms(1-3) obtain as where "ALLOWED_ARGS (nkind n) = Some as" "check_args n as = Inr ()"
    by (auto simp: check_node_def allowed_args_def result_simps split: option.splits)
  with assms(4,5) show ?thesis
    by (auto simp: check_args_def result_simps)
qed

lemma check_node_shape:
  "check_node ph q p = Inr () \<Longrightarrow> sub q p = Some n \<Longrightarrow> check_shape q p n = Inr ()"
  by (auto simp: check_node_def result_simps)

text \<open>Per class, the shape a passing node has.\<close>

lemma shape_table:
  "check_shape q p n = Inr () \<Longrightarrow> nkind n = KTable \<Longrightarrow> is_kind (arg n ''this'') [KIdentifier]"
  by (simp add: check_shape_def result_simps Let_def)

lemma shape_column:
  "check_shape q p n = Inr () \<Longrightarrow> nkind n = KColumn \<Longrightarrow> is_kind (arg n ''this'') [KIdentifier, KStar]"
  by (simp add: check_shape_def result_simps Let_def)

lemma shape_count:
  "check_shape q p n = Inr () \<Longrightarrow> nkind n = KCount \<Longrightarrow> is_kind (arg n ''this'') [KStar]"
  by (simp add: check_shape_def result_simps Let_def)

lemma shape_join:
  "check_shape q p n = Inr () \<Longrightarrow> nkind n = KJoin \<Longrightarrow>
     is_kind (arg n ''this'') [KTable] \<and> arg n ''on'' \<noteq> ANone"
  by (simp add: check_shape_def result_simps Let_def)

lemma shape_neg:
  "check_shape q p n = Inr () \<Longrightarrow> nkind n = KNeg \<Longrightarrow> is_numeric_literal (arg n ''this'')"
  by (simp add: check_shape_def result_simps Let_def)

lemma shape_limit:
  "check_shape q p n = Inr () \<Longrightarrow> nkind n = KLimit \<Longrightarrow>
     is_numeric_literal (arg n ''expression'') \<and> isdigit (node_text n ''expression'')"
  by (simp add: check_shape_def result_simps Let_def)

lemma shape_in:
  "check_shape q p n = Inr () \<Longrightarrow> nkind n = KIn \<Longrightarrow>
     is_kind (arg n ''this'') [KColumn] \<and>
     list_all (\<lambda>i. nkind i \<in> {KLiteral, KNeg, KPlaceholder}) (as_list (arg n ''expressions''))"
  by (simp add: check_shape_def result_simps Let_def)

lemmas shape_rules = shape_table shape_column shape_count shape_join shape_neg shape_limit shape_in

section \<open>Stripping comments\<close>

definition comments_at :: "node \<Rightarrow> pos \<Rightarrow> string list" where
  "comments_at t p = (case sub t p of None \<Rightarrow> [] | Some n \<Rightarrow> ncomments n)"

definition no_comments :: "node \<Rightarrow> bool" where
  "no_comments t \<longleftrightarrow> (\<forall>p n. sub t p = Some n \<longrightarrow> ncomments n = [])"

lemma no_comments_iff: "no_comments t \<longleftrightarrow> (\<forall>p. comments_at t p = [])"
  by (auto simp: no_comments_def comments_at_def split: option.splits)

lemma child_pop_comments [simp]: "child (pop_comments n) s = child n s"
  by (simp add: pop_comments_def child_def arg_def)

lemma sub_pop_comments [simp]: "p \<noteq> [] \<Longrightarrow> sub (pop_comments n) p = sub n p"
  by (cases p) simp_all

lemma ncomments_pop_comments [simp]: "ncomments (pop_comments n) = []"
  by (simp add: pop_comments_def)

lemma ncomments_set_child [simp]: "ncomments (set_child n s c) = ncomments n"
  by (simp add: set_child_def split: argval.splits)

lemma comments_at_Nil [simp]: "comments_at t [] = ncomments t"
  by (simp add: comments_at_def)

lemma comments_at_Cons [simp]:
  "comments_at t (s # p) = (case child t s of None \<Rightarrow> [] | Some c \<Rightarrow> comments_at c p)"
  by (simp add: comments_at_def split: option.splits)

lemma comments_at_pop_comments: "comments_at (pop_comments n) p = (if p = [] then [] else comments_at n p)"
  by (cases p) simp_all

lemma comments_at_upd:
  "comments_at (upd p pop_comments t) q = (if q = p then [] else comments_at t q)"
proof (induction p arbitrary: t q)
  case Nil
  then show ?case by (simp add: comments_at_pop_comments)
next
  case (Cons s p)
  then show ?case
    by (cases q) (auto simp: child_set_child split: option.splits)
qed

lemma sub_upd_pop_comments: "sub (upd p pop_comments t) q = None \<longleftrightarrow> sub t q = None"
proof (induction p arbitrary: t q)
  case Nil
  then show ?case by (cases q) simp_all
next
  case (Cons s p)
  then show ?case by (cases q) (auto simp: child_set_child split: option.splits)
qed

lemma comments_at_fold:
  "comments_at (fold (\<lambda>p t. upd p pop_comments t) ps t) q =
     (if q \<in> set ps then [] else comments_at t q)"
  by (induction ps arbitrary: t) (auto simp: comments_at_upd)

lemma nkind_upd_pop_comments [simp]: "nkind (upd p pop_comments t) = nkind t"
  by (cases p) (auto simp: pop_comments_def split: option.split)

lemma nkind_strip_comments [simp]: "nkind (strip_comments walk q) = nkind q"
proof -
  have "nkind (fold (\<lambda>p t. upd p pop_comments t) ps q) = nkind q" for ps
    by (induction ps arbitrary: q) simp_all
  then show ?thesis by (simp add: strip_comments_def)
qed

lemma sub_strip_None:
  "sub (fold (\<lambda>p t. upd p pop_comments t) ps t) q = None \<longleftrightarrow> sub t q = None"
  by (induction ps arbitrary: t) (simp_all add: sub_upd_pop_comments)

lemma no_comments_strip_comments:
  assumes "walk_ok walk"
  shows "no_comments (strip_comments walk q)"
  unfolding no_comments_iff
proof
  fix p
  show "comments_at (strip_comments walk q) p = []"
    by (auto simp: strip_comments_def comments_at_fold walk_ok_set [OF assms])
      (simp add: comments_at_def)
qed

text \<open>Later changes keep the tree free of comments when what they put in is.\<close>

lemma no_comments_Nil: "no_comments t \<Longrightarrow> ncomments t = []"
  unfolding no_comments_def by (metis sub.simps(1))

lemma no_comments_child: "no_comments t \<Longrightarrow> child t s = Some c \<Longrightarrow> no_comments c"
  unfolding no_comments_def by (metis option.simps(5) sub.simps(2))

lemma no_comments_sub: "no_comments t \<Longrightarrow> sub t p = Some c \<Longrightarrow> no_comments c"
  by (induction p arbitrary: t) (auto dest: no_comments_child split: option.splits)

lemma no_commentsI:
  assumes "ncomments t = []" and "\<And>s c. child t s = Some c \<Longrightarrow> no_comments c"
  shows "no_comments t"
  unfolding no_comments_def
proof (intro allI impI)
  fix p n assume "sub t p = Some n"
  with assms show "ncomments n = []"
    by (cases p) (auto simp: no_comments_def split: option.splits)
qed

lemma no_comments_set_child:
  assumes "no_comments t" and "no_comments c"
  shows "no_comments (set_child t s c)"
proof (rule no_commentsI)
  show "ncomments (set_child t s c) = []" using assms(1) by (simp add: no_comments_Nil)
  fix s' c' assume c': "child (set_child t s c) s' = Some c'"
  show "no_comments c'"
  proof (cases "child t s")
    case None
    then have "child (set_child t s c) s' = child t s'"
      by (cases s; cases s') (auto simp: child_def set_child_def arg_set_arg list_update_beyond
          split: argval.splits if_splits)
    with c' show ?thesis using assms(1) by (auto dest: no_comments_child)
  next
    case (Some d)
    with c' assms show ?thesis by (auto simp: child_set_child split: if_splits dest: no_comments_child)
  qed
qed

lemma no_comments_upd:
  assumes "no_comments t" and "\<And>n. no_comments n \<Longrightarrow> no_comments (f n)"
  shows "no_comments (upd p f t)"
  using assms(1)
proof (induction p arbitrary: t)
  case Nil
  then show ?case by (simp add: assms(2))
next
  case (Cons s p)
  then show ?case
    by (auto intro!: no_comments_set_child Cons.IH dest: no_comments_child split: option.splits)
qed

lemma no_comments_set_arg:
  assumes "no_comments n"
    and "\<And>m. v = ANode m \<Longrightarrow> no_comments m"
    and "\<And>ms m. v = AList ms \<Longrightarrow> m \<in> set ms \<Longrightarrow> no_comments m"
  shows "no_comments (set_arg k v n)"
proof (rule no_commentsI)
  show "ncomments (set_arg k v n) = []" using assms(1) by (simp add: no_comments_Nil)
  fix s c assume c: "child (set_arg k v n) s = Some c"
  show "no_comments c"
  proof (cases "fst s = k")
    case True
    with c assms(2,3) show ?thesis
      by (auto simp: child_def split: argval.splits if_splits)
  next
    case False
    with c have "child n s = Some c" by (simp add: child_def)
    with assms(1) show ?thesis by (rule no_comments_child)
  qed
qed

lemma no_comments_leaf:
  "(\<And>k v. (k, v) \<in> set as \<Longrightarrow> as_node v = None \<and> as_list v = []) \<Longrightarrow> no_comments (Node k0 as [])"
  by (rule no_commentsI)
    (auto simp: child_def arg_def dest!: map_of_SomeD split: argval.splits option.splits if_splits,
      fastforce+)

lemma no_comments_to_identifier [simp]: "no_comments (to_identifier s)"
  unfolding to_identifier_def by (rule no_comments_leaf) auto

lemma no_comments_literal_number [simp]: "no_comments (literal_number i)"
  unfolding literal_number_def by (rule no_comments_leaf) auto

section \<open>The result of parsing\<close>

lemma parse_select_cases:
  assumes "parse_select lib sql lim d = Inr q"
  obtains parsed q0 where "int (length sql) \<le> max_sql_chars lim"
    and "sg_parse lib (d_name d) sql = Inr parsed" and "filter (\<lambda>s. s \<noteq> None) parsed = [Some q0]"
    and "nkind q0 = KSelect" and "check_limits (sg_walk lib) q0 lim = Inr ()"
    and "validate_allowlist (sg_walk lib) q0 False = Inr ()"
    and "q = strip_comments (sg_walk lib) q0"
proof -
  from assms obtain parsed where len: "int (length sql) \<le> max_sql_chars lim"
    and parsed: "sg_parse lib (d_name d) sql = Inr parsed"
    and one: "length (map the (filter (\<lambda>s. s \<noteq> None) parsed)) = 1"
    and q: "nkind (hd (map the (filter (\<lambda>s. s \<noteq> None) parsed))) = KSelect"
      "check_limits (sg_walk lib) (hd (map the (filter (\<lambda>s. s \<noteq> None) parsed))) lim = Inr ()"
      "validate_allowlist (sg_walk lib) (hd (map the (filter (\<lambda>s. s \<noteq> None) parsed))) False = Inr ()"
      "q = strip_comments (sg_walk lib) (hd (map the (filter (\<lambda>s. s \<noteq> None) parsed)))"
    by (auto simp: parse_select_def result_simps Let_def not_less split: if_splits)
  from one obtain x where x: "filter (\<lambda>s. s \<noteq> None) parsed = [x]"
    by (cases "filter (\<lambda>s. s \<noteq> None) parsed") auto
  then have "x \<in> set (filter (\<lambda>s. s \<noteq> None) parsed)" by simp
  then obtain q0 where "x = Some q0" by auto
  with that len parsed x q show thesis by simp
qed

lemma parse_select_error:
  assumes "\<And>e. sg_parse lib (d_name d) sql = Inl e \<Longrightarrow> \<not> is_domain e"
    and "parse_select lib sql lim d = Inl e"
  shows "exn_code e = Some QUERY_REJECTED"
proof -
  have limits: "exn_code e = Some QUERY_REJECTED" if "check_limits w q lim = Inl e" for w q e
    using that by (auto simp: check_limits_def result_simps dest!: rcheck_InlD)
  have shape: "exn_code e = Some QUERY_REJECTED" if "check_shape q p n = Inl e" for q p n e
    using that by (auto simp: check_shape_def Let_def result_simps split: if_splits)
  have node: "exn_code e = Some QUERY_REJECTED" if "check_node ph q p = Inl e" for ph q p e
    using that by (auto simp: check_node_def allowed_args_def check_args_def result_simps
        dest!: rcheck_InlD dest: shape split: if_splits option.splits)
  have allow: "exn_code e = Some QUERY_REJECTED" if "validate_allowlist w q ph = Inl e" for w q ph e
    using that by (auto simp: validate_allowlist_def result_simps dest!: rcheck_InlD dest: node)
  show ?thesis
    using assms(2)
    by (auto simp: parse_select_def result_simps Let_def rcatch_def
        split: sum.splits if_splits dest: limits allow assms(1))
qed

end
