(* ===== verification/Grammar.thy ===== *)
theory Grammar
  imports Parser
begin

text \<open>
  The fragment of SQL that the allowlist of \<open>security/parser.py\<close> admits, written down on its own
  as a recogniser over trees: one production for each class of nodes, which says what arguments a
  node has and what stands at them, applied to a tree from the root down.  It uses neither the
  tables nor the checks of the code; theory \<open>Spec2Isabelle\<close> proves that the code recognises
  exactly these trees.
\<close>

section \<open>Productions\<close>

text \<open>An argument that is not there: \<open>None\<close>, \<open>False\<close> or the empty list.\<close>

definition absent :: "argval \<Rightarrow> bool" where
  "absent v \<longleftrightarrow> v = ANone \<or> v = ABool False \<or> v = AList []"

definition only_args :: "string list \<Rightarrow> node \<Rightarrow> bool" where
  "only_args names n \<longleftrightarrow> list_all (\<lambda>(k, v). k \<in> set names \<or> absent v) (nargs n)"

text \<open>The node that stands at an argument, of one of the classes given.\<close>

definition stands_at :: "node \<Rightarrow> string \<Rightarrow> (node \<Rightarrow> bool) \<Rightarrow> bool" where
  "stands_at n key P \<longleftrightarrow> (case arg n key of ANode m \<Rightarrow> P m | _ \<Rightarrow> False)"

definition number :: "node \<Rightarrow> bool" where
  "number m \<longleftrightarrow> nkind m = KLiteral \<and> arg m ''is_string'' \<noteq> ABool True"

definition no_star_at :: "node \<Rightarrow> string \<Rightarrow> bool" where
  "no_star_at n key \<longleftrightarrow> \<not> stands_at n key (\<lambda>m. nkind m = KStar)"

text \<open>A name that is no temporary table and no variable.\<close>

definition base_name :: "node \<Rightarrow> bool" where
  "base_name m \<longleftrightarrow> nkind m = KIdentifier \<and>
     (case arg_str (arg m ''this'') of [] \<Rightarrow> True | c # _ \<Rightarrow> c \<noteq> CHR ''#'' \<and> c \<noteq> CHR ''@'')"

text \<open>The word of a join: \<open>LEFT JOIN\<close> and \<open>INNER JOIN\<close> are written in any case.\<close>

definition word_at :: "node \<Rightarrow> string \<Rightarrow> string list \<Rightarrow> bool" where
  "word_at n key words \<longleftrightarrow> map upper_char (node_text n key) \<in> set words"

text \<open>
  \<open>production ph par n\<close>: the node fits its class, below a node of class \<open>par\<close>; with \<open>ph\<close>, bind
  placeholders are part of the fragment.
\<close>

definition production :: "bool \<Rightarrow> kind option \<Rightarrow> node \<Rightarrow> bool" where
  "production ph par n = (case nkind n of
     KSelect \<Rightarrow> only_args [''expressions'', ''from_'', ''joins'', ''where'', ''order'', ''limit''] n
   | KFrom \<Rightarrow> only_args [''this''] n
   | KTable \<Rightarrow> only_args [''this'', ''db'', ''alias''] n \<and> stands_at n ''this'' base_name
   | KTableAlias \<Rightarrow> only_args [''this''] n
   | KIdentifier \<Rightarrow> only_args [''this'', ''quoted''] n
   | KColumn \<Rightarrow> only_args [''this'', ''table''] n \<and>
       stands_at n ''this'' (\<lambda>m. nkind m = KIdentifier \<or> nkind m = KStar)
   | KStar \<Rightarrow> only_args [] n \<and> (par = Some KSelect \<or> par = Some KColumn \<or> par = Some KCount)
   | KCount \<Rightarrow> only_args [''this'', ''big_int''] n \<and> stands_at n ''this'' (\<lambda>m. nkind m = KStar)
   | KLiteral \<Rightarrow> only_args [''this'', ''is_string''] n
   | KNull \<Rightarrow> only_args [] n
   | KNeg \<Rightarrow> only_args [''this''] n \<and> stands_at n ''this'' number
   | KAlias \<Rightarrow> only_args [''this'', ''alias''] n
   | KJoin \<Rightarrow> only_args [''this'', ''on'', ''side'', ''kind''] n \<and>
       stands_at n ''this'' (\<lambda>m. nkind m = KTable) \<and> arg n ''on'' \<noteq> ANone \<and>
       word_at n ''side'' ['''', ''LEFT''] \<and> word_at n ''kind'' ['''', ''INNER'']
   | KAnd \<Rightarrow> only_args [''this'', ''expression''] n
   | KOr \<Rightarrow> only_args [''this'', ''expression''] n
   | KParen \<Rightarrow> only_args [''this''] n
   | KIn \<Rightarrow> only_args [''this'', ''expressions''] n \<and> stands_at n ''this'' (\<lambda>m. nkind m = KColumn) \<and>
       list_all (\<lambda>m. nkind m = KLiteral \<or> nkind m = KNeg \<or> nkind m = KPlaceholder) (as_list (arg n ''expressions''))
   | KIs \<Rightarrow> only_args [''this'', ''expression''] n \<and> stands_at n ''expression'' (\<lambda>m. nkind m = KNull)
   | KWhere \<Rightarrow> only_args [''this''] n
   | KOrder \<Rightarrow> only_args [''expressions''] n
   | KOrdered \<Rightarrow> only_args [''this'', ''desc'', ''nulls_first''] n \<and>
       stands_at n ''this'' (\<lambda>m. nkind m = KColumn \<and> no_star_at m ''this'')
   | KLimit \<Rightarrow> only_args [''expression''] n \<and> stands_at n ''expression'' (\<lambda>m. number m \<and> isdigit (arg_str (arg m ''this'')))
   | KEQ \<Rightarrow> only_args [''this'', ''expression''] n \<and> no_star_at n ''this'' \<and> no_star_at n ''expression''
   | KNEQ \<Rightarrow> only_args [''this'', ''expression''] n \<and> no_star_at n ''this'' \<and> no_star_at n ''expression''
   | KGT \<Rightarrow> only_args [''this'', ''expression''] n \<and> no_star_at n ''this'' \<and> no_star_at n ''expression''
   | KGTE \<Rightarrow> only_args [''this'', ''expression''] n \<and> no_star_at n ''this'' \<and> no_star_at n ''expression''
   | KLT \<Rightarrow> only_args [''this'', ''expression''] n \<and> no_star_at n ''this'' \<and> no_star_at n ''expression''
   | KLTE \<Rightarrow> only_args [''this'', ''expression''] n \<and> no_star_at n ''this'' \<and> no_star_at n ''expression''
   | KPlaceholder \<Rightarrow> ph \<and> only_args [''this''] n
   | KVar \<Rightarrow> False
   | KOther name \<Rightarrow> False)"

section \<open>Trees\<close>

text \<open>The productions hold from a node down to its leaves.\<close>

function accepts :: "bool \<Rightarrow> kind option \<Rightarrow> node \<Rightarrow> bool" where
  "accepts ph par n \<longleftrightarrow> production ph par n \<and>
     list_all (\<lambda>(s, c). accepts ph (Some (nkind n)) c) (node_children n)"
  by pat_completeness auto
termination
  by (relation "measure (\<lambda>(ph, par, n). height n)") (auto dest!: in_node_children [THEN iffD1] height_child)

declare accepts.simps [simp del]

text \<open>A projection is a column, a star, a constant, a negated number, an alias or a count.\<close>

definition projection_class :: "node \<Rightarrow> bool" where
  "projection_class n \<longleftrightarrow> nkind n = KColumn \<or> nkind n = KStar \<or> nkind n = KLiteral \<or> nkind n = KNull \<or>
     nkind n = KNeg \<or> nkind n = KAlias \<or> nkind n = KCount"

definition in_fragment :: "bool \<Rightarrow> node \<Rightarrow> bool" where
  "in_fragment ph q \<longleftrightarrow> nkind q = KSelect \<and> accepts ph None q \<and>
     list_all projection_class (as_list (arg q ''expressions''))"

section \<open>The code's checks are the productions\<close>

lemma absent_iff: "absent v \<longleftrightarrow> is_empty_arg v"
  by (cases v rule: is_empty_arg.cases) (auto simp: absent_def)

lemma check_args_iff: "check_args n names = Inr () \<longleftrightarrow> only_args names n"
  by (auto simp: check_args_def only_args_def result_simps list_all_iff absent_iff)

lemma stands_at_kind: "is_kind (arg n key) ks \<longleftrightarrow> stands_at n key (\<lambda>m. nkind m \<in> set ks)"
  by (simp add: is_kind_def stands_at_def split: argval.split)

lemma number_iff: "is_numeric_literal (arg n key) \<longleftrightarrow> stands_at n key number"
  by (simp add: is_numeric_literal_def stands_at_def number_def split: argval.split)

lemma base_name_iff:
  "is_kind (arg n ''this'') [KIdentifier] \<and> \<not> startswith (node_name n) ''#'' \<and> \<not> startswith (node_name n) ''@'' \<longleftrightarrow>
     stands_at n ''this'' base_name"
  by (auto simp: is_kind_def stands_at_def base_name_def node_text_def
      split: argval.split list.split)

lemma ordered_iff:
  "stands_at n ''this'' (\<lambda>m. nkind m = KColumn) \<and>
     \<not> (case arg n ''this'' of ANode c \<Rightarrow> is_kind (arg c ''this'') [KStar] | _ \<Rightarrow> False) \<longleftrightarrow>
     stands_at n ''this'' (\<lambda>m. nkind m = KColumn \<and> \<not> stands_at m ''this'' (\<lambda>m. nkind m = KStar))"
  by (auto simp: is_kind_def stands_at_def split: argval.split)

lemma limit_iff:
  "is_numeric_literal (arg n ''expression'') \<and> isdigit (node_text n ''expression'') \<longleftrightarrow>
     stands_at n ''expression'' (\<lambda>m. number m \<and> isdigit (arg_str (arg m ''this'')))"
  by (auto simp: is_numeric_literal_def stands_at_def number_def node_text_def split: argval.split)

lemma word_at_iff: "join_word n key \<in> set words \<longleftrightarrow> word_at n key words"
  by (simp add: join_word_def word_at_def)

lemma shape_kinds:
  "check_shape q p n = Inr () \<longleftrightarrow> (case nkind n of
     KTable \<Rightarrow> stands_at n ''this'' base_name
   | KColumn \<Rightarrow> stands_at n ''this'' (\<lambda>m. nkind m = KIdentifier \<or> nkind m = KStar)
   | KCount \<Rightarrow> stands_at n ''this'' (\<lambda>m. nkind m = KStar)
   | KStar \<Rightarrow> parent_kind q p = Some KSelect \<or> parent_kind q p = Some KColumn \<or> parent_kind q p = Some KCount
   | KJoin \<Rightarrow> stands_at n ''this'' (\<lambda>m. nkind m = KTable) \<and> arg n ''on'' \<noteq> ANone \<and>
       word_at n ''side'' ['''', ''LEFT''] \<and> word_at n ''kind'' ['''', ''INNER'']
   | KIs \<Rightarrow> stands_at n ''expression'' (\<lambda>m. nkind m = KNull)
   | KNeg \<Rightarrow> stands_at n ''this'' number
   | KLimit \<Rightarrow> stands_at n ''expression'' (\<lambda>m. number m \<and> isdigit (arg_str (arg m ''this'')))
   | KOrdered \<Rightarrow> stands_at n ''this'' (\<lambda>m. nkind m = KColumn \<and> no_star_at m ''this'')
   | KIn \<Rightarrow> stands_at n ''this'' (\<lambda>m. nkind m = KColumn) \<and>
       list_all (\<lambda>m. nkind m = KLiteral \<or> nkind m = KNeg \<or> nkind m = KPlaceholder) (as_list (arg n ''expressions''))
   | k \<Rightarrow> k \<in> set COMPARISONS \<longrightarrow> no_star_at n ''this'' \<and> no_star_at n ''expression'')"
  by (cases "nkind n")
    (simp_all add: check_shape_def Let_def raise_if_eq_Inr_iff rbind_eq_Inr_iff base_name_iff [symmetric]
      ordered_iff limit_iff [symmetric] number_iff [symmetric] word_at_iff [symmetric]
      stands_at_kind no_star_at_def COMPARISONS_def de_Morgan_disj)

lemma check_node_production:
  assumes "sub q p = Some n"
  shows "check_node ph q p = Inr () \<longleftrightarrow> production ph (parent_kind q p) n"
proof -
  have "check_node ph q p = Inr () \<longleftrightarrow>
      (\<exists>names. allowed_args ph (nkind n) = Inr names \<and> only_args names n) \<and> check_shape q p n = Inr ()"
    by (auto simp: check_node_def assms result_simps check_args_iff)
  then show ?thesis
    by (cases "nkind n") (simp_all add: shape_kinds production_def allowed_args_def PLACEHOLDER_ARGS_def COMPARISONS_def)
qed

text \<open>A tree is accepted when every node, at any position, fits its production.\<close>

lemma accepts_everywhere:
  "accepts ph par t \<longleftrightarrow>
     (\<forall>p n. sub t p = Some n \<longrightarrow> production ph (if p = [] then par else kind_at t (butlast p)) n)"
proof (induction t arbitrary: par rule: measure_induct_rule [of height])
  case (less t)
  have kids: "accepts ph (Some (nkind t)) c \<longleftrightarrow> (\<forall>p n. sub c p = Some n \<longrightarrow>
      production ph (kind_at t (butlast (s # p))) n)" if "child t s = Some c" for s c
  proof -
    have "(if p = [] then Some (nkind t) else kind_at c (butlast p)) = kind_at t (butlast (s # p))" for p
      using that by (simp add: kind_at_def)
    with less.IH [OF height_child [OF that]] show ?thesis by simp
  qed
  have "accepts ph par t \<longleftrightarrow> production ph par t \<and>
      (\<forall>s c. child t s = Some c \<longrightarrow> accepts ph (Some (nkind t)) c)"
    by (subst accepts.simps) (auto simp: list_all_iff in_node_children)
  also have "\<dots> \<longleftrightarrow> production ph par t \<and> (\<forall>s c p n. child t s = Some c \<longrightarrow> sub c p = Some n \<longrightarrow>
      production ph (kind_at t (butlast (s # p))) n)"
    using kids by blast
  also have "\<dots> \<longleftrightarrow> (\<forall>p n. sub t p = Some n \<longrightarrow> production ph (if p = [] then par else kind_at t (butlast p)) n)"
    (is "?l \<longleftrightarrow> ?r")
  proof
    assume ?l
    show ?r
    proof (intro allI impI)
      fix p n assume "sub t p = Some n"
      with \<open>?l\<close> show "production ph (if p = [] then par else kind_at t (butlast p)) n"
        by (cases p) (auto simp del: butlast.simps split: option.splits)
    qed
  next
    assume ?r
    then have "production ph par t" by (metis sub.simps(1))
    moreover have "production ph (kind_at t (butlast (s # p))) n" if "child t s = Some c" "sub c p = Some n" for s c p n
      using \<open>?r\<close> that by (metis list.distinct(1) option.simps(5) sub.simps(2))
    ultimately show ?l by blast
  qed
  finally show ?case .
qed

lemma validate_allowlist_fragment:
  assumes "walk_ok walk"
  shows "validate_allowlist walk q ph = Inr () \<longleftrightarrow> in_fragment ph q"
proof -
  have "(\<forall>p n. sub q p = Some n \<longrightarrow> check_node ph q p = Inr ()) \<longleftrightarrow> accepts ph None q"
    unfolding accepts_everywhere using check_node_production by (fastforce simp: parent_kind_def)
  moreover have "(\<forall>n \<in> set es. nkind n \<in> set PROJECTIONS) \<longleftrightarrow> list_all projection_class es" for es
    by (auto simp: list_all_iff projection_class_def PROJECTIONS_def)
  ultimately show ?thesis
    unfolding validate_allowlist_Inr_iff [OF assms] in_fragment_def by simp
qed

end
