(* ===== verification/Pyval.thy ===== *)
theory Pyval
  imports Base64
begin

text \<open>
  The Python values a database driver returns and the standard library's texts of them:
  \<open>isoformat\<close> and \<open>fromisoformat\<close> of dates and times, \<open>str\<close> of a
  \<open>Decimal\<close> and a \<open>UUID\<close>, with the parsers restricted to the canonical texts (the program
  compares the parsed value's text with the input and turns every other spelling down).  The
  lemmas are the round trips.
\<close>

section \<open>Values\<close>

record pydate =
  da_year :: nat
  da_month :: nat
  da_day :: nat

text \<open>\<open>tm_offset\<close>: the UTC offset of an aware value, in microseconds.\<close>

record pytime =
  tm_hour :: nat
  tm_minute :: nat
  tm_second :: nat
  tm_micro :: nat
  tm_offset :: "int option"

text \<open>A finite float is given by a numeral that denotes it, its \<open>repr\<close>.\<close>

datatype pyfloat = FloatNan | FloatInf bool | FloatFinite string

text \<open>\<open>(-1) ^ sign * coefficient * 10 ^ exponent\<close>, or a special value by its text.\<close>

datatype pydecimal = DecFinite bool nat int | DecSpecial string

text \<open>The constructors are the exact types; an instance of any other type is \<open>PyOther\<close>.\<close>

datatype pyval =
    PyNone | PyStr string | PyBool bool | PyInt int | PyFloat pyfloat | PyDecimal pydecimal
  | PyDate pydate | PyDatetime pydate pytime | PyTime pytime | PyTimedelta int | PyUuid nat
  | PyBytes bytes | PyBytearray bytes | PyMemoryview bytes | PyOther string

section \<open>Numerals of fixed width\<close>

definition digit_value :: "char \<Rightarrow> nat option" where
  "digit_value c = (let n = ord c in
     if 48 \<le> n \<and> n \<le> 57 then Some (n - 48)
     else if 97 \<le> n \<and> n \<le> 102 then Some (n - 87) else None)"

text \<open>The last \<open>w\<close> digits of \<open>n\<close> to the base \<open>b\<close>, \<open>b \<le> 16\<close>.\<close>

primrec fixed :: "nat \<Rightarrow> nat \<Rightarrow> nat \<Rightarrow> string" where
  "fixed b 0 n = []"
| "fixed b (Suc w) n = fixed b w (n div b) @ [hex_digit (n mod b)]"

fun scan_digits :: "nat \<Rightarrow> nat \<Rightarrow> nat \<Rightarrow> string \<Rightarrow> (nat \<times> string) option" where
  "scan_digits b 0 a s = Some (a, s)"
| "scan_digits b (Suc w) a [] = None"
| "scan_digits b (Suc w) a (c # s) = (case digit_value c of
     None \<Rightarrow> None
   | Some d \<Rightarrow> if d < b then scan_digits b w (b * a + d) s else None)"

definition scan_fixed :: "nat \<Rightarrow> nat \<Rightarrow> string \<Rightarrow> (nat \<times> string) option" where
  "scan_fixed b w s = scan_digits b w 0 s"

text \<open>Expect a character.\<close>

fun scan_char :: "char \<Rightarrow> string \<Rightarrow> string option" where
  "scan_char c [] = None"
| "scan_char c (d # s) = (if d = c then Some s else None)"

lemma length_fixed [simp]: "length (fixed b w n) = w"
  by (induction w arbitrary: n) simp_all

lemma digit_value_hex_digit: "d < 16 \<Longrightarrow> digit_value (hex_digit d) = Some d"
  by (auto simp: digit_value_def hex_digit_def digit_char_def of_char_of Let_def)

lemma scan_digits_snoc:
  "scan_digits b w a s = Some (m, c # t) \<Longrightarrow> digit_value c = Some d \<Longrightarrow> d < b \<Longrightarrow>
     scan_digits b (Suc w) a s = Some (b * m + d, t)"
  by (induction b w a s rule: scan_digits.induct) (auto split: option.splits if_splits)

lemma scan_digits_fixed:
  assumes "0 < b" and "b \<le> 16"
  shows "scan_digits b w a (fixed b w n @ s) = Some (a * b ^ w + n mod b ^ w, s)"
proof (induction w arbitrary: n s)
  case 0
  then show ?case by simp
next
  case (Suc w)
  have d: "n mod b < b" using assms(1) by simp
  with assms(2) have v: "digit_value (hex_digit (n mod b)) = Some (n mod b)"
    by (intro digit_value_hex_digit) simp
  have "b * (a * b ^ w + n div b mod b ^ w) + n mod b = a * b ^ Suc w + n mod b ^ Suc w"
    by (simp add: mod_mult2_eq algebra_simps)
  then show ?case
    using scan_digits_snoc [OF Suc.IH [of "n div b" "hex_digit (n mod b) # s"] v d] by simp
qed

lemma scan_fixed_fixed [simp]:
  assumes "n < b ^ w" and "0 < b" and "b \<le> 16"
  shows "scan_fixed b w (fixed b w n @ s) = Some (n, s)"
  using assms by (simp add: scan_fixed_def scan_digits_fixed)

lemma fixed_digits: "0 < b \<Longrightarrow> b \<le> 16 \<Longrightarrow> c \<in> set (fixed b w n) \<Longrightarrow> \<exists>d < b. c = hex_digit d"
  by (induction w arbitrary: n) (auto intro: exI [of _ "n mod b" for n])

lemma ord_hex_digit: "d < 16 \<Longrightarrow> ord (hex_digit d) = (if d < 10 then 48 + d else 87 + d)"
  by (auto simp: hex_digit_def digit_char_def of_char_of)

section \<open>Dates and times\<close>

definition is_leap :: "nat \<Rightarrow> bool" where
  "is_leap y \<longleftrightarrow> y mod 4 = 0 \<and> (y mod 100 \<noteq> 0 \<or> y mod 400 = 0)"

definition days_in_month :: "nat \<Rightarrow> nat \<Rightarrow> nat" where
  "days_in_month y m = (if m = 2 then (if is_leap y then 29 else 28)
     else if m \<in> {4, 6, 9, 11} then 30 else 31)"

definition date_ok :: "pydate \<Rightarrow> bool" where
  "date_ok d \<longleftrightarrow> 1 \<le> da_year d \<and> da_year d \<le> 9999 \<and> 1 \<le> da_month d \<and> da_month d \<le> 12 \<and>
     1 \<le> da_day d \<and> da_day d \<le> days_in_month (da_year d) (da_month d)"

definition MICROS :: nat where "MICROS = 1000000"
definition DAY_MICROS :: nat where "DAY_MICROS = 86400 * MICROS"

definition time_ok :: "pytime \<Rightarrow> bool" where
  "time_ok t \<longleftrightarrow> tm_hour t < 24 \<and> tm_minute t < 60 \<and> tm_second t < 60 \<and> tm_micro t < MICROS \<and>
     (case tm_offset t of None \<Rightarrow> True | Some u \<Rightarrow> nat \<bar>u\<bar> < DAY_MICROS)"

definition date_isoformat :: "pydate \<Rightarrow> string" where
  "date_isoformat d = fixed 10 4 (da_year d) @ ''-'' @ fixed 10 2 (da_month d) @ ''-''
     @ fixed 10 2 (da_day d)"

text \<open>\<open>HH:MM\<close>, seconds and microseconds where \<open>always\<close> or needed.\<close>

definition clock_text :: "bool \<Rightarrow> nat \<Rightarrow> string" where
  "clock_text always us =
     (let s = us div MICROS; f = us mod MICROS in
      fixed 10 2 (s div 3600) @ '':'' @ fixed 10 2 (s div 60 mod 60)
      @ (if always \<or> s mod 60 \<noteq> 0 \<or> f \<noteq> 0 then '':'' @ fixed 10 2 (s mod 60) else [])
      @ (if f \<noteq> 0 then ''.'' @ fixed 10 6 f else []))"

definition offset_text :: "int option \<Rightarrow> string" where
  "offset_text z = (case z of None \<Rightarrow> []
     | Some u \<Rightarrow> (if u < 0 then CHR ''-'' else CHR ''+'') # clock_text False (nat \<bar>u\<bar>))"

definition micros_of_day :: "pytime \<Rightarrow> nat" where
  "micros_of_day t = ((tm_hour t * 60 + tm_minute t) * 60 + tm_second t) * MICROS + tm_micro t"

definition time_of_micros :: "nat \<Rightarrow> int option \<Rightarrow> pytime" where
  "time_of_micros us z = (let s = us div MICROS in
     \<lparr>tm_hour = s div 3600, tm_minute = s div 60 mod 60, tm_second = s mod 60,
      tm_micro = us mod MICROS, tm_offset = z\<rparr>)"

definition time_isoformat :: "pytime \<Rightarrow> string" where
  "time_isoformat t = clock_text True (micros_of_day t) @ offset_text (tm_offset t)"

definition datetime_isoformat :: "pydate \<Rightarrow> pytime \<Rightarrow> string" where
  "datetime_isoformat d t = date_isoformat d @ ''T'' @ time_isoformat t"

subsection \<open>Parsing\<close>

definition scan_date :: "string \<Rightarrow> (pydate \<times> string) option" where
  "scan_date s =
     Option.bind (scan_fixed 10 4 s) (\<lambda>(y, s). Option.bind (scan_char (CHR ''-'') s) (\<lambda>s.
     Option.bind (scan_fixed 10 2 s) (\<lambda>(m, s). Option.bind (scan_char (CHR ''-'') s) (\<lambda>s.
     Option.bind (scan_fixed 10 2 s) (\<lambda>(d, s).
     let date = \<lparr>da_year = y, da_month = m, da_day = d\<rparr> in
     if date_ok date then Some (date, s) else None)))))"

definition scan_fraction :: "string \<Rightarrow> (nat \<times> string) option" where
  "scan_fraction s = (case scan_char (CHR ''.'') s of
     None \<Rightarrow> Some (0, s) | Some s \<Rightarrow> scan_fixed 10 6 s)"

definition scan_seconds :: "string \<Rightarrow> (nat \<times> string) option" where
  "scan_seconds s = (case scan_char (CHR '':'') s of
     None \<Rightarrow> Some (0, s)
   | Some s \<Rightarrow> Option.bind (scan_fixed 10 2 s) (\<lambda>(x, s).
       Option.bind (scan_fraction s) (\<lambda>(f, s).
       if x < 60 then Some (x * MICROS + f, s) else None)))"

definition scan_clock :: "string \<Rightarrow> (nat \<times> string) option" where
  "scan_clock s =
     Option.bind (scan_fixed 10 2 s) (\<lambda>(h, s). Option.bind (scan_char (CHR '':'') s) (\<lambda>s.
     Option.bind (scan_fixed 10 2 s) (\<lambda>(m, s). Option.bind (scan_seconds s) (\<lambda>(x, s).
     if h < 24 \<and> m < 60 then Some ((h * 60 + m) * 60 * MICROS + x, s) else None))))"

definition scan_offset :: "string \<Rightarrow> (int option \<times> string) option" where
  "scan_offset s = (case s of
     [] \<Rightarrow> Some (None, [])
   | c # s \<Rightarrow>
       if c = CHR ''+'' then map_option (\<lambda>(u, s). (Some (int u), s)) (scan_clock s)
       else if c = CHR ''-'' then map_option (\<lambda>(u, s). (Some (- int u), s)) (scan_clock s)
       else None)"

definition scan_time :: "string \<Rightarrow> (pytime \<times> string) option" where
  "scan_time s = Option.bind (scan_clock s) (\<lambda>(us, s). Option.bind (scan_offset s) (\<lambda>(z, s).
     Some (time_of_micros us z, s)))"

text \<open>The whole input must be used.\<close>

definition finished :: "('a \<times> string) option \<Rightarrow> 'a option" where
  "finished r = (case r of Some (x, []) \<Rightarrow> Some x | _ \<Rightarrow> None)"

definition date_fromisoformat :: "string \<Rightarrow> pydate option" where
  "date_fromisoformat s = finished (scan_date s)"

definition time_fromisoformat :: "string \<Rightarrow> pytime option" where
  "time_fromisoformat s = finished (scan_time s)"

definition datetime_fromisoformat :: "string \<Rightarrow> (pydate \<times> pytime) option" where
  "datetime_fromisoformat s = finished (Option.bind (scan_date s) (\<lambda>(d, s).
     Option.bind (scan_char (CHR ''T'') s) (\<lambda>s. Option.bind (scan_time s) (\<lambda>(t, s).
     Some ((d, t), s)))))"

subsection \<open>Round trips\<close>

lemma scan_date_isoformat: "date_ok d \<Longrightarrow> scan_date (date_isoformat d @ s) = Some (d, s)"
proof -
  assume ok: "date_ok d"
  then have "da_day d < 100" "da_month d < 100" "da_year d < 10 ^ 4"
    by (auto simp: date_ok_def days_in_month_def split: if_splits)
  with ok show ?thesis by (cases d) (simp add: scan_date_def date_isoformat_def Let_def)
qed

lemma date_fromisoformat_isoformat: "date_ok d \<Longrightarrow> date_fromisoformat (date_isoformat d) = Some d"
  using scan_date_isoformat [of d "[]"] by (simp add: date_fromisoformat_def finished_def)

text \<open>What may follow a clock text: nothing that would be taken for more of it.\<close>

definition clock_end :: "string \<Rightarrow> bool" where
  "clock_end s \<longleftrightarrow> scan_char (CHR '':'') s = None \<and> scan_char (CHR ''.'') s = None"

lemma scan_fraction_text:
  assumes "f < MICROS" and "clock_end s"
  shows "scan_fraction ((if f \<noteq> 0 then ''.'' @ fixed 10 6 f else []) @ s) = Some (f, s)"
  using assms by (auto simp: scan_fraction_def clock_end_def MICROS_def)

lemma scan_clock_text:
  assumes "us < DAY_MICROS" and "clock_end s"
  shows "scan_clock (clock_text always us @ s) = Some (us, s)"
proof -
  define sec f where "sec = us div MICROS" and "f = us mod MICROS"
  have us: "us = sec * MICROS + f" by (simp add: sec_def f_def)
  have f: "f < MICROS" by (simp add: f_def MICROS_def)
  have sec: "sec < 86400"
    using assms(1) by (simp add: sec_def DAY_MICROS_def MICROS_def less_mult_imp_div_less)
  let ?tail = "(if f \<noteq> 0 then ''.'' @ fixed 10 6 f else []) @ s"
  have seconds: "scan_seconds ((if always \<or> sec mod 60 \<noteq> 0 \<or> f \<noteq> 0
      then '':'' @ fixed 10 2 (sec mod 60) else []) @ ?tail) = Some (sec mod 60 * MICROS + f, s)"
  proof (cases "always \<or> sec mod 60 \<noteq> 0 \<or> f \<noteq> 0")
    case True
    then show ?thesis using scan_fraction_text [OF f assms(2)] by (simp add: scan_seconds_def)
  next
    case False
    with assms(2) show ?thesis by (simp add: scan_seconds_def clock_end_def)
  qed
  have hms: "(sec div 3600 * 60 + sec div 60 mod 60) * 60 + sec mod 60 = sec"
  proof -
    have "sec div 3600 = sec div 60 div 60" by (simp add: div_mult2_eq [symmetric])
    then show ?thesis by simp
  qed
  have hours: "sec div 3600 < 24" using sec by (simp add: less_mult_imp_div_less)
  have total: "(sec div 3600 * 60 + sec div 60 mod 60) * 60 * MICROS + (sec mod 60 * MICROS + f) = us"
    unfolding us by (subst (4) hms [symmetric]) (simp add: algebra_simps)
  have split: "clock_text always us @ s = fixed 10 2 (sec div 3600) @ '':'' @ fixed 10 2 (sec div 60 mod 60) @
      (if always \<or> sec mod 60 \<noteq> 0 \<or> f \<noteq> 0 then '':'' @ fixed 10 2 (sec mod 60) else []) @ ?tail"
    by (simp add: clock_text_def Let_def sec_def f_def)
  show ?thesis
    unfolding split scan_clock_def using hours seconds total
    by (simp del: mult.assoc add.assoc if_split_asm)
qed

lemma clock_end_offset_text: "clock_end (offset_text z)"
  by (auto simp: clock_end_def offset_text_def split: option.splits)

lemma scan_offset_text:
  assumes "case z of None \<Rightarrow> True | Some u \<Rightarrow> nat \<bar>u\<bar> < DAY_MICROS"
  shows "scan_offset (offset_text z) = Some (z, [])"
proof (cases z)
  case None
  then show ?thesis by (simp add: offset_text_def scan_offset_def)
next
  case (Some u)
  have "clock_end []" by (simp add: clock_end_def)
  from scan_clock_text [OF _ this, of "nat \<bar>u\<bar>" False] Some assms show ?thesis
    by (simp add: offset_text_def scan_offset_def)
qed

lemma micros_of_day_bound:
  assumes "time_ok t"
  shows "micros_of_day t < DAY_MICROS"
proof -
  have "(tm_hour t * 60 + tm_minute t) * 60 + tm_second t < 86400" and "tm_micro t < MICROS"
    using assms by (auto simp: time_ok_def)
  then have "Suc ((tm_hour t * 60 + tm_minute t) * 60 + tm_second t) * MICROS \<le> DAY_MICROS"
    unfolding DAY_MICROS_def by (intro mult_le_mono1) simp
  with \<open>tm_micro t < MICROS\<close> show ?thesis by (simp add: micros_of_day_def)
qed

lemma time_of_micros_of_day:
  assumes "time_ok t"
  shows "time_of_micros (micros_of_day t) (tm_offset t) = t"
proof -
  let ?s = "(tm_hour t * 60 + tm_minute t) * 60 + tm_second t"
  have b: "tm_hour t < 24" "tm_minute t < 60" "tm_second t < 60" "tm_micro t < MICROS"
    using assms by (auto simp: time_ok_def)
  then have s: "micros_of_day t div MICROS = ?s" "micros_of_day t mod MICROS = tm_micro t"
    by (simp_all add: micros_of_day_def)
  have base60: "(a * 60 + c) mod 60 = c \<and> (a * 60 + c) div 60 = a" if "c < 60" for a c :: nat
    using that by simp
  have "?s mod 60 = tm_second t" "?s div 60 = tm_hour t * 60 + tm_minute t"
    using base60 [OF b(3)] by blast+
  moreover have "?s div 3600 = ?s div 60 div 60" by (simp only: div_mult2_eq [symmetric]) simp
  ultimately show ?thesis using b by (simp add: time_of_micros_def Let_def s)
qed

lemma scan_time_isoformat: "time_ok t \<Longrightarrow> scan_time (time_isoformat t) = Some (t, [])"
  by (simp add: scan_time_def time_isoformat_def scan_clock_text micros_of_day_bound
      clock_end_offset_text scan_offset_text time_of_micros_of_day time_ok_def)

lemma time_fromisoformat_isoformat: "time_ok t \<Longrightarrow> time_fromisoformat (time_isoformat t) = Some t"
  by (simp add: time_fromisoformat_def finished_def scan_time_isoformat)

lemma datetime_fromisoformat_isoformat:
  "date_ok d \<Longrightarrow> time_ok t \<Longrightarrow> datetime_fromisoformat (datetime_isoformat d t) = Some (d, t)"
  by (simp add: datetime_fromisoformat_def datetime_isoformat_def finished_def
      scan_date_isoformat scan_time_isoformat)

section \<open>UUIDs\<close>

definition uuid_text :: "nat \<Rightarrow> string" where
  "uuid_text u = fixed 16 8 (u div 16 ^ 24) @ ''-'' @ fixed 16 4 (u div 16 ^ 20) @ ''-''
     @ fixed 16 4 (u div 16 ^ 16) @ ''-'' @ fixed 16 4 (u div 16 ^ 12) @ ''-'' @ fixed 16 12 u"

definition uuid_parse :: "string \<Rightarrow> nat option" where
  "uuid_parse s = finished (
     Option.bind (scan_fixed 16 8 s) (\<lambda>(a, s). Option.bind (scan_char (CHR ''-'') s) (\<lambda>s.
     Option.bind (scan_fixed 16 4 s) (\<lambda>(b, s). Option.bind (scan_char (CHR ''-'') s) (\<lambda>s.
     Option.bind (scan_fixed 16 4 s) (\<lambda>(c, s). Option.bind (scan_char (CHR ''-'') s) (\<lambda>s.
     Option.bind (scan_fixed 16 4 s) (\<lambda>(d, s). Option.bind (scan_char (CHR ''-'') s) (\<lambda>s.
     Option.bind (scan_fixed 16 12 s) (\<lambda>(e, s).
     Some ((((a * 16 ^ 4 + b) * 16 ^ 4 + c) * 16 ^ 4 + d) * 16 ^ 12 + e, s)))))))))))"

lemma scan_fixed_mod [simp]:
  "0 < b \<Longrightarrow> b \<le> 16 \<Longrightarrow> scan_fixed b w (fixed b w n @ s) = Some (n mod b ^ w, s)"
  by (simp add: scan_fixed_def scan_digits_fixed)

lemma uuid_parse_text:
  assumes "u < 2 ^ 128"
  shows "uuid_parse (uuid_text u) = Some u"
proof -
  have join: "u div (m * k) * k + u div m mod k = u div m" for m k :: nat
    by (metis div_mult2_eq mult.commute div_mult_mod_eq)
  have top: "u div 16 ^ 24 mod 16 ^ 8 = u div 16 ^ 24"
    using assms by (intro mod_less) (simp add: less_mult_imp_div_less)
  have parts: "(u div 16 ^ 24) * 16 ^ 4 + u div 16 ^ 20 mod 16 ^ 4 = u div 16 ^ 20"
    "(u div 16 ^ 20) * 16 ^ 4 + u div 16 ^ 16 mod 16 ^ 4 = u div 16 ^ 16"
    "(u div 16 ^ 16) * 16 ^ 4 + u div 16 ^ 12 mod 16 ^ 4 = u div 16 ^ 12"
    "(u div 16 ^ 12) * 16 ^ 12 + u mod 16 ^ 12 = u"
    using join [of "16 ^ 20" "16 ^ 4"] join [of "16 ^ 16" "16 ^ 4"] join [of "16 ^ 12" "16 ^ 4"]
      join [of 1 "16 ^ 12"] by simp_all
  have "uuid_parse (uuid_text u) = Some ((((u div 16 ^ 24 mod 16 ^ 8 * 16 ^ 4 + u div 16 ^ 20 mod 16 ^ 4)
      * 16 ^ 4 + u div 16 ^ 16 mod 16 ^ 4) * 16 ^ 4 + u div 16 ^ 12 mod 16 ^ 4) * 16 ^ 12 + u mod 16 ^ 12)"
    using scan_fixed_mod [of 16 12 u "[]"] by (simp add: uuid_parse_def uuid_text_def finished_def del: power_numeral)
  then show ?thesis unfolding top parts .
qed

section \<open>Decimals\<close>

definition signed_text :: "int \<Rightarrow> string" where
  "signed_text k = (if k < 0 then CHR ''-'' else CHR ''+'') # str_nat (nat \<bar>k\<bar>)"

text \<open>
  \<open>Decimal.__str__\<close>: the coefficient with a point where the exponent is not positive and the
  number not below \<open>1e-6\<close>, scientific notation otherwise.
\<close>

definition decimal_digits :: "string \<Rightarrow> int \<Rightarrow> string" where
  "decimal_digits ds dot =
     (if dot \<le> 0 then ''0.'' @ replicate (nat (- dot)) (CHR ''0'') @ ds
      else if int (length ds) \<le> dot then ds @ replicate (nat (dot - int (length ds))) (CHR ''0'')
      else take (nat dot) ds @ ''.'' @ drop (nat dot) ds)"

fun decimal_str :: "pydecimal \<Rightarrow> string" where
  "decimal_str (DecSpecial t) = t"
| "decimal_str (DecFinite neg c e) =
     (let ds = str_nat c; left = e + int (length ds);
          dot = (if e \<le> 0 \<and> left > -6 then left else 1) in
      (if neg then ''-'' else []) @ decimal_digits ds dot
      @ (if left = dot then [] else CHR ''E'' # signed_text (left - dot)))"

fun decimal_is_finite :: "pydecimal \<Rightarrow> bool" where
  "decimal_is_finite (DecFinite _ _ _) = True"
| "decimal_is_finite (DecSpecial _) = False"

definition scan_exponent :: "string \<Rightarrow> int option" where
  "scan_exponent s = (case s of
     [] \<Rightarrow> Some 0
   | c # s \<Rightarrow> if c \<noteq> CHR ''E'' then None else (case s of
       [] \<Rightarrow> None
     | g # ds \<Rightarrow>
         if g = CHR ''-'' then map_option uminus (int_of_digits ds)
         else if g = CHR ''+'' then int_of_digits ds
         else None))"

definition decimal_parse :: "string \<Rightarrow> pydecimal option" where
  "decimal_parse s =
     (let neg = prefix ''-'' s;
          s0 = (if neg then tl s else s);
          ip = takeWhile is_ascii_digit s0; s1 = dropWhile is_ascii_digit s0;
          dotted = prefix ''.'' s1;
          fp = (if dotted then takeWhile is_ascii_digit (tl s1) else []);
          s2 = (if dotted then dropWhile is_ascii_digit (tl s1) else s1) in
      if ip = [] then None
      else (case int_of_digits (ip @ fp) of None \<Rightarrow> None
        | Some c \<Rightarrow> map_option (\<lambda>x. DecFinite neg (nat c) (x - int (length fp))) (scan_exponent s2)))"

lemma span_digits:
  assumes "list_all is_ascii_digit ds" and "s = [] \<or> \<not> is_ascii_digit (hd s)"
  shows "takeWhile is_ascii_digit (ds @ s) = ds" and "dropWhile is_ascii_digit (ds @ s) = s"
proof -
  have "takeWhile is_ascii_digit s = []" "dropWhile is_ascii_digit s = s"
    using assms(2) by (cases s; simp)+
  with assms(1) show "takeWhile is_ascii_digit (ds @ s) = ds" "dropWhile is_ascii_digit (ds @ s) = s"
    by (simp_all add: list_all_iff takeWhile_append dropWhile_append)
qed

lemma not_ascii_digit [simp]:
  "\<not> is_ascii_digit (CHR ''.'')" "\<not> is_ascii_digit (CHR ''E'')" "\<not> is_ascii_digit (CHR ''-'')"
  "\<not> is_ascii_digit (CHR ''e'')" "\<not> is_ascii_digit (CHR ''}'')" "\<not> is_ascii_digit (CHR '','')"
  "is_ascii_digit (CHR ''0'')"
  by (simp_all add: is_ascii_digit_def)

lemma scan_exponent_text: "scan_exponent (CHR ''E'' # signed_text x) = Some x"
  by (auto simp: scan_exponent_def signed_text_def)

lemma decimal_parse_text:
  assumes "ip \<noteq> []" and "list_all is_ascii_digit ip" and "list_all is_ascii_digit fp"
    and "int_of_digits (ip @ fp) = Some (int c)"
  shows "decimal_parse ((if neg then ''-'' else []) @ ip @ (if fp = [] then [] else ''.'' @ fp)
      @ (if x = 0 then [] else CHR ''E'' # signed_text x)) = Some (DecFinite neg c (x - int (length fp)))"
proof -
  let ?e = "if x = 0 then [] else CHR ''E'' # signed_text x"
  let ?r = "(if fp = [] then [] else ''.'' @ fp) @ ?e"
  let ?s = "(if neg then ''-'' else []) @ ip @ ?r"
  obtain a ip' where ip: "ip = a # ip'" "is_ascii_digit a" using assms(1,2) by (cases ip) auto
  then have "a \<noteq> CHR ''-''" by auto
  then have neg: "prefix ''-'' ?s = neg" and s0: "(if prefix ''-'' ?s then tl ?s else ?s) = ip @ ?r"
    using ip(1) by auto
  have stop: "?r = [] \<or> \<not> is_ascii_digit (hd ?r)" by auto
  note int_part = span_digits [OF assms(2) stop]
  have e: "?e = [] \<or> \<not> is_ascii_digit (hd ?e)" by auto
  note frac = span_digits [OF assms(3) e]
  have dotted: "prefix ''.'' ?r = (fp \<noteq> [])" by auto
  have exp: "scan_exponent ?e = Some x" by (simp add: scan_exponent_text) (simp add: scan_exponent_def)
  have tl: "tl ?r = fp @ ?e" if "fp \<noteq> []" using that by simp
  have fp: "(if fp \<noteq> [] then takeWhile is_ascii_digit (tl ?r) else []) = fp"
    using tl frac(1) by (cases "fp = []") (simp, simp only: if_True not_False_eq_True simp_thms)
  have rest: "(if fp \<noteq> [] then dropWhile is_ascii_digit (tl ?r) else ?r) = ?e"
    using tl frac(2) by (cases "fp = []") (simp, simp only: if_True not_False_eq_True simp_thms)
  show ?thesis
    unfolding decimal_parse_def Let_def s0 int_part unfolding dotted fp rest neg exp
    using assms(1,4) by simp
qed

lemma int_of_digits_zeros:
  assumes "ds \<noteq> []"
  shows "int_of_digits (replicate k (CHR ''0'') @ ds) = int_of_digits ds"
proof -
  have "foldl (\<lambda>a c. 10 * a + (of_char c - 48)) (0::int) (replicate k (CHR ''0'')) = 0"
    by (induction k) simp_all
  with assms show ?thesis by (auto simp: int_of_digits_def list_all_iff)
qed

lemma decimal_parse_str: "decimal_parse (decimal_str (DecFinite neg c e)) = Some (DecFinite neg c e)"
proof -
  define ds where "ds = str_nat c"
  define left where "left = e + int (length ds)"
  define dot where "dot = (if e \<le> 0 \<and> left > -6 then left else 1)"
  have ds: "ds \<noteq> []" "list_all is_ascii_digit ds" "int_of_digits ds = Some (int c)"
    by (simp_all add: ds_def str_nat_digits)
  have str: "decimal_str (DecFinite neg c e) = (if neg then ''-'' else []) @ decimal_digits ds dot
      @ (if left - dot = 0 then [] else CHR ''E'' # signed_text (left - dot))"
    by (simp add: Let_def ds_def left_def dot_def)
  consider (low) "dot \<le> 0" | (high) "0 < dot" "int (length ds) \<le> dot"
    | (mid) "0 < dot" "dot < int (length ds)" by linarith
  then obtain ip fp where parts: "decimal_digits ds dot = ip @ (if fp = [] then [] else ''.'' @ fp)"
    "ip \<noteq> []" "list_all is_ascii_digit ip" "list_all is_ascii_digit fp"
    "int_of_digits (ip @ fp) = Some (int c)" "left - dot - int (length fp) = e"
  proof cases
    case low
    let ?fp = "replicate (nat (- dot)) (CHR ''0'') @ ds"
    have "dot = left" using low by (auto simp: dot_def split: if_splits)
    moreover have "int_of_digits (''0'' @ ?fp) = Some (int c)"
      using int_of_digits_zeros [OF ds(1), of "Suc (nat (- dot))"] ds(3) by simp
    moreover have "list_all is_ascii_digit ?fp" using ds(2) by (auto simp: list_all_iff)
    ultimately show thesis
      using that [of "''0''" ?fp] low ds(1) by (simp add: decimal_digits_def left_def)
  next
    case high
    have "dot = int (length ds)"
    proof (cases "e \<le> 0 \<and> left > -6")
      case True
      then have "dot = e + int (length ds)" by (simp add: dot_def left_def)
      with high True show ?thesis by linarith
    next
      case False
      then have "dot = 1" by (auto simp: dot_def)
      moreover have "0 < length ds" using ds(1) by simp
      ultimately show ?thesis using high by linarith
    qed
    with high ds that [of ds "[]"] show thesis by (auto simp: decimal_digits_def left_def)
  next
    case mid
    let ?ip = "take (nat dot) ds" and ?fp = "drop (nat dot) ds"
    have "?ip \<noteq> []" "?fp \<noteq> []" using mid ds(1) by auto
    moreover have "list_all is_ascii_digit ?ip" "list_all is_ascii_digit ?fp"
      using ds(2) by (auto simp: list_all_iff dest: in_set_takeD in_set_dropD)
    ultimately show thesis
      using that [of ?ip ?fp] mid ds(3) by (auto simp: decimal_digits_def left_def)
  qed
  show ?thesis
    unfolding str parts(1) using decimal_parse_text [OF parts(2-5), of neg "left - dot"] parts(6)
    by simp
qed

end
