(* ===== verification/Json.thy ===== *)
theory Json
  imports Pyval
begin

text \<open>
  The part of Python's \<open>json\<close> the tokens use: \<open>dumps\<close> with compact separators and
  ASCII escapes, and \<open>loads\<close> for the full JSON grammar with the non-finite constants
  turned down.  A float is kept as its numeral.  The lemmas are the round trip of a flat
  document and that the fuel of the scanner is enough.
\<close>

datatype json = JNull | JBool bool | JInt int | JFloat string | JStr string
  | JArr "json list" | JObj "(string \<times> json) list"

section \<open>Generating\<close>

abbreviation quote_char :: char where "quote_char \<equiv> CHR 0x22"
abbreviation backslash :: char where "backslash \<equiv> CHR 0x5C"

definition escape_char :: "char \<Rightarrow> string" where
  "escape_char c = (let n = ord c in
     if c = quote_char \<or> c = backslash then [backslash, c]
     else if n = 8 then [backslash, CHR ''b''] else if n = 9 then [backslash, CHR ''t'']
     else if n = 10 then [backslash, CHR ''n''] else if n = 12 then [backslash, CHR ''f'']
     else if n = 13 then [backslash, CHR ''r'']
     else if 32 \<le> n \<and> n \<le> 126 then [c]
     else [backslash, CHR ''u''] @ fixed 16 4 n)"

definition quoted :: "string \<Rightarrow> string" where
  "quoted s = [quote_char] @ concat (map escape_char s) @ [quote_char]"

fun dumps :: "json \<Rightarrow> string" where
  "dumps JNull = ''null''"
| "dumps (JBool b) = (if b then ''true'' else ''false'')"
| "dumps (JInt i) = str_int i"
| "dumps (JFloat t) = t"
| "dumps (JStr s) = quoted s"
| "dumps (JArr vs) = ''['' @ join '','' (map dumps vs) @ '']''"
| "dumps (JObj ms) = ''{'' @ join '','' (map (\<lambda>m. quoted (fst m) @ '':'' @ dumps (snd m)) ms) @ ''}''"

section \<open>Scanning\<close>

definition is_json_ws :: "char \<Rightarrow> bool" where
  "is_json_ws c \<longleftrightarrow> ord c \<in> {9, 10, 13, 32}"

abbreviation skip_ws :: "string \<Rightarrow> string" where
  "skip_ws \<equiv> dropWhile is_json_ws"

subsection \<open>Strings\<close>

definition lower_hex :: "char \<Rightarrow> char" where
  "lower_hex c = (if 65 \<le> ord c \<and> ord c \<le> 70 then char_of (ord c + 32) else c)"

text \<open>After a backslash.  Code points from 256 on are outside the model's strings.\<close>

definition scan_escape :: "string \<Rightarrow> (char \<times> string) option" where
  "scan_escape s = (case s of [] \<Rightarrow> None | e # r \<Rightarrow>
     if e = quote_char \<or> e = backslash \<or> e = CHR ''/'' then Some (e, r)
     else if e = CHR ''b'' then Some (char_of (8 :: nat), r)
     else if e = CHR ''t'' then Some (char_of (9 :: nat), r)
     else if e = CHR ''n'' then Some (char_of (10 :: nat), r)
     else if e = CHR ''f'' then Some (char_of (12 :: nat), r)
     else if e = CHR ''r'' then Some (char_of (13 :: nat), r)
     else if e = CHR ''u'' then (case scan_fixed 16 4 (map lower_hex (take 4 r)) of
         None \<Rightarrow> None
       | Some (n, _) \<Rightarrow> if n < 256 then Some (char_of n, drop 4 r) else None)
     else None)"

lemma scan_escape_length: "scan_escape s = Some (c, r) \<Longrightarrow> length r < length s"
  by (cases s) (auto simp: scan_escape_def split: if_splits option.splits)

text \<open>After the opening quote.\<close>

function scan_string :: "string \<Rightarrow> (string \<times> string) option" where
  "scan_string [] = None"
| "scan_string (c # s) =
     (if c = quote_char then Some ([], s)
      else if ord c < 32 then None
      else if c = backslash then (case scan_escape s of None \<Rightarrow> None
        | Some p \<Rightarrow> map_option (apfst ((#) (fst p))) (scan_string (snd p)))
      else map_option (apfst ((#) c)) (scan_string s))"
  by pat_completeness auto
termination
  by (relation "measure length") (auto dest: scan_escape_length)

lemma scan_string_length: "scan_string s = Some (v, r) \<Longrightarrow> length r < length s"
proof (induction s arbitrary: v r rule: scan_string.induct)
  case 1
  then show ?case by simp
next
  case (2 c s)
  show ?case
  proof (cases "c = backslash")
    case True
    with 2 show ?thesis
      by (auto split: if_splits option.splits dest!: scan_escape_length) fastforce
  next
    case False
    with 2 show ?thesis by (auto split: if_splits)
  qed
qed

subsection \<open>Numbers\<close>

definition scan_sign :: "string \<Rightarrow> string \<times> string" where
  "scan_sign s = (if prefix ''-'' s then (''-'', tl s) else ([], s))"

definition scan_int_part :: "string \<Rightarrow> string \<times> string" where
  "scan_int_part s = (if prefix ''0'' s then (''0'', tl s)
     else (takeWhile is_ascii_digit s, dropWhile is_ascii_digit s))"

definition scan_frac_part :: "string \<Rightarrow> string \<times> string" where
  "scan_frac_part s = (if prefix ''.'' s \<and> takeWhile is_ascii_digit (tl s) \<noteq> []
     then (''.'' @ takeWhile is_ascii_digit (tl s), dropWhile is_ascii_digit (tl s)) else ([], s))"

definition scan_exp_part :: "string \<Rightarrow> string \<times> string" where
  "scan_exp_part s = (case s of [] \<Rightarrow> ([], s) | e # r \<Rightarrow>
     if e = CHR ''e'' \<or> e = CHR ''E'' then
       let sg = (if prefix ''+'' r \<or> prefix ''-'' r then [hd r] else []);
           r' = (if prefix ''+'' r \<or> prefix ''-'' r then tl r else r);
           ds = takeWhile is_ascii_digit r' in
       if ds = [] then ([], s) else (e # sg @ ds, dropWhile is_ascii_digit r')
     else ([], s))"

definition int_value :: "string \<Rightarrow> string \<Rightarrow> int" where
  "int_value sg ds = (case int_of_digits ds of None \<Rightarrow> 0 | Some n \<Rightarrow> if sg = [] then n else - n)"

definition scan_number :: "string \<Rightarrow> (json \<times> string) option" where
  "scan_number s =
     (let (sg, s) = scan_sign s; (ip, s) = scan_int_part s; (fr, s) = scan_frac_part s;
          (ex, s) = scan_exp_part s in
      if ip = [] then None
      else Some (if fr = [] \<and> ex = [] then JInt (int_value sg ip) else JFloat (sg @ ip @ fr @ ex), s))"

text \<open>The numerals that stand for a finite float.\<close>

definition is_float_text :: "string \<Rightarrow> bool" where
  "is_float_text t \<longleftrightarrow> scan_number t = Some (JFloat t, [])"

subsection \<open>Values\<close>

definition scan_word :: "string \<Rightarrow> json \<Rightarrow> string \<Rightarrow> (json \<times> string) option" where
  "scan_word w v s = (if prefix w s then Some (v, drop (length w) s) else None)"

fun scan_value :: "nat \<Rightarrow> string \<Rightarrow> (json \<times> string) option"
  and scan_members :: "nat \<Rightarrow> string \<Rightarrow> ((string \<times> json) list \<times> string) option"
  and scan_items :: "nat \<Rightarrow> string \<Rightarrow> (json list \<times> string) option" where
  "scan_value 0 s = None"
| "scan_value (Suc n) s = (case s of [] \<Rightarrow> None | c # r \<Rightarrow>
     if c = quote_char then map_option (apfst JStr) (scan_string r)
     else if c = CHR ''{'' then
       (case scan_char (CHR ''}'') (skip_ws r) of
          Some r' \<Rightarrow> Some (JObj [], r')
        | None \<Rightarrow> map_option (apfst JObj) (scan_members n (skip_ws r)))
     else if c = CHR ''['' then
       (case scan_char (CHR '']'') (skip_ws r) of
          Some r' \<Rightarrow> Some (JArr [], r')
        | None \<Rightarrow> map_option (apfst JArr) (scan_items n (skip_ws r)))
     else if c = CHR ''n'' then scan_word ''null'' JNull s
     else if c = CHR ''t'' then scan_word ''true'' (JBool True) s
     else if c = CHR ''f'' then scan_word ''false'' (JBool False) s
     else scan_number s)"
| "scan_members 0 s = None"
| "scan_members (Suc n) s =
     Option.bind (scan_char quote_char s) (\<lambda>s. Option.bind (scan_string s) (\<lambda>(k, s).
     Option.bind (scan_char (CHR '':'') (skip_ws s)) (\<lambda>s.
     Option.bind (scan_value n (skip_ws s)) (\<lambda>(v, s).
     case scan_char (CHR ''}'') (skip_ws s) of
       Some s \<Rightarrow> Some ([(k, v)], s)
     | None \<Rightarrow> Option.bind (scan_char (CHR '','') (skip_ws s)) (\<lambda>s.
         map_option (apfst ((#) (k, v))) (scan_members n (skip_ws s)))))))"
| "scan_items 0 s = None"
| "scan_items (Suc n) s =
     Option.bind (scan_value n s) (\<lambda>(v, s).
     case scan_char (CHR '']'') (skip_ws s) of
       Some s \<Rightarrow> Some ([v], s)
     | None \<Rightarrow> Option.bind (scan_char (CHR '','') (skip_ws s)) (\<lambda>s.
         map_option (apfst ((#) v)) (scan_items n (skip_ws s))))"

definition loads :: "string \<Rightarrow> json option" where
  "loads s = (case scan_value (2 * length s + 2) (skip_ws s) of
     Some (v, r) \<Rightarrow> if skip_ws r = [] then Some v else None
   | None \<Rightarrow> None)"

text \<open>The dictionary of an object: the last of equal keys.\<close>

definition members :: "(string \<times> json) list \<Rightarrow> string \<Rightarrow> json option" where
  "members ms = map_of (rev ms)"

section \<open>Round trip\<close>

lemma lower_hex_hex_digit: "d < 16 \<Longrightarrow> lower_hex (hex_digit d) = hex_digit d"
  by (simp add: lower_hex_def ord_hex_digit)

lemma map_lower_hex_fixed: "map lower_hex (fixed 16 w n) = fixed 16 w n"
  by (induction w arbitrary: n) (simp_all add: lower_hex_hex_digit)

lemma scan_string_escape_char:
  "scan_string (escape_char c @ s) = map_option (apfst ((#) c)) (scan_string s)"
proof (cases "c = quote_char \<or> c = backslash \<or> ord c \<in> {8, 9, 10, 12, 13} \<or> 32 \<le> ord c \<and> ord c \<le> 126")
  case True
  have c: "char_of k = c" if "ord c = k" for k using that by auto
  from True show ?thesis by (auto simp: escape_char_def Let_def scan_escape_def c)
next
  case False
  have n: "ord c < 16 ^ 4" using byte_bound [of c] by (rule less_trans) simp
  have "scan_escape (CHR ''u'' # fixed 16 4 (ord c) @ s) = Some (c, s)"
    using scan_fixed_fixed [OF n, of "[]"] byte_bound [of c]
    by (simp add: scan_escape_def map_lower_hex_fixed)
  with False show ?thesis by (auto simp: escape_char_def Let_def)
qed

lemma scan_string_quoted: "scan_string (concat (map escape_char v) @ [quote_char] @ s) = Some (v, s)"
  by (induction v) (simp_all add: scan_string_escape_char)

text \<open>What may follow a number.\<close>

definition number_end :: "string \<Rightarrow> bool" where
  "number_end s \<longleftrightarrow> s = [] \<or> \<not> is_ascii_digit (hd s) \<and>
     hd s \<notin> {CHR ''.'', CHR ''e'', CHR ''E'', CHR ''+'', CHR ''-''}"

lemma span_append:
  assumes "s = [] \<or> \<not> P (hd s)"
  shows "takeWhile P (t @ s) = takeWhile P t" and "dropWhile P (t @ s) = dropWhile P t @ s"
proof -
  have "takeWhile P s = []" "dropWhile P s = s" using assms by (cases s; simp)+
  then show "takeWhile P (t @ s) = takeWhile P t" and "dropWhile P (t @ s) = dropWhile P t @ s"
    by (induction t) simp_all
qed

lemma number_end_digits:
  assumes "number_end s"
  shows "takeWhile is_ascii_digit (t @ s) = takeWhile is_ascii_digit t"
    and "dropWhile is_ascii_digit (t @ s) = dropWhile is_ascii_digit t @ s"
  using span_append [of s is_ascii_digit t] assms by (auto simp: number_end_def)

lemma scan_parts_append:
  assumes "number_end s"
  shows "scan_sign (t @ s) = (fst (scan_sign t), snd (scan_sign t) @ s)"
    and "scan_int_part (t @ s) = (fst (scan_int_part t), snd (scan_int_part t) @ s)"
    and "scan_frac_part (t @ s) = (fst (scan_frac_part t), snd (scan_frac_part t) @ s)"
    and "scan_exp_part (t @ s) = (fst (scan_exp_part t), snd (scan_exp_part t) @ s)"
proof -
  note digits = number_end_digits [OF assms]
  have head: "\<not> prefix [c] s" if "is_ascii_digit c \<or> c \<in> {CHR ''.'', CHR ''+'', CHR ''-''}" for c
    using assms that by (cases s) (auto simp: number_end_def)
  have stop: "\<not> prefix ''-'' s" "\<not> prefix ''+'' s" "\<not> prefix ''.'' s" "\<not> prefix ''0'' s"
    by (rule head, simp)+
  have stop_exp: "s = [] \<or> hd s \<noteq> CHR ''e'' \<and> hd s \<noteq> CHR ''E''"
    using assms by (auto simp: number_end_def)
  have none: "takeWhile is_ascii_digit s = []" "dropWhile is_ascii_digit s = s"
    using digits [of "[]"] by simp_all
  show "scan_sign (t @ s) = (fst (scan_sign t), snd (scan_sign t) @ s)"
    using stop(1) by (cases t) (simp_all add: scan_sign_def)
  show "scan_int_part (t @ s) = (fst (scan_int_part t), snd (scan_int_part t) @ s)"
    using stop(4) none digits [of t] by (cases t) (simp_all add: scan_int_part_def)
  show "scan_frac_part (t @ s) = (fst (scan_frac_part t), snd (scan_frac_part t) @ s)"
    using stop(3) digits [of "tl t"] by (cases t) (simp_all add: scan_frac_part_def)
  show "scan_exp_part (t @ s) = (fst (scan_exp_part t), snd (scan_exp_part t) @ s)"
  proof (cases t)
    case Nil
    with stop_exp show ?thesis by (auto simp: scan_exp_part_def split: list.splits)
  next
    case (Cons e r)
    show ?thesis
    proof (cases r)
      case Nil
      with Cons stop(1,2) none show ?thesis by (simp add: scan_exp_part_def Let_def)
    next
      case (Cons g r')
      then have "prefix [c] (r @ s) = prefix [c] r" for c by simp
      with Cons \<open>t = e # r\<close> digits [of r] digits [of r'] show ?thesis
        by (simp add: scan_exp_part_def Let_def)
    qed
  qed
qed

lemma scan_number_append:
  assumes "scan_number t = Some (v, [])" and "number_end s"
  shows "scan_number (t @ s) = Some (v, s)"
  using assms(1)
  by (auto simp: scan_number_def scan_parts_append [OF assms(2)] split: prod.splits if_splits)

lemma str_nat_head: "0 < n \<Longrightarrow> \<exists>d t. 0 < d \<and> d < 10 \<and> str_nat n = digit_char d # t"
proof (induction n rule: str_nat.induct)
  case (1 n)
  show ?case
  proof (cases "n < 10")
    case True
    with 1 show ?thesis by (subst str_nat.simps) auto
  next
    case False
    then have "0 < n div 10" by simp
    with 1 False obtain d t where "0 < d" "d < 10" "str_nat (n div 10) = digit_char d # t" by blast
    with False show ?thesis by (subst str_nat.simps) auto
  qed
qed

lemma str_nat_0: "str_nat 0 = ''0''"
  by code_simp

lemma digit_char_neq: "d < 10 \<Longrightarrow> 0 < d \<Longrightarrow> digit_char d \<noteq> CHR ''0''"
  "d < 10 \<Longrightarrow> \<not> is_ascii_digit c \<Longrightarrow> digit_char d \<noteq> c"
proof -
  show "d < 10 \<Longrightarrow> 0 < d \<Longrightarrow> digit_char d \<noteq> CHR ''0''"
    using of_digit_char [of d] by auto
qed auto

lemma scan_int_part_str_nat: "scan_int_part (str_nat n) = (str_nat n, [])"
proof (cases "n = 0")
  case True
  then show ?thesis by (simp add: str_nat_0 scan_int_part_def)
next
  case False
  then obtain d t where "0 < d" "d < 10" "str_nat n = digit_char d # t" using str_nat_head by blast
  moreover from this have "\<not> prefix ''0'' (str_nat n)" using digit_char_neq(1) [of d] by auto
  moreover have "\<forall>x \<in> set (str_nat n). is_ascii_digit x"
    using str_nat_digits [of n] by (simp add: list_all_iff)
  ultimately show ?thesis
    by (simp only: scan_int_part_def if_False takeWhile_eq_all_conv [THEN iffD2]
        dropWhile_eq_Nil_conv [THEN iffD2])
qed

lemma scan_sign_str_nat: "scan_sign (str_nat n) = ([], str_nat n)"
proof -
  have "\<not> prefix ''-'' (str_nat n)"
    using str_nat_digits [of n] by (cases "str_nat n") (auto simp: list_all_iff)
  then show ?thesis by (simp add: scan_sign_def)
qed

lemma scan_number_str_int: "scan_number (str_int i) = Some (JInt i, [])"
proof -
  have tail: "scan_frac_part [] = ([], [])" "scan_exp_part [] = ([], [])"
    by (simp_all add: scan_frac_part_def scan_exp_part_def)
  have minus: "scan_sign (CHR ''-'' # s) = (''-'', s)" for s by (simp add: scan_sign_def)
  show ?thesis
    by (simp add: scan_number_def str_int_def scan_int_part_str_nat scan_sign_str_nat tail minus
        int_value_def)
qed

text \<open>Scalars: their texts scan back before a closing brace or a comma.\<close>

fun json_scalar_ok :: "json \<Rightarrow> bool" where
  "json_scalar_ok (JFloat t) = is_float_text t"
| "json_scalar_ok (JArr _) = False"
| "json_scalar_ok (JObj _) = False"
| "json_scalar_ok _ = True"

lemma scan_number_head:
  assumes "scan_number t = Some r"
  shows "\<exists>c t'. t = c # t' \<and> (is_ascii_digit c \<or> c = CHR ''-'')"
proof (cases t)
  case Nil
  with assms show ?thesis
    by (simp add: scan_number_def scan_sign_def scan_int_part_def scan_frac_part_def scan_exp_part_def)
next
  case (Cons c t')
  show ?thesis
  proof (rule ccontr)
    assume "\<not> ?thesis"
    with Cons have "\<not> is_ascii_digit c" "c \<noteq> CHR ''-''" by auto
    then have "scan_sign t = ([], t)" "scan_int_part t = ([], t)"
      using Cons by (auto simp: scan_sign_def scan_int_part_def)
    with assms show False by (simp add: scan_number_def split: prod.splits)
  qed
qed

lemma scan_value_number:
  assumes "scan_number t = Some (v, [])" and "number_end s"
  shows "scan_value (Suc n) (t @ s) = Some (v, s)"
proof -
  from scan_number_head [OF assms(1)] obtain c t' where c: "t = c # t'" "is_ascii_digit c \<or> c = CHR ''-''"
    by blast
  then have "c \<noteq> quote_char" "c \<noteq> CHR ''{''" "c \<noteq> CHR ''[''" "c \<noteq> CHR ''n''" "c \<noteq> CHR ''t''" "c \<noteq> CHR ''f''"
    by (auto simp: is_ascii_digit_def)
  with c(1) scan_number_append [OF assms] show ?thesis by simp
qed

lemma scan_value_dumps:
  assumes "json_scalar_ok v" and "number_end s"
  shows "scan_value (Suc n) (dumps v @ s) = Some (v, s)"
  using assms(1)
proof (cases v)
  case (JInt i)
  with scan_value_number [OF scan_number_str_int assms(2)] show ?thesis by simp
next
  case (JFloat t)
  with assms(1) have "scan_number t = Some (JFloat t, [])" by (simp add: is_float_text_def)
  with JFloat scan_value_number [OF this assms(2)] show ?thesis by simp
next
  case (JStr x)
  with scan_string_quoted [of x s] show ?thesis by (simp add: quoted_def)
qed (auto simp: scan_word_def)

text \<open>A flat object with three members, the shape of the tokens' payloads.\<close>

lemma scan_string_key: "scan_string (concat (map escape_char k) @ quote_char # s) = Some (k, s)"
  using scan_string_quoted [of k s] by simp

lemma not_json_ws [simp]:
  "\<not> is_json_ws quote_char" "\<not> is_json_ws (CHR '':'')" "\<not> is_json_ws (CHR '','')"
  "\<not> is_json_ws (CHR ''}'')" "\<not> is_json_ws (CHR ''{'')"
  by (simp_all add: is_json_ws_def)

lemma skip_ws_dumps:
  assumes "json_scalar_ok v"
  shows "skip_ws (dumps v @ s) = dumps v @ s"
proof -
  have num: "skip_ws (t @ s) = t @ s" if t: "scan_number t = Some r" for t r
  proof -
    from scan_number_head [OF t] obtain c t' where "t = c # t'" "is_ascii_digit c \<or> c = CHR ''-''" by blast
    moreover from this have "\<not> is_json_ws c" by (auto simp: is_json_ws_def is_ascii_digit_def)
    ultimately show ?thesis by simp
  qed
  show ?thesis
    using assms num scan_number_str_int
    by (cases v) (auto simp: is_json_ws_def quoted_def is_float_text_def)
qed

lemma scan_member:
  assumes "json_scalar_ok v" and "s = [] \<or> hd s \<in> {CHR '','', CHR ''}''}"
  shows "scan_members (Suc (Suc n)) (quoted k @ CHR '':'' # dumps v @ s) =
    (case scan_char (CHR ''}'') (skip_ws s) of
       Some s \<Rightarrow> Some ([(k, v)], s)
     | None \<Rightarrow> Option.bind (scan_char (CHR '','') (skip_ws s)) (\<lambda>s.
         map_option (apfst ((#) (k, v))) (scan_members (Suc n) (skip_ws s))))"
proof -
  have "number_end s" using assms(2) by (auto simp: number_end_def)
  from scan_value_dumps [OF assms(1) this, of n] show ?thesis
    by (simp add: quoted_def scan_string_key skip_ws_dumps [OF assms(1)] del: scan_value.simps)
qed

lemma loads_dumps_flat:
  assumes "json_scalar_ok u" and "json_scalar_ok v" and "json_scalar_ok w"
  shows "loads (dumps (JObj [(j, u), (k, v), (l, w)])) = Some (JObj [(j, u), (k, v), (l, w)])"
proof -
  let ?w = "quoted l @ CHR '':'' # dumps w @ ''}''"
  let ?v = "quoted k @ CHR '':'' # dumps v @ CHR '','' # ?w"
  let ?u = "quoted j @ CHR '':'' # dumps u @ CHR '','' # ?v"
  have ws: "skip_ws (quoted x @ s) = quoted x @ s" for x s by (simp add: quoted_def)
  have m: "scan_members (Suc (Suc n)) ?w = Some ([(l, w)], [])" for n
    using scan_member [OF assms(3), of "''}''" n l] by simp
  have m: "scan_members (Suc (Suc (Suc n))) ?v = Some ([(k, v), (l, w)], [])" for n
    using scan_member [OF assms(2), of "CHR '','' # ?w" "Suc n" k] m [of n]
    by (simp add: ws del: scan_members.simps)
  have m: "scan_members (Suc (Suc (Suc (Suc n)))) ?u = Some ([(j, u), (k, v), (l, w)], [])" for n
    using scan_member [OF assms(1), of "CHR '','' # ?v" "Suc (Suc n)" j] m [of n]
    by (simp add: ws del: scan_members.simps)
  have whole: "dumps (JObj [(j, u), (k, v), (l, w)]) = CHR ''{'' # ?u" by simp
  obtain n where n: "2 * length (CHR ''{'' # ?u) + 2 = Suc (Suc (Suc (Suc (Suc n))))"
    by (simp add: quoted_def)
  have "scan_char (CHR ''}'') ?u = None" by (simp add: quoted_def)
  with m [of n] have "scan_value (2 * length (CHR ''{'' # ?u) + 2) (CHR ''{'' # ?u)
      = Some (JObj [(j, u), (k, v), (l, w)], [])"
    unfolding n by (simp add: ws del: scan_members.simps)
  then show ?thesis unfolding loads_def whole by simp
qed

lemma escape_char_ascii: "x \<in> set (escape_char c) \<Longrightarrow> ord x < 128"
  using fixed_digits [of 16 x 4 "ord c"]
  by (auto simp: escape_char_def Let_def ord_hex_digit split: if_splits)

end
