(* ===== verification/Numerals.thy ===== *)
theory Numerals
  imports Errors
begin

text \<open>
  Python's conversions between integers and their decimal texts, \<open>int(s)\<close> and \<open>str(n)\<close>: above
  4300 digits (\<open>sys.get_int_max_str_digits\<close>) both raise \<open>ValueError\<close>.
\<close>

definition INT_MAX_STR_DIGITS :: nat where "INT_MAX_STR_DIGITS = 4300"

definition digits_error :: exn where
  "digits_error = ValueError ''Exceeds the limit for integer string conversion''"

definition literal_error :: exn where
  "literal_error = ValueError ''invalid literal for int() with base 10''"

text \<open>\<open>int(s)\<close> of a text without sign, blanks and underscores.\<close>

definition parse_digits :: "string \<Rightarrow> int result" where
  "parse_digits s = (case int_of_digits s of
       None \<Rightarrow> Inl literal_error
     | Some n \<Rightarrow> if length s > INT_MAX_STR_DIGITS then Inl digits_error else Inr n)"

text \<open>\<open>int(s)\<close> of such a text after an optional minus sign.\<close>

definition parse_signed :: "string \<Rightarrow> int result" where
  "parse_signed s =
     (if prefix ''-'' s then rbind (parse_digits (tl s)) (\<lambda>n. Inr (- n)) else parse_digits s)"

text \<open>\<open>str(n)\<close>.\<close>

definition too_long :: "int \<Rightarrow> bool" where
  "too_long n \<longleftrightarrow> length (str_nat (nat \<bar>n\<bar>)) > INT_MAX_STR_DIGITS"

definition show_int :: "int \<Rightarrow> string result" where
  "show_int n = (if too_long n then Inl digits_error else Inr (str_int n))"

lemma parse_digits_Inr:
  "parse_digits s = Inr n \<longleftrightarrow> int_of_digits s = Some n \<and> length s \<le> INT_MAX_STR_DIGITS"
  by (auto simp: parse_digits_def split: option.splits)

lemma parse_digits_nonneg: "parse_digits s = Inr n \<Longrightarrow> 0 \<le> n"
  by (auto simp: parse_digits_Inr dest: int_of_digits_nonneg)

text \<open>A text of digits is turned down for its length only.\<close>

lemma parse_digits_Inl:
  assumes "list_all is_ascii_digit s" and "s \<noteq> []" and "parse_digits s = Inl e"
  shows "e = digits_error \<and> length s > INT_MAX_STR_DIGITS"
  using assms by (auto simp: parse_digits_def int_of_digits_def split: if_splits)

lemma show_int_Inl: "show_int n = Inl e \<longleftrightarrow> too_long n \<and> e = digits_error"
  by (auto simp: show_int_def)

lemma show_int_Inr: "show_int n = Inr s \<longleftrightarrow> \<not> too_long n \<and> s = str_int n"
  by (auto simp: show_int_def)

lemma not_domain_digits_error [simp]: "\<not> is_domain digits_error" "digits_error \<noteq> Domain d" "Domain d \<noteq> digits_error"
  by (simp_all add: digits_error_def)

end
