(* ===== verification/Tokens.thy ===== *)
theory Tokens
  imports Config Json Numerals
begin

text \<open>
  \<open>security/tokens.py\<close>: AES-GCM tokens for one server alias, and the registry of codecs.
  The cipher is a parameter (the \<open>cryptography\<close> package); the nonce drawn by
  \<open>os.urandom\<close> is an argument.  The lemmas are the round trip of a token and the shape of
  what the codec issues and accepts.
\<close>

section \<open>The cipher\<close>

text \<open>
  \<open>AESGCM(key).encrypt(nonce, data, aad)\<close> and \<open>decrypt\<close>, where \<open>None\<close> is
  \<open>InvalidTag\<close>; sizes of 2^31 bytes and more, which the package turns down, are not modelled.
\<close>

record aead =
  ae_encrypt :: "bytes \<Rightarrow> bytes \<Rightarrow> bytes \<Rightarrow> bytes \<Rightarrow> bytes"
  ae_decrypt :: "bytes \<Rightarrow> bytes \<Rightarrow> bytes \<Rightarrow> bytes \<Rightarrow> bytes option"

text \<open>
  What is relied on: decryption inverts encryption, the tag has 16 bytes, and what decrypts is
  the encryption of its plaintext (the counter mode and the tag are deterministic).
\<close>

definition aead_ok :: "aead \<Rightarrow> bool" where
  "aead_ok lib \<longleftrightarrow> (\<forall>k n p a. ae_decrypt lib k n (ae_encrypt lib k n p a) a = Some p \<and>
     length (ae_encrypt lib k n p a) = length p + 16) \<and>
     (\<forall>k n c p a. ae_decrypt lib k n c a = Some p \<longrightarrow> c = ae_encrypt lib k n p a)"

text \<open>
  And that a ciphertext opens only under the key and the associated data it was made with: opened
  under others, the tag does not verify (\<open>InvalidTag\<close>).  It is stated of the finitely many keys and
  associated data that are in use, as no cipher can have it of all.
\<close>

definition aead_separates :: "aead \<Rightarrow> (bytes \<times> bytes) set \<Rightarrow> bool" where
  "aead_separates lib used \<longleftrightarrow> (\<forall>(k, a) \<in> used. \<forall>(k', a') \<in> used. \<forall>n p p'.
     ae_decrypt lib k' n (ae_encrypt lib k n p a) a' = Some p' \<longrightarrow> k' = k \<and> a' = a)"

section \<open>Text encodings\<close>

text \<open>UTF-8 for the code points below 256; on decoding, others are outside the model.\<close>

definition utf8_encode :: "string \<Rightarrow> bytes" where
  "utf8_encode s = concat (map (\<lambda>c. if ord c < 128 then [c]
     else [char_of (192 + ord c div 64), char_of (128 + ord c mod 64)]) s)"

fun utf8_decode :: "bytes \<Rightarrow> string option" where
  "utf8_decode [] = Some []"
| "utf8_decode (b # bs) =
     (if ord b < 128 then map_option ((#) b) (utf8_decode bs)
      else if ord b \<in> {194, 195} then (case bs of
          c # cs \<Rightarrow> if 128 \<le> ord c \<and> ord c < 192
            then map_option ((#) (char_of ((ord b - 192) * 64 + (ord c - 128)))) (utf8_decode cs) else None
        | [] \<Rightarrow> None)
      else None)"

section \<open>Values and payloads\<close>

definition TOKEN_PREFIX :: string where "TOKEN_PREFIX = ''pii:v1:''"
definition MAX_TOKEN_CHARS :: nat where "MAX_TOKEN_CHARS = 4096"
definition NONCE_BYTES :: nat where "NONCE_BYTES = 12"
definition KEY_BYTES :: nat where "KEY_BYTES = 32"
definition PAYLOAD_VERSION :: int where "PAYLOAD_VERSION = 1"

definition invalid_token :: domain_error where
  "invalid_token = make_error INVALID_PII_TOKEN ''The PII token is invalid for this server.''
     (Some ''Use a token returned by execute_sql for the same server alias.'')"

definition unsupported_value :: domain_error where
  "unsupported_value = make_error QUERY_REJECTED
     ''Query rejected: a protected column contains a value that cannot be tokenized.''
     (Some ''Do not select this protected column.'')"

fun encode_float :: "pyfloat \<Rightarrow> json result" where
  "encode_float (FloatFinite t) = Inr (JFloat t)"
| "encode_float _ = Inl (ValueError ''non-finite float'')"

text \<open>
  \<open>_CODECS\<close>: the tag of an exact type and its JSON data, with what \<open>to_data\<close> or
  \<open>json.dumps\<close> raises for a value of the type.
\<close>

fun codec_entry :: "pyval \<Rightarrow> (string \<times> json result) option" where
  "codec_entry (PyStr s) = Some (''str'', Inr (JStr s))"
| "codec_entry (PyBool b) = Some (''bool'', Inr (JBool b))"
| "codec_entry (PyInt i) = Some (''int'',
     if too_long i then Inl digits_error else Inr (JInt i))"
| "codec_entry (PyFloat f) = Some (''float'', encode_float f)"
| "codec_entry (PyDecimal d) = Some (''decimal'', Inr (JStr (decimal_str d)))"
| "codec_entry (PyDate d) = Some (''date'', Inr (JStr (date_isoformat d)))"
| "codec_entry (PyDatetime d t) = Some (''datetime'', Inr (JStr (datetime_isoformat d t)))"
| "codec_entry (PyTime t) = Some (''time'', Inr (JStr (time_isoformat t)))"
| "codec_entry (PyUuid u) = Some (''uuid'', Inr (JStr (uuid_text u)))"
| "codec_entry (PyBytes b) = Some (''bytes'', Inr (JStr (b64encode b)))"
| "codec_entry _ = None"

definition bad_payload :: exn where "bad_payload = ValueError ''non-canonical payload''"

definition parsed :: "('a \<Rightarrow> pyval) \<Rightarrow> ('a \<Rightarrow> string) \<Rightarrow> 'a option \<Rightarrow> string \<Rightarrow> pyval result" where
  "parsed wrap print v data = (case v of None \<Rightarrow> Inl (ValueError ''wrong payload text'')
     | Some x \<Rightarrow> if print x = data then Inr (wrap x) else Inl bad_payload)"

definition finite_decimal :: "pydecimal \<Rightarrow> string \<Rightarrow> bool" where
  [simp]: "finite_decimal v data \<longleftrightarrow> decimal_is_finite v \<and> decimal_str v = data"

text \<open>\<open>_decode_value(tag, data)\<close>, with the rows of \<open>_DECODERS\<close>.\<close>

fun decode_value :: "string \<Rightarrow> json \<Rightarrow> pyval result" where
  "decode_value tag (JStr d) =
     (if tag = ''str'' then Inr (PyStr d)
      else if tag = ''decimal'' then
        (case decimal_parse d of None \<Rightarrow> Inl (ValueError ''InvalidOperation'')
         | Some v \<Rightarrow> if finite_decimal v d then Inr (PyDecimal v)
             else Inl bad_payload)
      else if tag = ''date'' then parsed PyDate date_isoformat (date_fromisoformat d) d
      else if tag = ''datetime'' then parsed (\<lambda>(d, t). PyDatetime d t) (\<lambda>(d, t). datetime_isoformat d t)
        (datetime_fromisoformat d) d
      else if tag = ''time'' then parsed PyTime time_isoformat (time_fromisoformat d) d
      else if tag = ''uuid'' then parsed PyUuid uuid_text (uuid_parse d) d
      else if tag = ''bytes'' then parsed PyBytes b64encode (b64decode_strict d) d
      else if tag \<in> {''bool'', ''int'', ''float''} then Inl (ValueError ''wrong payload type'')
      else Inl KeyError)"
| "decode_value tag (JBool b) = (if tag = ''bool'' then Inr (PyBool b) else Inl KeyError)"
| "decode_value tag (JInt i) = (if tag = ''int'' then Inr (PyInt i) else Inl KeyError)"
| "decode_value tag (JFloat t) = (if tag = ''float'' then Inr (PyFloat (FloatFinite t)) else Inl KeyError)"
| "decode_value tag _ = Inl KeyError"

section \<open>TokenCodec\<close>

record token_codec =
  tc_alias :: string
  tc_key :: bytes

definition make_codec :: "string \<Rightarrow> bytes \<Rightarrow> token_codec result" where
  "make_codec alias key =
     rbind (raise_if (length key \<noteq> KEY_BYTES) (ValueError ''PII key must be 32 bytes'')) (\<lambda>_.
     Inr \<lparr>tc_alias = alias, tc_key = key\<rparr>)"

definition tc_aad :: "token_codec \<Rightarrow> bytes" where
  "tc_aad c = utf8_encode (''pii:v1'' @ [char_of (0 :: nat)] @ tc_alias c)"

text \<open>What the cipher is called with, apart from nonce and data.\<close>

definition codec_context :: "token_codec \<Rightarrow> bytes \<times> bytes" where
  "codec_context c = (tc_key c, tc_aad c)"

definition payload_of :: "string \<Rightarrow> json \<Rightarrow> json" where
  "payload_of tag d = JObj [(''v'', JInt PAYLOAD_VERSION), (''t'', JStr tag), (''d'', d)]"

definition token_text :: "bytes \<Rightarrow> string" where
  "token_text sealed = TOKEN_PREFIX @ rstrip_eq (urlsafe_b64encode sealed)"

definition encrypt :: "aead \<Rightarrow> token_codec \<Rightarrow> bytes \<Rightarrow> pyval \<Rightarrow> string option result" where
  "encrypt lib c nonce value =
     (if value = PyNone then Inr None
      else (case codec_entry value of
        None \<Rightarrow> Inl (Domain unsupported_value)
      | Some (tag, data) \<Rightarrow>
          rbind (rcatch data (\<lambda>_. Inl (Domain unsupported_value))) (\<lambda>d.
          let sealed = nonce @ ae_encrypt lib (tc_key c) nonce (dumps (payload_of tag d)) (tc_aad c);
              token = token_text sealed in
          rbind (raise_if (length token > MAX_TOKEN_CHARS) (Domain unsupported_value)) (\<lambda>_.
          Inr (Some token)))))"

text \<open>\<open>_decrypt\<close>: any exception will do, as \<open>decrypt\<close> replaces it.\<close>

definition fail :: "'a result" where
  "fail = Inl (ValueError [])"

definition check_document :: "json \<Rightarrow> pyval result" where
  "check_document doc = (case doc of
       JObj ms \<Rightarrow>
         if fst ` set ms \<noteq> {''v'', ''t'', ''d''} then fail
         else if members ms ''v'' \<noteq> Some (JInt PAYLOAD_VERSION) then fail
         else (case (members ms ''t'', members ms ''d'') of
             (Some (JStr tag), Some d) \<Rightarrow> decode_value tag d
           | _ \<Rightarrow> fail)
     | _ \<Rightarrow> fail)"

definition decrypt_raw :: "aead \<Rightarrow> token_codec \<Rightarrow> string \<Rightarrow> pyval result" where
  "decrypt_raw lib c token =
     (if length token > MAX_TOKEN_CHARS \<or> \<not> startswith token TOKEN_PREFIX then fail
      else let body = drop (length TOKEN_PREFIX) token in
        if \<not> isascii body then fail
        else (case urlsafe_b64decode (body @ b64_pad body) of None \<Rightarrow> fail | Some raw \<Rightarrow>
          if rstrip_eq (urlsafe_b64encode raw) \<noteq> body then fail
          else if length raw < NONCE_BYTES + 16 then fail
          else (case ae_decrypt lib (tc_key c) (take NONCE_BYTES raw) (drop NONCE_BYTES raw) (tc_aad c) of
              None \<Rightarrow> fail
            | Some payload \<Rightarrow> (case Option.bind (utf8_decode payload) loads of
                  None \<Rightarrow> fail
                | Some doc \<Rightarrow> check_document doc))))"

definition decrypt :: "aead \<Rightarrow> token_codec \<Rightarrow> string \<Rightarrow> pyval result" where
  "decrypt lib c token = rcatch (decrypt_raw lib c token) (\<lambda>_. Inl (Domain invalid_token))"

section \<open>TokenKeyRegistry\<close>

type_synonym key_registry = "(string \<times> token_codec) list"

definition registry_entry :: "string \<times> 'p server_base \<Rightarrow> key_registry \<Rightarrow> key_registry result" where
  "registry_entry s codecs =
     rbind (key_bytes (snd s)) (\<lambda>k. case k of
       None \<Rightarrow> Inr codecs
     | Some key \<Rightarrow> rbind (make_codec (fst s) key) (\<lambda>c. Inr (AList.update (fst s) c codecs)))"

definition registry_from_config :: "app_config \<Rightarrow> key_registry result" where
  "registry_from_config c = rfold registry_entry (ac_servers c) []"

definition no_tokens_error :: domain_error where
  "no_tokens_error = make_error ACCESS_LEVEL_DENIED ''PII tokens are not available for this server.''
     (Some ''Use a server configured with access_level all_pii_safe.'')"

definition codec_for :: "key_registry \<Rightarrow> string \<Rightarrow> token_codec result" where
  "codec_for codecs alias = (case map_of codecs alias of
     None \<Rightarrow> Inl (Domain no_tokens_error) | Some c \<Rightarrow> Inr c)"

section \<open>Round trip\<close>

text \<open>The values of the program's types as Python has them.\<close>

fun pyval_ok :: "pyval \<Rightarrow> bool" where
  "pyval_ok (PyFloat (FloatFinite t)) = is_float_text t"
| "pyval_ok (PyDate d) = date_ok d"
| "pyval_ok (PyDatetime d t) = (date_ok d \<and> time_ok t)"
| "pyval_ok (PyTime t) = time_ok t"
| "pyval_ok (PyUuid u) = (u < 2 ^ 128)"
| "pyval_ok _ = True"

text \<open>A special decimal is sealed, but its token does not decrypt.\<close>

fun decryptable :: "pyval \<Rightarrow> bool" where
  "decryptable (PyDecimal d) = decimal_is_finite d"
| "decryptable _ = True"

lemma decode_codec_entry:
  assumes "codec_entry v = Some (tag, Inr d)" and "pyval_ok v" and "decryptable v"
  shows "decode_value tag d = Inr v" and "json_scalar_ok d"
proof -
  show "decode_value tag d = Inr v"
  proof (cases v)
    case (PyDecimal x)
    with assms show ?thesis
      by (cases x) (auto simp: decimal_parse_str simp del: decimal_str.simps)
  next
    case (PyFloat f)
    with assms show ?thesis by (cases f) auto
  qed (use assms in \<open>auto simp: parsed_def date_fromisoformat_isoformat time_fromisoformat_isoformat
      datetime_fromisoformat_isoformat uuid_parse_text b64decode_b64encode split: if_splits\<close>)
  show "json_scalar_ok d"
  proof (cases v)
    case (PyFloat f)
    with assms show ?thesis by (cases f) auto
  qed (use assms in \<open>auto split: if_splits\<close>)
qed

lemma utf8_decode_ascii: "(\<And>c. c \<in> set s \<Longrightarrow> ord c < 128) \<Longrightarrow> utf8_decode s = Some s"
  by (induction s) auto

lemma scan_number_ascii:
  assumes "is_float_text t" and "x \<in> set t"
  shows "ord x < 128"
proof -
  have digits: "ord y < 128" if "y \<in> set (takeWhile is_ascii_digit s)" for y s
    using set_takeWhileD [OF that] by (simp add: is_ascii_digit_def)
  have sign: "\<forall>y \<in> set (fst (scan_sign s)). ord y < 128" for s
    by (simp add: scan_sign_def)
  have int_part: "\<forall>y \<in> set (fst (scan_int_part s)). ord y < 128" for s
    using digits by (simp add: scan_int_part_def)
  have frac: "\<forall>y \<in> set (fst (scan_frac_part s)). ord y < 128" for s
    using digits by (simp add: scan_frac_part_def)
  have exp: "\<forall>y \<in> set (fst (scan_exp_part s)). ord y < 128" for s
  proof (cases s)
    case (Cons e r)
    have "ord (hd r) < 128" if "prefix ''+'' r \<or> prefix ''-'' r" using that by (cases r) auto
    with Cons digits show ?thesis by (auto simp: scan_exp_part_def Let_def)
  qed (simp add: scan_exp_part_def)
  from assms(1) obtain sg s1 ip s2 fr s3 ex s4 where
    "scan_sign t = (sg, s1)" "scan_int_part s1 = (ip, s2)" "scan_frac_part s2 = (fr, s3)"
    "scan_exp_part s3 = (ex, s4)" "t = sg @ ip @ fr @ ex"
    by (auto simp: is_float_text_def scan_number_def split: prod.splits if_splits)
  with sign [of t] int_part [of s1] frac [of s2] exp [of s3] assms(2) show ?thesis by auto
qed

lemma str_int_ascii:
  assumes "x \<in> set (str_int i)"
  shows "ord x < 128"
proof -
  have "is_ascii_digit x \<or> x = CHR ''-''"
    using assms str_nat_digits by (auto simp: str_int_def list_all_iff split: if_splits)
  then show ?thesis by (auto simp: is_ascii_digit_def)
qed

lemma dumps_ascii: "json_scalar_ok d \<Longrightarrow> x \<in> set (dumps d) \<Longrightarrow> ord x < 128"
  by (cases d) (auto simp: str_int_ascii scan_number_ascii quoted_def escape_char_ascii split: if_splits)

lemma payload_ascii:
  assumes "json_scalar_ok d"
  shows "utf8_decode (dumps (payload_of tag d)) = Some (dumps (payload_of tag d))"
proof (rule utf8_decode_ascii)
  fix x assume "x \<in> set (dumps (payload_of tag d))"
  then show "ord x < 128"
    using dumps_ascii [OF assms, of x] str_int_ascii
    by (auto simp: payload_of_def quoted_def escape_char_ascii)
qed

lemma payload_loads:
  assumes "json_scalar_ok d"
  shows "loads (dumps (payload_of tag d)) = Some (payload_of tag d)"
  using loads_dumps_flat [of "JInt PAYLOAD_VERSION" "JStr tag" d "''v''" "''t''" "''d''"] assms
  by (simp add: payload_of_def del: dumps.simps)

lemma utf8_payload:
  "json_scalar_ok d \<Longrightarrow> Option.bind (utf8_decode (dumps (payload_of tag d))) loads = Some (payload_of tag d)"
  by (simp add: payload_ascii payload_loads)

lemma check_payload: "check_document (payload_of tag d) = decode_value tag d"
  by (auto simp: check_document_def payload_of_def members_def)

lemma encrypt_Some:
  assumes "encrypt lib c nonce v = Inr (Some tok)"
  obtains tag d where "codec_entry v = Some (tag, Inr d)" "length tok \<le> MAX_TOKEN_CHARS"
    "tok = token_text (nonce @ ae_encrypt lib (tc_key c) nonce (dumps (payload_of tag d)) (tc_aad c))"
  using assms by (auto simp: encrypt_def result_simps Let_def not_less split: if_splits option.splits)

lemma decrypt_raw_token:
  assumes "aead_ok lib" and "length nonce = NONCE_BYTES"
    and "length (token_text (nonce @ ae_encrypt lib k nonce p a)) \<le> MAX_TOKEN_CHARS"
  shows "decrypt_raw lib c (token_text (nonce @ ae_encrypt lib k nonce p a)) =
    (case ae_decrypt lib (tc_key c) nonce (ae_encrypt lib k nonce p a) (tc_aad c) of
       None \<Rightarrow> fail
     | Some payload \<Rightarrow> (case Option.bind (utf8_decode payload) loads of
           None \<Rightarrow> fail | Some doc \<Rightarrow> check_document doc))"
proof -
  let ?raw = "nonce @ ae_encrypt lib k nonce p a"
  let ?body = "rstrip_eq (urlsafe_b64encode ?raw)"
  have body: "drop (length TOKEN_PREFIX) (token_text ?raw) = ?body" by (simp add: token_text_def)
  have "isascii (?body @ b64_pad ?body)" unfolding urlsafe_rstrip_pad
    by (simp add: urlsafe_b64encode_def isascii_b2a b64_char_facts)
  then have ascii: "isascii ?body" by simp
  have decode: "urlsafe_b64decode (?body @ b64_pad ?body) = Some ?raw"
    unfolding urlsafe_rstrip_pad by (rule urlsafe_b64decode_encode)
  have len: "length ?raw \<ge> NONCE_BYTES + 16" using assms(1,2) by (simp add: aead_ok_def)
  have "startswith (token_text ?raw) TOKEN_PREFIX" by (simp add: token_text_def)
  then show ?thesis
    using assms(2,3) ascii decode len body by (simp add: decrypt_raw_def Let_def)
qed

lemma decrypt_encrypt:
  assumes "aead_ok lib" and "length nonce = NONCE_BYTES" and "pyval_ok v" and "decryptable v"
    and "encrypt lib c nonce v = Inr (Some tok)"
  shows "decrypt lib c tok = Inr v"
proof -
  from assms(5) obtain tag d where d: "codec_entry v = Some (tag, Inr d)"
    and len: "length tok \<le> MAX_TOKEN_CHARS"
    and tok: "tok = token_text (nonce @ ae_encrypt lib (tc_key c) nonce (dumps (payload_of tag d)) (tc_aad c))"
    by (rule encrypt_Some)
  note v = decode_codec_entry [OF d assms(3,4)]
  have "ae_decrypt lib (tc_key c) nonce (ae_encrypt lib (tc_key c) nonce (dumps (payload_of tag d)) (tc_aad c))
      (tc_aad c) = Some (dumps (payload_of tag d))"
    using assms(1) by (simp add: aead_ok_def)
  with decrypt_raw_token [OF assms(1,2) len [unfolded tok], of c] utf8_payload [OF v(2), of tag] v(1)
  have "decrypt_raw lib c tok = Inr v" by (simp add: tok check_payload)
  then show ?thesis by (simp add: decrypt_def)
qed

section \<open>What is accepted\<close>

lemma decrypt_error: "decrypt lib c tok = Inl e \<Longrightarrow> e = Domain invalid_token"
  by (cases "decrypt_raw lib c tok") (auto simp: decrypt_def)

lemma decrypt_Inr: "decrypt lib c tok = Inr v \<longleftrightarrow> decrypt_raw lib c tok = Inr v"
  by (cases "decrypt_raw lib c tok") (auto simp: decrypt_def)

lemma fail_neq [simp]: "fail \<noteq> Inr v"
  by (simp add: fail_def)

text \<open>An accepted token is sealed under the codec's own key and alias, with nothing altered.\<close>

lemma decrypt_authentic:
  assumes "aead_ok lib" and "decrypt lib c tok = Inr v"
  obtains nonce payload doc where "length nonce = NONCE_BYTES"
    "tok = token_text (nonce @ ae_encrypt lib (tc_key c) nonce payload (tc_aad c))"
    "length tok \<le> MAX_TOKEN_CHARS" "utf8_decode payload = Some doc"
    "Option.bind (loads doc) (\<lambda>d. case check_document d of Inl _ \<Rightarrow> None | Inr x \<Rightarrow> Some x) = Some v"
proof -
  let ?body = "drop (length TOKEN_PREFIX) tok"
  from assms(2) obtain raw payload d where
    len: "length tok \<le> MAX_TOKEN_CHARS" and pre: "startswith tok TOKEN_PREFIX"
    and canon: "rstrip_eq (urlsafe_b64encode raw) = ?body" and raw: "NONCE_BYTES + 16 \<le> length raw"
    and open_: "ae_decrypt lib (tc_key c) (take NONCE_BYTES raw) (drop NONCE_BYTES raw) (tc_aad c)
      = Some payload"
    and doc: "Option.bind (utf8_decode payload) loads = Some d" "check_document d = Inr v"
    by (auto simp: decrypt_Inr decrypt_raw_def Let_def split: if_splits option.splits)
  have "drop NONCE_BYTES raw = ae_encrypt lib (tc_key c) (take NONCE_BYTES raw) payload (tc_aad c)"
    using assms(1) open_ by (simp add: aead_ok_def)
  moreover have "tok = token_text raw"
    using pre canon by (metis append_eq_conv_conj prefix_def token_text_def)
  ultimately have "tok = token_text (take NONCE_BYTES raw @
      ae_encrypt lib (tc_key c) (take NONCE_BYTES raw) payload (tc_aad c))"
    by (metis append_take_drop_id)
  moreover have "length (take NONCE_BYTES raw) = NONCE_BYTES" using raw by simp
  moreover obtain t where "utf8_decode payload = Some t" "loads t = Some d"
    using doc(1) by (auto simp: bind_eq_Some_conv)
  ultimately show thesis using that [of "take NONCE_BYTES raw" payload t] len doc(2) by simp
qed

text \<open>The associated data names the alias.\<close>

lemma utf8_round_trip: "utf8_decode (utf8_encode s) = Some s"
proof (induction s)
  case (Cons c s)
  show ?case
  proof (cases "ord c < 128")
    case False
    have "ord c < 256" by simp
    with False consider "ord c div 64 = 2" | "ord c div 64 = 3" by linarith
    then have "ord (char_of (192 + ord c div 64) :: char) \<in> {194, 195}"
      "ord (char_of (128 + ord c mod 64) :: char) = 128 + ord c mod 64"
      "(ord (char_of (192 + ord c div 64) :: char) - 192) * 64 + ord c mod 64 = ord c"
      using div_mult_mod_eq [of "ord c" 64] by (cases; simp)+
    with False Cons show ?thesis by (auto simp: utf8_encode_def)
  qed (use Cons in \<open>simp add: utf8_encode_def\<close>)
qed (simp add: utf8_encode_def)

lemma codec_context_inj: "codec_context c = codec_context c' \<Longrightarrow> c = c'"
  using utf8_round_trip [of "''pii:v1'' @ [char_of (0 :: nat)] @ tc_alias c"]
    utf8_round_trip [of "''pii:v1'' @ [char_of (0 :: nat)] @ tc_alias c'"]
  by (simp add: codec_context_def tc_aad_def)

text \<open>A token that another codec made is accepted by none.\<close>

lemma decrypt_foreign:
  assumes "aead_ok lib" and "aead_separates lib (codec_context ` C)" and "c \<in> C" and "c' \<in> C"
    and "length nonce = NONCE_BYTES" and "encrypt lib c' nonce v' = Inr (Some tok)" and "decrypt lib c tok = Inr v"
  shows "c' = c"
proof -
  from assms(6) obtain p where len: "length tok \<le> MAX_TOKEN_CHARS"
    and tok: "tok = token_text (nonce @ ae_encrypt lib (tc_key c') nonce p (tc_aad c'))"
    by (rule encrypt_Some)
  from assms(7) decrypt_raw_token [OF assms(1,5) len [unfolded tok], of c]
  obtain p' where "ae_decrypt lib (tc_key c) nonce (ae_encrypt lib (tc_key c') nonce p (tc_aad c')) (tc_aad c) = Some p'"
    by (auto simp: decrypt_Inr tok split: option.splits)
  with assms(2-4) have "codec_context c = codec_context c'"
    by (fastforce simp: aead_separates_def codec_context_def)
  then show ?thesis using codec_context_inj by metis
qed

section \<open>The registry\<close>

text \<open>A validated list of servers has keys for which every codec can be made.\<close>

lemma rfold_validate_alias_keys:
  "rfold validate_alias xs seen = Inr seen' \<Longrightarrow>
     \<forall>s \<in> set xs. \<exists>k. key_bytes (snd s) = Inr k \<and> (\<forall>b. k = Some b \<longrightarrow> length b = KEY_BYTES)"
proof (induction xs arbitrary: seen)
  case (Cons s xs)
  from Cons.prems obtain seen1 where one: "validate_alias s seen = Inr seen1"
    and rest: "rfold validate_alias xs seen1 = Inr seen'" by (auto simp: result_simps)
  from one obtain k where "key_bytes (snd s) = Inr k" "\<forall>b. k = Some b \<longrightarrow> length b = KEY_BYTES"
    by (auto simp: validate_alias_def result_simps KEY_BYTES_def split: option.splits)
  with Cons.IH [OF rest] show ?case by simp
qed simp

lemma rfold_registry_total:
  assumes "\<forall>s \<in> set xs. \<exists>k. key_bytes (snd s) = Inr k \<and> (\<forall>b. k = Some b \<longrightarrow> length b = KEY_BYTES)"
  shows "\<exists>cs'. rfold registry_entry xs cs = Inr cs'"
  using assms
proof (induction xs arbitrary: cs)
  case (Cons s xs)
  from Cons.prems obtain k where k: "key_bytes (snd s) = Inr k" "\<forall>b. k = Some b \<longrightarrow> length b = KEY_BYTES" by auto
  then obtain cs1 where "registry_entry s cs = Inr cs1"
    by (cases k) (simp_all add: registry_entry_def make_codec_def raise_if_def)
  with Cons show ?case by simp
qed simp

lemma registry_built:
  assumes "app_config_ok make_url cfg"
  shows "\<exists>codecs. registry_from_config cfg = Inr codecs"
proof -
  from assms obtain seen where "rfold validate_alias (ac_servers cfg) [] = Inr seen"
    by (auto simp: app_config_ok_def validate_aliases_and_keys_def rbind_eq_Inr_iff)
  from rfold_registry_total [OF rfold_validate_alias_keys [OF this]] show ?thesis
    by (simp add: registry_from_config_def)
qed

definition server_codec :: "string \<Rightarrow> 'p server_base \<Rightarrow> token_codec option" where
  "server_codec a s = (case key_bytes s of
     Inr (Some k) \<Rightarrow> Some \<lparr>tc_alias = a, tc_key = k\<rparr> | _ \<Rightarrow> None)"

lemma registry_entry_Inr:
  "registry_entry (a, s) cs = Inr cs' \<Longrightarrow> map_of cs' =
     (case server_codec a s of None \<Rightarrow> map_of cs | Some c \<Rightarrow> (map_of cs)(a \<mapsto> c))"
  by (auto simp: registry_entry_def make_codec_def server_codec_def result_simps update_conv'
      split: option.splits) (metis update_conv')

lemma rfold_registry_entry:
  assumes "rfold registry_entry xs cs = Inr cs'" and "distinct (map fst xs)"
  shows "map_of cs' a = (case map_of xs a of None \<Rightarrow> map_of cs a
    | Some s \<Rightarrow> (case server_codec a s of None \<Rightarrow> map_of cs a | Some c \<Rightarrow> Some c))"
  using assms
proof (induction xs arbitrary: cs)
  case Nil
  then show ?case by simp
next
  case (Cons x xs)
  obtain b s where x: "x = (b, s)" by (cases x)
  from Cons.prems(1) x obtain cs1 where one: "registry_entry (b, s) cs = Inr cs1"
    and rest: "rfold registry_entry xs cs1 = Inr cs'" by (auto simp: result_simps)
  have "map_of xs b = None" using Cons.prems(2) x by (simp add: map_of_eq_None_iff)
  with Cons.IH [OF rest] Cons.prems(2) x registry_entry_Inr [OF one] show ?case
    by (auto split: option.splits)
qed

lemma codec_for_config:
  assumes "registry_from_config cfg = Inr codecs" and "distinct (map fst (ac_servers cfg))"
    and "codec_for codecs a = Inr c"
  obtains s where "map_of (ac_servers cfg) a = Some s" "key_bytes s = Inr (Some (tc_key c))"
    "tc_alias c = a"
proof -
  have "map_of codecs a = Some c" using assms(3) by (auto simp: codec_for_def split: option.splits)
  with rfold_registry_entry [OF assms(1) [unfolded registry_from_config_def] assms(2), of a]
  obtain s where "map_of (ac_servers cfg) a = Some s" "server_codec a s = Some c"
    by (auto split: option.splits)
  with that show thesis by (auto simp: server_codec_def split: sum.splits option.splits)
qed

lemma codec_for_built:
  assumes "registry_from_config cfg = Inr codecs" and "distinct (map fst (ac_servers cfg))"
  shows "codec_for codecs a = (case Option.bind (map_of (ac_servers cfg) a) (server_codec a) of
    None \<Rightarrow> Inl (Domain no_tokens_error) | Some c \<Rightarrow> Inr c)"
  using rfold_registry_entry [OF assms(1) [unfolded registry_from_config_def] assms(2), of a]
  by (auto simp: codec_for_def split: option.splits)

text \<open>Distinct servers seal under distinct keys.\<close>

lemma server_keys_inj:
  assumes "distinct (server_keys xs)" and "map_of xs a = Some s" and "map_of xs b = Some t"
    and "key_bytes s = Inr (Some k)" and "key_bytes t = Inr (Some k)"
  shows "a = b"
  using assms
proof (induction xs)
  case Nil
  then show ?case by simp
next
  case (Cons x xs)
  have mem: "k \<in> set (server_keys xs)" if "map_of xs d = Some u" "key_bytes u = Inr (Some k)" for d u
    using map_of_SomeD [OF that(1)] that(2)
    by (force simp: server_keys_def List.map_filter_def)
  have dist: "distinct (server_keys xs)" and new: "key_bytes (snd x) = Inr (Some k) \<Longrightarrow> k \<notin> set (server_keys xs)"
    using Cons.prems(1) by (auto simp: server_keys_def List.map_filter_simps split: sum.splits option.splits)
  show ?case
    using Cons.prems Cons.IH [OF dist] mem new by (auto split: if_splits)
qed

section \<open>A concrete cipher\<close>

text \<open>
  A function with the relied-on laws, for evaluated examples: the data with 16 zero bytes.
\<close>

definition plain_aead :: aead where
  "plain_aead = \<lparr>ae_encrypt = (\<lambda>k n p a. p @ replicate 16 (char_of (0 :: nat))),
     ae_decrypt = (\<lambda>k n c a. if drop (length c - 16) c = replicate 16 (char_of (0 :: nat)) \<and> 16 \<le> length c
       then Some (take (length c - 16) c) else None)\<rparr>"

lemma aead_ok_plain: "aead_ok plain_aead"
  unfolding aead_ok_def plain_aead_def
  by (auto split: if_splits) (metis append_take_drop_id)

end
