(* ===== verification/Lru.thy ===== *)
theory Lru
  imports Prelude
begin

text \<open>
  Python's \<open>OrderedDict\<close> as an association list, oldest entry first, and the contract that the
  schema cache and the engine registry share: a bounded store that moves a used key to the end
  and drops keys from the front.
\<close>

section \<open>OrderedDict\<close>

type_synonym ('k, 'v) odict = "('k \<times> 'v) list"

definition od_delete :: "'k \<Rightarrow> ('k, 'v) odict \<Rightarrow> ('k, 'v) odict" where
  "od_delete k d = filter (\<lambda>e. fst e \<noteq> k) d"

text \<open>\<open>d.move_to_end(key)\<close> for a key of \<open>d\<close>.\<close>

definition od_move_to_end :: "'k \<Rightarrow> ('k, 'v) odict \<Rightarrow> ('k, 'v) odict" where
  "od_move_to_end k d = (case map_of d k of None \<Rightarrow> d | Some v \<Rightarrow> od_delete k d @ [(k, v)])"

abbreviation keys :: "('k, 'v) odict \<Rightarrow> 'k list" where
  "keys d \<equiv> map fst d"

lemma keys_od_delete [simp]: "keys (od_delete k d) = removeAll k (keys d)"
  by (induction d) (auto simp: od_delete_def)

lemma length_od_delete: "length (od_delete k d) = length (removeAll k (keys d))"
  by (metis keys_od_delete length_map)

lemma map_of_od_delete: "map_of (od_delete k d) k' = (if k' = k then None else map_of d k')"
  by (induction d) (auto simp: od_delete_def)

lemma keys_od_move_to_end:
  "k \<in> set (keys d) \<Longrightarrow> keys (od_move_to_end k d) = removeAll k (keys d) @ [k]"
  by (auto simp: od_move_to_end_def map_of_eq_None_iff split: option.splits)

lemma map_of_od_move_to_end [simp]: "map_of (od_move_to_end k d) = map_of d"
  by (rule ext) (auto simp: od_move_to_end_def map_add_def map_of_od_delete split: option.splits)

lemma od_delete_update: "od_delete k (AList.update k v d) = od_delete k d"
  by (induction d) (auto simp: od_delete_def)

lemma map_of_update_self [simp]: "map_of (AList.update k v d) k = Some v"
  by (simp add: update_conv')

lemma od_move_update:
  "od_move_to_end k (AList.update k v d) = od_delete k d @ [(k, v)]"
  by (simp add: od_move_to_end_def od_delete_update)

lemma removeAll_id: "k \<notin> set ks \<Longrightarrow> removeAll k ks = ks"
  by simp

section \<open>The contract of a bounded least-recently-used store\<close>

text \<open>
  \<open>stored s\<close> are the keys of \<open>s\<close>, least recently used first.  A step may first drop keys it
  finds expired (\<open>expired\<close>), and may use one key (\<open>used\<close>), which becomes the most recent;
  the oldest keys give way when the capacity is exceeded.
\<close>

definition lru_use :: "nat \<Rightarrow> 'k \<Rightarrow> 'k list \<Rightarrow> 'k list" where
  "lru_use c k ks = (let ks' = removeAll k ks @ [k] in drop (length ks' - c) ks')"

lemma drop_keeps_suffix:
  "length suf < c \<Longrightarrow> drop (length (pre @ k # suf) - c) (pre @ k # suf) =
     drop (length (pre @ k # suf) - c) pre @ k # suf"
  by simp

locale lru_store =
  fixes stored :: "'s \<Rightarrow> 'k list"
    and capacity :: "'s \<Rightarrow> nat"
    and step :: "'op \<Rightarrow> 's \<Rightarrow> 's"
    and expired :: "'op \<Rightarrow> 's \<Rightarrow> 'k set"
    and used :: "'op \<Rightarrow> 's \<Rightarrow> 'k option"
  assumes capacity_step: "capacity (step x s) = capacity s"
    and stored_step: "distinct (stored s) \<Longrightarrow> length (stored s) \<le> capacity s \<Longrightarrow> stored (step x s) =
      (let ks = filter (\<lambda>k. k \<notin> expired x s) (stored s) in
       case used x s of None \<Rightarrow> ks | Some k \<Rightarrow> lru_use (capacity s) k ks)"
begin

definition wf :: "'s \<Rightarrow> bool" where
  "wf s \<longleftrightarrow> distinct (stored s) \<and> length (stored s) \<le> capacity s"

fun run :: "'op list \<Rightarrow> 's \<Rightarrow> 's" where
  "run [] s = s"
| "run (x # xs) s = run xs (step x s)"

text \<open>The keys used and the keys found expired along a run.\<close>

fun used_in :: "'op list \<Rightarrow> 's \<Rightarrow> 'k set" where
  "used_in [] s = {}"
| "used_in (x # xs) s = set_option (used x s) \<union> used_in xs (step x s)"

fun expired_in :: "'op list \<Rightarrow> 's \<Rightarrow> 'k set" where
  "expired_in [] s = {}"
| "expired_in (x # xs) s = expired x s \<union> expired_in xs (step x s)"

lemma wf_stored_step:
  "wf s \<Longrightarrow> stored (step x s) = (let ks = filter (\<lambda>k. k \<notin> expired x s) (stored s) in
     case used x s of None \<Rightarrow> ks | Some k \<Rightarrow> lru_use (capacity s) k ks)"
  by (simp add: wf_def stored_step)

lemma wf_step: "wf s \<Longrightarrow> wf (step x s)"
proof -
  assume wf: "wf s"
  let ?ks = "filter (\<lambda>k. k \<notin> expired x s) (stored s)"
  have ks: "distinct ?ks" "length ?ks \<le> capacity s"
    using wf by (auto simp: wf_def intro: order_trans [OF length_filter_le])
  show ?thesis
  proof (cases "used x s")
    case None
    with ks wf show ?thesis by (simp add: wf_def wf_stored_step [OF wf] capacity_step)
  next
    case (Some k)
    have "distinct (removeAll k ?ks @ [k])" using ks by (simp add: distinct_removeAll)
    then have "distinct (lru_use (capacity s) k ?ks)"
      by (simp only: lru_use_def Let_def distinct_drop)
    moreover have "length (lru_use (capacity s) k ?ks) \<le> capacity s"
      by (simp add: lru_use_def Let_def)
    ultimately show ?thesis using Some by (simp add: wf_def wf_stored_step [OF wf] capacity_step)
  qed
qed

lemma wf_run: "wf s \<Longrightarrow> wf (run xs s)"
  by (induction xs arbitrary: s) (simp_all add: wf_step)

lemma capacity_run: "capacity (run xs s) = capacity s"
  by (induction xs arbitrary: s) (simp_all add: capacity_step)

lemma used_is_most_recent:
  assumes "wf s" and "used x s = Some k" and "0 < capacity s"
  shows "stored (step x s) \<noteq> []" and "last (stored (step x s)) = k"
  using assms by (simp_all add: wf_stored_step lru_use_def Let_def)

text \<open>
  The keys after \<open>k\<close> in the recency order; a step adds at most the key it uses to them, so
  \<open>k\<close> stays as long as fewer other keys than the capacity are used.
\<close>

definition recent :: "'k \<Rightarrow> 'k set \<Rightarrow> 's \<Rightarrow> bool" where
  "recent k U s \<longleftrightarrow> (\<exists>pre suf. stored s = pre @ k # suf \<and> set suf \<subseteq> U)"

lemma recent_step:
  assumes wf: "wf s" and rec: "recent k U s" and notexp: "k \<notin> expired x s"
    and fin: "finite U" and kU: "k \<notin> U" and small: "card (U \<union> (set_option (used x s) - {k})) < capacity s"
  shows "recent k (U \<union> (set_option (used x s) - {k})) (step x s)"
proof -
  obtain pre suf where st: "stored s = pre @ k # suf" and suf: "set suf \<subseteq> U"
    using rec by (auto simp: recent_def)
  let ?live = "filter (\<lambda>k. k \<notin> expired x s)"
  have live: "?live (stored s) = ?live pre @ k # ?live suf" using st notexp by simp
  show ?thesis
  proof (cases "used x s")
    case None
    then show ?thesis using live suf by (auto simp: recent_def wf_stored_step [OF wf] intro!: exI)
  next
    case (Some j)
    have dist: "distinct (?live (stored s))" using wf by (simp add: wf_def)
    have "0 < capacity s" using small by simp
    show ?thesis
    proof (cases "j = k")
      case True
      have "stored (step x s) = drop (length (removeAll k (?live (stored s)) @ [k]) - capacity s)
          (removeAll k (?live (stored s)) @ [k])"
        using Some True by (simp add: wf_stored_step [OF wf] lru_use_def Let_def)
      also have "\<dots> = drop (length (removeAll k (?live (stored s)) @ [k]) - capacity s)
          (removeAll k (?live (stored s))) @ [k]"
        using \<open>0 < capacity s\<close> by simp
      finally show ?thesis unfolding recent_def by (metis empty_set empty_subsetI)
    next
      case False
      let ?pre = "removeAll j (?live pre)" and ?suf = "removeAll j (?live suf) @ [j]"
      have upd: "removeAll j (?live (stored s)) @ [j] = ?pre @ k # ?suf"
        using live False by simp
      have dsuf: "distinct ?suf" using dist live by (simp add: distinct_removeAll)
      have sub: "set ?suf \<subseteq> U \<union> (set_option (used x s) - {k})"
        using suf Some False by auto
      have "length ?suf = card (set ?suf)" using dsuf by (metis distinct_card)
      also have "\<dots> \<le> card (U \<union> (set_option (used x s) - {k}))"
        using sub fin Some by (intro card_mono) auto
      finally have len: "length ?suf < capacity s" using small by simp
      have "stored (step x s) = drop (length (?pre @ k # ?suf) - capacity s) (?pre @ k # ?suf)"
        by (simp only: wf_stored_step [OF wf] lru_use_def Let_def Some option.case upd)
      also have "\<dots> = drop (length (?pre @ k # ?suf) - capacity s) ?pre @ k # ?suf"
        using len by (rule drop_keeps_suffix)
      finally show ?thesis using sub unfolding recent_def by blast
    qed
  qed
qed

lemma recent_run:
  assumes "wf s" and "recent k U s" and "k \<notin> expired_in xs s" and "finite U" and "k \<notin> U"
    and "card (U \<union> (used_in xs s - {k})) < capacity s"
  shows "k \<in> set (stored (run xs s))"
  using assms
proof (induction xs arbitrary: s U)
  case Nil
  then show ?case by (auto simp: recent_def)
next
  case (Cons x xs)
  let ?U = "U \<union> (set_option (used x s) - {k})"
  have fin: "finite (used_in ys t)" for ys t
    by (induction ys arbitrary: t) auto
  have eq: "?U \<union> (used_in xs (step x s) - {k}) = U \<union> (used_in (x # xs) s - {k})" by auto
  have "card ?U \<le> card (?U \<union> (used_in xs (step x s) - {k}))"
    using Cons.prems(4) fin by (intro card_mono) auto
  then have "card ?U < capacity s" using Cons.prems(6) eq by simp
  then have rec: "recent k ?U (step x s)"
    using Cons.prems by (intro recent_step) auto
  show ?case
    unfolding run.simps
    by (rule Cons.IH [OF wf_step [OF Cons.prems(1)] rec])
      (use Cons.prems eq in \<open>auto simp: capacity_step\<close>)
qed

text \<open>
  A used key is still stored after a run that uses fewer other keys than the capacity and
  does not find it expired.
\<close>

lemma retained:
  assumes "wf s" and "used x s = Some k" and "k \<notin> expired_in xs (step x s)"
    and "card (used_in xs (step x s) - {k}) < capacity s"
  shows "k \<in> set (stored (run (x # xs) s))"
proof -
  have "0 < capacity s" using assms(4) by simp
  then have "stored (step x s) \<noteq> []" "last (stored (step x s)) = k"
    using used_is_most_recent [OF assms(1,2)] by blast+
  then have "recent k {} (step x s)"
    unfolding recent_def by (metis append_butlast_last_id empty_set subset_refl)
  then have "k \<in> set (stored (run xs (step x s)))"
    using assms by (intro recent_run [where U = "{}"]) (simp_all add: wf_step capacity_step)
  then show ?thesis by simp
qed

end

end
