(* ===== verification/Reflection.thy ===== *)
theory Reflection
  imports Errors
begin

text \<open>
  \<open>models.py\<close> (the metadata models) and \<open>db/reflection.py\<close>: which tables of a database are
  visible, and the normalised definition of one table.  The SQLAlchemy Inspector of a
  connection is a parameter: a record of its answers.
\<close>

section \<open>Metadata models\<close>

record table_summary =
  tb_schema :: "string option"
  tb_name :: string

datatype flag_or_text = Flag bool | FlagText string

text \<open>A value of an untyped dictionary entry: a dictionary, or anything else.\<close>

datatype info_value = InfoDict "(string \<times> string) list" | InfoOther string

record column_definition =
  cd_name :: string
  cd_native_type :: string
  cd_nullable :: bool
  cd_length :: "int option"
  cd_precision :: "int option"
  cd_scale :: "int option"
  cd_autoincrement :: "flag_or_text option"
  cd_identity :: "(string \<times> string) list option"
  cd_computed :: "(string \<times> string) list option"
  cd_default :: "string option"

record primary_key_definition =
  pk_name :: "string option"
  pk_columns :: "string list"

record foreign_key_definition =
  fk_name :: "string option"
  fk_columns :: "string list"
  fk_referred_schema :: "string option"
  fk_referred_table :: string
  fk_referred_columns :: "string list"
  fk_options :: "(string \<times> string) list"

record unique_definition =
  uq_name :: "string option"
  uq_columns :: "string list"

record index_definition =
  ix_name :: "string option"
  ix_columns :: "string option list"
  ix_unique :: bool
  ix_expressions :: "string list"

record table_definition =
  td_schema :: "string option"
  td_name :: string
  td_columns :: "column_definition list"
  td_primary_key :: primary_key_definition
  td_foreign_keys :: "foreign_key_definition list"
  td_unique_constraints :: "unique_definition list"
  td_indexes :: "index_definition list"

section \<open>The Inspector\<close>

text \<open>The entries of the Inspector's dictionaries; \<open>None\<close> is an absent key or a null.\<close>

record type_info =
  ty_compiled :: string
  ty_length :: "int option"
  ty_precision :: "int option"
  ty_scale :: "int option"

record column_info =
  ci_name :: string
  ci_type :: type_info
  ci_nullable :: "bool option"
  ci_autoincrement :: "flag_or_text option"
  ci_identity :: "info_value option"
  ci_computed :: "info_value option"
  ci_default :: "string option"

record key_info =
  ki_name :: "string option"
  ki_columns :: "string list option"

record foreign_key_info = key_info +
  ki_referred_schema :: "string option"
  ki_referred_table :: string
  ki_referred_columns :: "string list option"
  ki_options :: "(string \<times> string) list option"

record index_info =
  ii_name :: "string option"
  ii_columns :: "string option list option"
  ii_unique :: "bool option"
  ii_expressions :: "string list option"

record inspector =
  in_dialect_name :: string
  in_schema_names :: "string list result"
  in_table_names :: "string option \<Rightarrow> string list result"
  in_columns :: "string option \<Rightarrow> string \<Rightarrow> column_info list result"
  in_pk :: "string option \<Rightarrow> string \<Rightarrow> key_info result"
  in_fks :: "string option \<Rightarrow> string \<Rightarrow> foreign_key_info list result"
  in_indexes :: "string option \<Rightarrow> string \<Rightarrow> index_info list result"
  in_uniques :: "string option \<Rightarrow> string \<Rightarrow> key_info list result"

section \<open>Listing tables\<close>

definition SQLSERVER_SYSTEM_SCHEMAS :: "string list" where
  "SQLSERVER_SYSTEM_SCHEMAS =
     [''db_accessadmin'', ''db_backupoperator'', ''db_datareader'', ''db_datawriter'',
      ''db_ddladmin'', ''db_denydatareader'', ''db_denydatawriter'', ''db_owner'',
      ''db_securityadmin'', ''guest'', ''information_schema'', ''sys'']"

definition list_tables :: "inspector \<Rightarrow> table_summary list result" where
  "list_tables ins =
     (if in_dialect_name ins = ''mysql'' then
        rbind (in_table_names ins None) (\<lambda>names.
        Inr (map (\<lambda>n. \<lparr>tb_schema = None, tb_name = n\<rparr>) names))
      else
        rbind (in_schema_names ins) (\<lambda>schemas.
        rfold (\<lambda>schema tables.
            if casefold schema \<in> set SQLSERVER_SYSTEM_SCHEMAS then Inr tables
            else rbind (in_table_names ins (Some schema)) (\<lambda>names.
              Inr (tables @ map (\<lambda>n. \<lparr>tb_schema = Some schema, tb_name = n\<rparr>) names)))
          schemas []))"

section \<open>One table's definition\<close>

fun dict_or_none :: "info_value option \<Rightarrow> (string \<times> string) list option" where
  "dict_or_none (Some (InfoDict d)) = Some d"
| "dict_or_none _ = None"

definition normalize_column :: "column_info \<Rightarrow> column_definition" where
  "normalize_column c = \<lparr>cd_name = ci_name c, cd_native_type = ty_compiled (ci_type c),
     cd_nullable = (case ci_nullable c of None \<Rightarrow> True | Some b \<Rightarrow> b),
     cd_length = ty_length (ci_type c), cd_precision = ty_precision (ci_type c),
     cd_scale = ty_scale (ci_type c), cd_autoincrement = ci_autoincrement c,
     cd_identity = dict_or_none (ci_identity c), cd_computed = dict_or_none (ci_computed c),
     cd_default = ci_default c\<rparr>"

text \<open>\<open>value or []\<close>.\<close>

definition or_empty :: "'a list option \<Rightarrow> 'a list" where
  "or_empty v = (case v of None \<Rightarrow> [] | Some xs \<Rightarrow> xs)"

text \<open>
  The unique constraints, or, where the dialect does not implement them, the unique indexes.
  \<open>str(name)\<close> of an index column that is an expression (a null) is the text \<open>None\<close>.
\<close>

definition unique_constraints :: "inspector \<Rightarrow> string option \<Rightarrow> string \<Rightarrow> index_info list
    \<Rightarrow> unique_definition list result" where
  "unique_constraints ins schema table indexes = (case in_uniques ins schema table of
       Inr items \<Rightarrow> Inr (map (\<lambda>k. \<lparr>uq_name = ki_name k, uq_columns = or_empty (ki_columns k)\<rparr>) items)
     | Inl e \<Rightarrow>
         if e = NotImplementedError then
           Inr (map (\<lambda>i. \<lparr>uq_name = ii_name i, uq_columns =
               map (\<lambda>c. case c of None \<Rightarrow> ''None'' | Some s \<Rightarrow> s) (or_empty (ii_columns i))\<rparr>)
             (filter (\<lambda>i. ii_unique i = Some True) indexes))
         else Inl e)"

definition get_table_definition :: "inspector \<Rightarrow> string option \<Rightarrow> string
    \<Rightarrow> table_definition result" where
  "get_table_definition ins schema table =
     rbind (in_pk ins schema table) (\<lambda>pk.
     rbind (in_fks ins schema table) (\<lambda>fks.
     rbind (in_indexes ins schema table) (\<lambda>indexes.
     rbind (unique_constraints ins schema table indexes) (\<lambda>uniques.
     rbind (in_columns ins schema table) (\<lambda>columns.
     Inr \<lparr>td_schema = schema, td_name = table, td_columns = map normalize_column columns,
       td_primary_key = \<lparr>pk_name = ki_name pk, pk_columns = or_empty (ki_columns pk)\<rparr>,
       td_foreign_keys = map (\<lambda>k. \<lparr>fk_name = ki_name k, fk_columns = or_empty (ki_columns k),
         fk_referred_schema = ki_referred_schema k, fk_referred_table = ki_referred_table k,
         fk_referred_columns = or_empty (ki_referred_columns k),
         fk_options = or_empty (ki_options k)\<rparr>) fks,
       td_unique_constraints = uniques,
       td_indexes = map (\<lambda>i. \<lparr>ix_name = ii_name i, ix_columns = or_empty (ii_columns i),
         ix_unique = (ii_unique i = Some True), ix_expressions = or_empty (ii_expressions i)\<rparr>)
         indexes\<rparr>)))))"

section \<open>Which tables are listed\<close>

lemma rfold_list_tables:
  assumes "rfold (\<lambda>schema tables.
      if casefold schema \<in> set SQLSERVER_SYSTEM_SCHEMAS then Inr tables
      else rbind (in_table_names ins (Some schema)) (\<lambda>names.
        Inr (tables @ map (\<lambda>n. \<lparr>tb_schema = Some schema, tb_name = n\<rparr>) names))) schemas acc = Inr ts"
  shows "t \<in> set ts \<longleftrightarrow> t \<in> set acc \<or> (\<exists>schema names. schema \<in> set schemas \<and>
    casefold schema \<notin> set SQLSERVER_SYSTEM_SCHEMAS \<and>
    in_table_names ins (Some schema) = Inr names \<and>
    (\<exists>n \<in> set names. t = \<lparr>tb_schema = Some schema, tb_name = n\<rparr>))"
  using assms
proof (induction schemas arbitrary: acc)
  case Nil
  then show ?case by simp
next
  case (Cons s schemas)
  show ?case
  proof (cases "casefold s \<in> set SQLSERVER_SYSTEM_SCHEMAS")
    case True
    with Cons.prems Cons.IH [of acc] show ?thesis by auto
  next
    case False
    with Cons.prems obtain names where names: "in_table_names ins (Some s) = Inr names"
      by (auto simp: result_simps)
    with False Cons.prems Cons.IH [of "acc @ map (\<lambda>n. \<lparr>tb_schema = Some s, tb_name = n\<rparr>) names"]
    show ?thesis by auto
  qed
qed

lemma list_tables_sqlserver:
  assumes "list_tables ins = Inr ts" and "in_dialect_name ins \<noteq> ''mysql''"
    and "in_schema_names ins = Inr schemas"
  shows "t \<in> set ts \<longleftrightarrow> (\<exists>schema names. schema \<in> set schemas \<and>
    casefold schema \<notin> set SQLSERVER_SYSTEM_SCHEMAS \<and>
    in_table_names ins (Some schema) = Inr names \<and>
    (\<exists>n \<in> set names. t = \<lparr>tb_schema = Some schema, tb_name = n\<rparr>))"
  using rfold_list_tables [of ins schemas "[]" ts t] assms
  by (simp add: list_tables_def)

end
