(* ===== verification/Schema.thy ===== *)
theory Schema
  imports Parser Lru Reflection
begin

text \<open>
  \<open>security/schema.py\<close>: the schema cache (a bounded recency store with a time-to-live), the
  reflected catalog over it, and the resolution of every table of a query against the catalog.

  The catalog is an interface: \<open>resolve_tables\<close> is written against it, the locale
  \<open>table_catalog\<close> states what a provider promises (its answers do not depend on the state of
  its cache) and \<open>ReflectedCatalog\<close> is proved to provide it.
\<close>

section \<open>The schema cache\<close>

text \<open>Cached tuples: the table list or the column names.  Clock readings are ticks.\<close>

datatype cache_value = TableTuple "(string \<times> string) list" | ColumnTuple "string list"

type_synonym cache_key = "string list"

record schema_cache =
  sca_max_entries :: int
  sca_ttl :: int
  sca_entries :: "(cache_key, int \<times> cache_value) odict"

text \<open>\<open>while len(entries) > max_entries: entries.popitem(last=False)\<close>.\<close>

fun evict :: "int \<Rightarrow> ('k, 'v) odict \<Rightarrow> ('k, 'v) odict result" where
  "evict m [] = (if int (length ([] :: ('k, 'v) odict)) > m then Inl KeyError else Inr [])"
| "evict m (x # xs) = (if int (length (x # xs)) > m then evict m xs else Inr (x # xs))"

text \<open>\<open>get\<close> and \<open>put\<close> with the reading of the clock they make, \<open>now\<close>.\<close>

definition cache_get :: "cache_key \<Rightarrow> int \<Rightarrow> schema_cache \<Rightarrow> cache_value option \<times> schema_cache" where
  "cache_get key now c = (case map_of (sca_entries c) key of
       None \<Rightarrow> (None, c)
     | Some (stored_at, value) \<Rightarrow>
         if now - stored_at \<ge> sca_ttl c
         then (None, c\<lparr>sca_entries := od_delete key (sca_entries c)\<rparr>)
         else (Some value, c\<lparr>sca_entries := od_move_to_end key (sca_entries c)\<rparr>))"

definition cache_put :: "cache_key \<Rightarrow> cache_value \<Rightarrow> int \<Rightarrow> schema_cache \<Rightarrow> schema_cache result" where
  "cache_put key value now c =
     (let es = od_move_to_end key (AList.update key (now, value) (sca_entries c)) in
      rbind (evict (sca_max_entries c) es) (\<lambda>es'. Inr (c\<lparr>sca_entries := es'\<rparr>)))"

lemma evict_drop: "0 \<le> m \<Longrightarrow> evict m es = Inr (drop (length es - nat m) es)"
proof (induction es)
  case Nil
  then show ?case by simp
next
  case (Cons x es)
  show ?case
  proof (cases "int (length (x # es)) > m")
    case True
    then have "length (x # es) - nat m = Suc (length es - nat m)"
      using Cons.prems by (simp add: Suc_diff_le nat_le_iff)
    with True Cons show ?thesis by simp
  next
    case False
    then have "length (x # es) - nat m = 0" by simp
    with False show ?thesis by simp
  qed
qed

lemma cache_put_eq:
  assumes "0 \<le> sca_max_entries c"
  shows "cache_put key value now c = Inr (c\<lparr>sca_entries :=
    (let es = od_delete key (sca_entries c) @ [(key, (now, value))] in
     drop (length es - nat (sca_max_entries c)) es)\<rparr>)"
  using assms by (simp add: cache_put_def evict_drop od_move_update Let_def)

subsection \<open>The cache as a bounded recency store\<close>

datatype cache_op = CGet cache_key int | CPut cache_key cache_value int

text \<open>
  A call on the cache, as a change of its state.  With a negative bound the eviction loop empties
  the dictionary before it raises.
\<close>

fun cache_step :: "cache_op \<Rightarrow> schema_cache \<Rightarrow> schema_cache" where
  "cache_step (CGet k now) c = snd (cache_get k now c)"
| "cache_step (CPut k v now) c = (case cache_put k v now c of
     Inl _ \<Rightarrow> c\<lparr>sca_entries := []\<rparr> | Inr c' \<Rightarrow> c')"

definition cache_fresh :: "cache_key \<Rightarrow> int \<Rightarrow> schema_cache \<Rightarrow> bool" where
  "cache_fresh k now c \<longleftrightarrow> (case map_of (sca_entries c) k of
     None \<Rightarrow> False | Some (at, _) \<Rightarrow> now - at < sca_ttl c)"

fun cache_expired :: "cache_op \<Rightarrow> schema_cache \<Rightarrow> cache_key set" where
  "cache_expired (CGet k now) c = (if cache_fresh k now c then {} else {k})"
| "cache_expired (CPut k v now) c = {}"

fun cache_used :: "cache_op \<Rightarrow> schema_cache \<Rightarrow> cache_key option" where
  "cache_used (CGet k now) c = (if cache_fresh k now c then Some k else None)"
| "cache_used (CPut k v now) c = Some k"

lemma evict_negative: "m < 0 \<Longrightarrow> evict m es = Inl KeyError"
  by (induction es) auto

lemma keys_drop: "keys (drop n d) = drop n (keys d)"
  by (rule drop_map [symmetric])

lemma cache_get_stored:
  assumes "distinct (keys (sca_entries c))"
  shows "keys (sca_entries (snd (cache_get k now c))) =
    (if cache_fresh k now c then removeAll k (keys (sca_entries c)) @ [k]
     else removeAll k (keys (sca_entries c)))"
proof (cases "map_of (sca_entries c) k")
  case None
  then have "k \<notin> set (keys (sca_entries c))" by (simp add: map_of_eq_None_iff)
  with None show ?thesis by (simp add: cache_get_def cache_fresh_def)
next
  case (Some e)
  then have "k \<in> set (keys (sca_entries c))" by (metis map_of_eq_None_iff option.distinct(1) image_set)
  with Some show ?thesis
    by (cases e) (simp add: cache_get_def cache_fresh_def keys_od_move_to_end)
qed

lemma cache_put_stored:
  "keys (sca_entries (cache_step (CPut k v now) c)) =
     lru_use (nat (sca_max_entries c)) k (keys (sca_entries c))"
proof (cases "0 \<le> sca_max_entries c")
  case True
  then show ?thesis by (simp add: cache_put_eq lru_use_def Let_def keys_drop length_od_delete)
next
  case False
  then show ?thesis by (simp add: cache_put_def evict_negative lru_use_def Let_def)
qed

lemma cache_step_bounds:
  "sca_max_entries (cache_step x c) = sca_max_entries c"
  "sca_ttl (cache_step x c) = sca_ttl c"
  by (cases x; auto simp: cache_get_def cache_put_def rbind_def split: option.splits sum.splits)+

interpretation schema_lru: lru_store
  "\<lambda>c. keys (sca_entries c)" "\<lambda>c. nat (sca_max_entries c)" cache_step cache_expired cache_used
proof unfold_locales
  fix x c
  show "nat (sca_max_entries (cache_step x c)) = nat (sca_max_entries c)"
    by (simp add: cache_step_bounds)
  assume dist: "distinct (keys (sca_entries c))"
    and len: "length (keys (sca_entries c)) \<le> nat (sca_max_entries c)"
  show "keys (sca_entries (cache_step x c)) =
    (let ks = filter (\<lambda>k. k \<notin> cache_expired x c) (keys (sca_entries c)) in
     case cache_used x c of None \<Rightarrow> ks | Some k \<Rightarrow> lru_use (nat (sca_max_entries c)) k ks)"
  proof (cases x)
    case (CGet k now)
    show ?thesis
    proof (cases "cache_fresh k now c")
      case True
      then have k: "k \<in> set (keys (sca_entries c))"
        by (force simp: cache_fresh_def split: option.splits dest: map_of_SomeD)
      then have "length (removeAll k (keys (sca_entries c)) @ [k]) \<le> nat (sca_max_entries c)"
        using len dist by (simp add: distinct_remove1_removeAll [symmetric] length_remove1 Suc_leI)
          (metis Suc_pred length_pos_if_in_set list.set_map length_map)
      with True CGet show ?thesis
        by (simp add: cache_get_stored [OF dist] lru_use_def Let_def)
    next
      case False
      with CGet show ?thesis
        by (simp add: cache_get_stored [OF dist] removeAll_filter_not_eq) metis
    qed
  next
    case (CPut k v now)
    then show ?thesis using cache_put_stored [of k v now c] by simp
  qed
qed

section \<open>The catalog interface and the resolution of tables\<close>

record table_schema =
  ts_schema :: string
  ts_name :: string
  ts_columns :: "string list"

text \<open>\<open>_match\<close>.\<close>

definition match_table :: "(string \<times> string) list \<Rightarrow> string option \<Rightarrow> string
    \<Rightarrow> (string \<times> string) result" where
  "match_table tables schema name =
     (let matches = filter (\<lambda>(s, n). casefold n = casefold name \<and>
        (schema = None \<or> casefold s = casefold (the schema))) tables in
      rbind (raise_if (length matches \<noteq> 1) (reject TABLE_NOT_FOUND)) (\<lambda>_. Inr (hd matches)))"

text \<open>The truth value of an argument.\<close>

fun truthy_arg :: "argval \<Rightarrow> bool" where
  "truthy_arg ANone = False"
| "truthy_arg (ABool b) = b"
| "truthy_arg (AStr s) = (s \<noteq> [])"
| "truthy_arg (AInt i) = (i \<noteq> 0)"
| "truthy_arg (ANode n) = True"
| "truthy_arg (AList ns) = (ns \<noteq> [])"

abbreviation table_db :: "node \<Rightarrow> string" where
  "table_db t \<equiv> node_text t ''db''"

text \<open>\<open>table.set("this", ...)\<close> and, with a schema level, \<open>table.set("db", ...)\<close>.\<close>

definition rewrite_table :: "dialect \<Rightarrow> string \<Rightarrow> string \<Rightarrow> node \<Rightarrow> node" where
  "rewrite_table d schema name t =
     (let t' = set_arg ''this'' (ANode (to_identifier name)) t in
      if d_has_schema d then set_arg ''db'' (ANode (to_identifier schema)) t' else t')"

text \<open>One round of the loop of \<open>resolve_tables\<close>, for the node at a position.\<close>

definition resolve_table :: "dialect \<Rightarrow> (string \<times> string) list
    \<Rightarrow> (string \<Rightarrow> string \<Rightarrow> ('s, exn, string list) stateful) \<Rightarrow> pos
    \<Rightarrow> node \<times> table_schema list \<Rightarrow> ('s, exn, node \<times> table_schema list) stateful" where
  "resolve_table d available columns p st = (case sub (fst st) p of
       None \<Rightarrow> sreturn st
     | Some t \<Rightarrow>
         if nkind t \<noteq> KTable then sreturn st
         else
           sbind (slift (raise_if (truthy_arg (arg t ''catalog'') \<or>
               \<not> is_kind (arg t ''this'') [KIdentifier]) (reject TABLE_SCOPE))) (\<lambda>_.
           sbind (slift (raise_if (\<not> d_has_schema d \<and> table_db t \<noteq> []) (reject TABLE_SCOPE))) (\<lambda>_.
           sbind (slift (match_table available
               (if table_db t = [] then None else Some (table_db t)) (node_name t))) (\<lambda>m.
           sbind (columns (fst m) (snd m)) (\<lambda>cols.
           sreturn (upd p (rewrite_table d (fst m) (snd m)) (fst st),
             snd st @ [\<lparr>ts_schema = fst m, ts_name = snd m, ts_columns = cols\<rparr>]))))))"

definition resolve_tables :: "walker \<Rightarrow> ('s, exn, (string \<times> string) list) stateful
    \<Rightarrow> (string \<Rightarrow> string \<Rightarrow> ('s, exn, string list) stateful) \<Rightarrow> dialect \<Rightarrow> node
    \<Rightarrow> ('s, exn, node \<times> table_schema list) stateful" where
  "resolve_tables walk tables columns d q =
     sbind tables (\<lambda>available.
     sfold (resolve_table d available columns) (find_all walk [KTable] q) (q, []))"

text \<open>
  What a provider of \<open>list_tables\<close> and \<open>columns\<close> promises: in every state it keeps to
  (\<open>valid\<close>), it answers with one fixed view of the database and stays in such a state.
\<close>

locale table_catalog =
  fixes valid :: "'s \<Rightarrow> bool"
    and tables :: "('s, exn, (string \<times> string) list) stateful"
    and columns :: "string \<Rightarrow> string \<Rightarrow> ('s, exn, string list) stateful"
    and view_tables :: "(string \<times> string) list result"
    and view_columns :: "string \<Rightarrow> string \<Rightarrow> string list result"
  assumes tables_runs: "runs_to valid tables view_tables"
    and columns_runs: "runs_to valid (columns s t) (view_columns s t)"
begin

lemma resolve_table_runs:
  "runs_to valid (resolve_table d available columns p st)
     (fst (resolve_table d available (\<lambda>s t. slift (view_columns s t)) p st ()))"
proof -
  have columns: "runs_to valid (columns s t) (fst (slift (view_columns s t) ()))" for s t
    using columns_runs by (simp add: slift_def)
  show ?thesis
    unfolding resolve_table_def
    by (cases "sub (fst st) p") (simp_all add: runs_to_stateless_intros columns)
qed

text \<open>Resolving through the provider is resolving against the view.\<close>

lemma resolve_tables_runs:
  "runs_to valid (resolve_tables walk tables columns d q)
     (fst (resolve_tables walk (slift view_tables) (\<lambda>s t. slift (view_columns s t)) d q ()))"
  unfolding resolve_tables_def
proof (rule runs_to_stateless)
  show "runs_to valid tables (fst (slift view_tables ()))"
    using tables_runs by (simp add: slift_def)
qed (intro runs_to_stateless_sfold resolve_table_runs)

end

section \<open>The reflected catalog\<close>

text \<open>
  The objects a \<open>ReflectedCatalog\<close> works on: the shared cache and the clock it reads; reading
  number \<open>i\<close> of the clock gives \<open>cst_clock i\<close>.
\<close>

record catalog_state =
  cst_cache :: schema_cache
  cst_clock :: "nat \<Rightarrow> int"
  cst_reads :: nat

definition catalog_get :: "cache_key \<Rightarrow> (catalog_state, exn, cache_value option) stateful" where
  "catalog_get key s = (case map_of (sca_entries (cst_cache s)) key of
       None \<Rightarrow> (Inr None, s)
     | Some _ \<Rightarrow>
         let r = cache_get key (cst_clock s (cst_reads s)) (cst_cache s) in
         (Inr (fst r), s\<lparr>cst_cache := snd r, cst_reads := Suc (cst_reads s)\<rparr>))"

definition catalog_put :: "cache_key \<Rightarrow> cache_value \<Rightarrow> (catalog_state, exn, unit) stateful" where
  "catalog_put key v s =
     (let op = CPut key v (cst_clock s (cst_reads s)) in
      (rbind (cache_put key v (cst_clock s (cst_reads s)) (cst_cache s)) (\<lambda>_. Inr ()),
       s\<lparr>cst_cache := cache_step op (cst_cache s), cst_reads := Suc (cst_reads s)\<rparr>))"

definition tables_view :: "inspector \<Rightarrow> (string \<times> string) list result" where
  "tables_view ins = rbind (list_tables ins) (\<lambda>ts.
     Inr (map (\<lambda>t. (case tb_schema t of None \<Rightarrow> [] | Some s \<Rightarrow> s, tb_name t)) ts))"

definition columns_view :: "inspector \<Rightarrow> string \<Rightarrow> string \<Rightarrow> string list result" where
  "columns_view ins schema table =
     (case in_columns ins (if schema = [] then None else Some schema) table of
        Inl e \<Rightarrow> Inl (if e = NoSuchTable then reject TABLE_GONE else e)
      | Inr cols \<Rightarrow> Inr (map ci_name cols))"

definition tables_key :: "string \<Rightarrow> string \<Rightarrow> cache_key" where
  "tables_key alias database = [alias, database, ''tables'']"

definition columns_key :: "string \<Rightarrow> string \<Rightarrow> string \<Rightarrow> string \<Rightarrow> cache_key" where
  "columns_key alias database schema table = [alias, database, ''columns'', schema, table]"

text \<open>
  \<open>ReflectedCatalog.list_tables\<close> and \<open>.columns\<close> for a connection (its Inspector), an alias
  and a database.  A tuple of the other shape cannot be under the key; Python would fail on it.
\<close>

definition rc_list_tables :: "inspector \<Rightarrow> string \<Rightarrow> string
    \<Rightarrow> (catalog_state, exn, (string \<times> string) list) stateful" where
  "rc_list_tables ins alias database =
     sbind (catalog_get (tables_key alias database)) (\<lambda>cached. case cached of
         Some (TableTuple ts) \<Rightarrow> sreturn ts
       | Some (ColumnTuple _) \<Rightarrow> slift (Inl (TypeError ''not a tuple of pairs''))
       | None \<Rightarrow>
           sbind (slift (tables_view ins)) (\<lambda>ts.
           sbind (catalog_put (tables_key alias database) (TableTuple ts)) (\<lambda>_.
           sreturn ts)))"

definition rc_columns :: "inspector \<Rightarrow> string \<Rightarrow> string \<Rightarrow> string \<Rightarrow> string
    \<Rightarrow> (catalog_state, exn, string list) stateful" where
  "rc_columns ins alias database schema table =
     sbind (catalog_get (columns_key alias database schema table)) (\<lambda>cached. case cached of
         Some (ColumnTuple cs) \<Rightarrow> sreturn cs
       | Some (TableTuple _) \<Rightarrow> slift (Inl (TypeError ''not a tuple of names''))
       | None \<Rightarrow>
           sbind (slift (columns_view ins schema table)) (\<lambda>cs.
           sbind (catalog_put (columns_key alias database schema table) (ColumnTuple cs)) (\<lambda>_.
           sreturn cs)))"

subsection \<open>The cached answers agree with the databases\<close>

text \<open>
  \<open>dbs\<close> gives the Inspector of each alias and database; the cache is shared by all of them.
\<close>

definition entry_coherent :: "(string \<Rightarrow> string \<Rightarrow> inspector) \<Rightarrow> cache_key \<Rightarrow> cache_value \<Rightarrow> bool" where
  "entry_coherent dbs key v \<longleftrightarrow>
     (\<forall>a d. key = tables_key a d \<longrightarrow> (\<exists>ts. v = TableTuple ts \<and> tables_view (dbs a d) = Inr ts)) \<and>
     (\<forall>a d s t. key = columns_key a d s t \<longrightarrow>
        (\<exists>cs. v = ColumnTuple cs \<and> columns_view (dbs a d) s t = Inr cs))"

definition catalog_coherent :: "(string \<Rightarrow> string \<Rightarrow> inspector) \<Rightarrow> catalog_state \<Rightarrow> bool" where
  "catalog_coherent dbs s \<longleftrightarrow> 0 \<le> sca_max_entries (cst_cache s) \<and>
     (\<forall>(k, (at, v)) \<in> set (sca_entries (cst_cache s)). entry_coherent dbs k v)"

lemma od_delete_subset: "set (od_delete k d) \<subseteq> set d"
  by (auto simp: od_delete_def)

lemma od_move_to_end_subset: "set (od_move_to_end k d) \<subseteq> set d"
  using od_delete_subset [of k d]
  by (auto simp: od_move_to_end_def dest: map_of_SomeD split: option.splits)

lemma cache_get_subset: "set (sca_entries (snd (cache_get k now c))) \<subseteq> set (sca_entries c)"
  using od_delete_subset [of k "sca_entries c"] od_move_to_end_subset [of k "sca_entries c"]
  by (auto simp: cache_get_def split: option.splits)

lemma cache_get_value:
  "fst (cache_get k now c) = Some v \<Longrightarrow> \<exists>at. (k, (at, v)) \<in> set (sca_entries c)"
  by (auto simp: cache_get_def split: option.splits if_splits dest!: map_of_SomeD)

lemma cache_get_max: "sca_max_entries (snd (cache_get k now c)) = sca_max_entries c"
  by (auto simp: cache_get_def split: option.splits)

lemma catalog_get_coherent:
  assumes "catalog_coherent dbs s"
  obtains v s' where "catalog_get k s = (Inr v, s')" and "catalog_coherent dbs s'"
    and "\<And>x. v = Some x \<Longrightarrow> entry_coherent dbs k x"
proof (cases "map_of (sca_entries (cst_cache s)) k")
  case None
  then have "catalog_get k s = (Inr None, s)" by (simp add: catalog_get_def)
  with assms show ?thesis by (intro that) auto
next
  case (Some e)
  let ?r = "cache_get k (cst_clock s (cst_reads s)) (cst_cache s)"
  let ?s = "s\<lparr>cst_cache := snd ?r, cst_reads := Suc (cst_reads s)\<rparr>"
  have "catalog_get k s = (Inr (fst ?r), ?s)"
    using Some by (simp add: catalog_get_def Let_def)
  moreover have "catalog_coherent dbs ?s"
    using assms cache_get_subset [of k _ "cst_cache s"]
    by (fastforce simp: catalog_coherent_def cache_get_max)
  moreover have "entry_coherent dbs k x" if "fst ?r = Some x" for x
    using cache_get_value [OF that] assms by (fastforce simp: catalog_coherent_def)
  ultimately show ?thesis by (rule that)
qed

lemma catalog_put_coherent:
  assumes "catalog_coherent dbs s" and "entry_coherent dbs k v"
  obtains s' where "catalog_put k v s = (Inr (), s')" and "catalog_coherent dbs s'"
proof -
  let ?now = "cst_clock s (cst_reads s)"
  let ?es = "od_delete k (sca_entries (cst_cache s)) @ [(k, (?now, v))]"
  let ?c = "(cst_cache s)\<lparr>sca_entries :=
    drop (length ?es - nat (sca_max_entries (cst_cache s))) ?es\<rparr>"
  let ?s = "s\<lparr>cst_cache := ?c, cst_reads := Suc (cst_reads s)\<rparr>"
  have max: "0 \<le> sca_max_entries (cst_cache s)"
    using assms(1) by (simp add: catalog_coherent_def)
  have "catalog_put k v s = (Inr (), ?s)"
    by (simp add: catalog_put_def Let_def cache_put_eq [OF max])
  moreover have "catalog_coherent dbs ?s"
    using assms od_delete_subset [of k "sca_entries (cst_cache s)"]
    by (fastforce simp: catalog_coherent_def dest!: in_set_dropD)
  ultimately show ?thesis by (rule that)
qed

lemma entry_coherent_tables:
  "entry_coherent dbs (tables_key a d) v \<longleftrightarrow> (\<exists>ts. v = TableTuple ts \<and> tables_view (dbs a d) = Inr ts)"
  by (auto simp: entry_coherent_def tables_key_def columns_key_def)

lemma entry_coherent_columns:
  "entry_coherent dbs (columns_key a d s t) v \<longleftrightarrow>
     (\<exists>cs. v = ColumnTuple cs \<and> columns_view (dbs a d) s t = Inr cs)"
  by (auto simp: entry_coherent_def tables_key_def columns_key_def)

lemma rc_list_tables_runs:
  "runs_to (catalog_coherent dbs) (rc_list_tables (dbs a d) a d) (tables_view (dbs a d))"
  unfolding runs_to_def
proof (intro allI impI)
  fix s assume s: "catalog_coherent dbs s"
  obtain v s' where get: "catalog_get (tables_key a d) s = (Inr v, s')" "catalog_coherent dbs s'"
    and hit: "\<And>x. v = Some x \<Longrightarrow> entry_coherent dbs (tables_key a d) x"
    using catalog_get_coherent [OF s] by blast
  show "fst (rc_list_tables (dbs a d) a d s) = tables_view (dbs a d) \<and>
      catalog_coherent dbs (snd (rc_list_tables (dbs a d) a d s))"
  proof (cases v)
    case (Some x)
    with hit [OF Some] get show ?thesis
      by (auto simp: rc_list_tables_def sbind_def sreturn_def entry_coherent_tables)
  next
    case None
    show ?thesis
    proof (cases "tables_view (dbs a d)")
      case (Inl e)
      with None get show ?thesis by (simp add: rc_list_tables_def sbind_def slift_def)
    next
      case (Inr ts)
      then have "entry_coherent dbs (tables_key a d) (TableTuple ts)"
        by (simp add: entry_coherent_tables)
      then obtain s'' where "catalog_put (tables_key a d) (TableTuple ts) s' = (Inr (), s'')"
        "catalog_coherent dbs s''"
        using catalog_put_coherent [OF get(2)] by blast
      with None get Inr show ?thesis
        by (simp add: rc_list_tables_def sbind_def slift_def sreturn_def)
    qed
  qed
qed

lemma rc_columns_runs:
  "runs_to (catalog_coherent dbs) (rc_columns (dbs a d) a d sn tn) (columns_view (dbs a d) sn tn)"
  unfolding runs_to_def
proof (intro allI impI)
  fix s assume s: "catalog_coherent dbs s"
  let ?k = "columns_key a d sn tn"
  obtain v s' where get: "catalog_get ?k s = (Inr v, s')" "catalog_coherent dbs s'"
    and hit: "\<And>x. v = Some x \<Longrightarrow> entry_coherent dbs ?k x"
    using catalog_get_coherent [OF s] by blast
  show "fst (rc_columns (dbs a d) a d sn tn s) = columns_view (dbs a d) sn tn \<and>
      catalog_coherent dbs (snd (rc_columns (dbs a d) a d sn tn s))"
  proof (cases v)
    case (Some x)
    with hit [OF Some] get show ?thesis
      by (auto simp: rc_columns_def sbind_def sreturn_def entry_coherent_columns)
  next
    case None
    show ?thesis
    proof (cases "columns_view (dbs a d) sn tn")
      case (Inl e)
      with None get show ?thesis by (simp add: rc_columns_def sbind_def slift_def)
    next
      case (Inr cs)
      then have "entry_coherent dbs ?k (ColumnTuple cs)" by (simp add: entry_coherent_columns)
      then obtain s'' where "catalog_put ?k (ColumnTuple cs) s' = (Inr (), s'')"
        "catalog_coherent dbs s''"
        using catalog_put_coherent [OF get(2)] by blast
      with None get Inr show ?thesis
        by (simp add: rc_columns_def sbind_def slift_def sreturn_def)
    qed
  qed
qed

interpretation reflected: table_catalog
  "catalog_coherent dbs" "rc_list_tables (dbs a d) a d" "rc_columns (dbs a d) a d"
  "tables_view (dbs a d)" "columns_view (dbs a d)" for dbs a d
  by unfold_locales (rule rc_list_tables_runs, rule rc_columns_runs)

section \<open>Properties\<close>

lemma schema_run_is_fold: "schema_lru.run xs c = fold cache_step xs c"
  by (induction xs arbitrary: c) simp_all

text \<open>
  C36. The cache is bounded and keeps what is used: from a well-formed cache any calls leave at
  most \<open>max_entries\<close> distinct keys, and an entry that a \<open>get\<close> or \<open>put\<close> has used survives every
  run of calls that uses fewer other keys than that and does not find it expired.
\<close>

theorem schema_cache_keeps_recent:
  assumes "schema_lru.wf c" and "cache_used x c = Some k"
    and "k \<notin> schema_lru.expired_in xs (cache_step x c)"
    and "card (schema_lru.used_in xs (cache_step x c) - {k}) < nat (sca_max_entries c)"
  shows "k \<in> set (keys (sca_entries (fold cache_step (x # xs) c))) \<and>
    distinct (keys (sca_entries (fold cache_step (x # xs) c))) \<and>
    int (length (sca_entries (fold cache_step (x # xs) c))) \<le> max 0 (sca_max_entries c)"
proof -
  have "k \<in> set (keys (sca_entries (schema_lru.run (x # xs) c)))"
    by (rule schema_lru.retained [OF assms])
  moreover have "schema_lru.wf (schema_lru.run (x # xs) c)" by (rule schema_lru.wf_run [OF assms(1)])
  moreover have "nat (sca_max_entries (schema_lru.run (x # xs) c)) = nat (sca_max_entries c)"
    by (rule schema_lru.capacity_run)
  ultimately have "k \<in> set (keys (sca_entries (fold cache_step (x # xs) c)))"
    "distinct (keys (sca_entries (fold cache_step (x # xs) c)))"
    "length (sca_entries (fold cache_step (x # xs) c)) \<le> nat (sca_max_entries c)"
    by (simp_all only: schema_run_is_fold schema_lru.wf_def length_map)
  then show ?thesis by linarith
qed

theorem schema_cache_keeps_recent_witness:
  "[''k''] \<in> set (keys (sca_entries (fold cache_step [CPut [''k''] (ColumnTuple []) 0, CPut [''j''] (ColumnTuple []) 1]
      \<lparr>sca_max_entries = 2, sca_ttl = 9, sca_entries = [([''i''], (0, ColumnTuple []))]\<rparr>))) \<and>
   distinct (keys (sca_entries (fold cache_step [CPut [''k''] (ColumnTuple []) 0, CPut [''j''] (ColumnTuple []) 1]
      \<lparr>sca_max_entries = 2, sca_ttl = 9, sca_entries = [([''i''], (0, ColumnTuple []))]\<rparr>))) \<and>
   int (length (sca_entries (fold cache_step [CPut [''k''] (ColumnTuple []) 0, CPut [''j''] (ColumnTuple []) 1]
      \<lparr>sca_max_entries = 2, sca_ttl = 9, sca_entries = [([''i''], (0, ColumnTuple []))]\<rparr>))) \<le>
    max 0 (sca_max_entries \<lparr>sca_max_entries = 2, sca_ttl = 9, sca_entries = [([''i''], (0, ColumnTuple []))]\<rparr>)"
  by (rule schema_cache_keeps_recent) (simp_all add: schema_lru.wf_def)

text \<open>
  C37. The eviction loop ends normally and evicts no more than it must: with a bound that is not
  negative \<open>put\<close> never raises; it leaves the last of the entries before it with the stored one at
  the end, as many as the bound allows and no fewer, in their order, and so the stored one last
  unless the bound is zero; and it changes nothing but the entries.
\<close>

theorem cache_put_terminates:
  assumes "0 \<le> sca_max_entries c" and "es = od_delete k (sca_entries c) @ [(k, (now, v))]"
  shows "\<exists>c'. cache_put k v now c = Inr c' \<and> suffix (sca_entries c') es \<and>
    length (sca_entries c') = min (length es) (nat (sca_max_entries c)) \<and>
    (0 < sca_max_entries c \<longrightarrow> sca_entries c' \<noteq> [] \<and> last (sca_entries c') = (k, (now, v))) \<and>
    sca_max_entries c' = sca_max_entries c \<and> sca_ttl c' = sca_ttl c"
proof -
  let ?c = "c\<lparr>sca_entries := drop (length es - nat (sca_max_entries c)) es\<rparr>"
  have "cache_put k v now c = Inr ?c" by (simp add: cache_put_eq [OF assms(1)] assms(2) Let_def)
  moreover have "sca_entries ?c = drop (length es - nat (sca_max_entries c)) es" by simp
  then have "suffix (sca_entries ?c) es" by (simp only: suffix_drop)
  moreover have "length (sca_entries ?c) = min (length es) (nat (sca_max_entries c))" by simp
  moreover have "sca_entries ?c \<noteq> [] \<and> last (sca_entries ?c) = (k, (now, v))" if "0 < sca_max_entries c"
    using that by (simp add: assms(2) last_drop)
  ultimately show ?thesis by (intro exI [of _ ?c]) simp
qed

theorem cache_put_terminates_witness:
  "\<exists>c'. cache_put [''k''] (ColumnTuple []) 7 \<lparr>sca_max_entries = 1, sca_ttl = 9, sca_entries = [([''i''], (0, ColumnTuple []))]\<rparr> = Inr c' \<and>
    length (sca_entries c') = 1 \<and> last (sca_entries c') = ([''k''], (7, ColumnTuple []))"
  using cache_put_terminates [where c = "\<lparr>sca_max_entries = 1, sca_ttl = 9, sca_entries = [([''i''], (0, ColumnTuple []))]\<rparr>"
      and k = "[''k'']" and now = 7 and v = "ColumnTuple []", OF _ refl]
  by (auto simp: od_delete_def)

text \<open>The one table of a list that a name stands for.\<close>

definition only_match :: "(string \<times> string) list \<Rightarrow> string option \<Rightarrow> string \<Rightarrow> string \<times> string \<Rightarrow> bool" where
  "only_match tables schema name m \<longleftrightarrow> m \<in> set tables \<and> casefold (snd m) = casefold name \<and>
     (schema = None \<or> casefold (fst m) = casefold (the schema)) \<and>
     (\<exists>!i. i < length tables \<and> casefold (snd (tables ! i)) = casefold name \<and>
        (schema = None \<or> casefold (fst (tables ! i)) = casefold (the schema)))"

lemma filter_singleton_index:
  assumes "filter P xs = [y]"
  shows "y \<in> set xs \<and> P y \<and> (\<exists>!i. i < length xs \<and> P (xs ! i))"
proof -
  have "card {i. i < length xs \<and> P (xs ! i)} = 1"
    using assms by (metis length_filter_conv_card length_Cons list.size(3) One_nat_def)
  then obtain i where "{i. i < length xs \<and> P (xs ! i)} = {i}" by (auto simp: card_1_singleton_iff)
  then have "\<exists>!i. i < length xs \<and> P (xs ! i)" by (intro ex1I [of _ i]) auto
  moreover have "y \<in> set (filter P xs)" using assms by simp
  ultimately show ?thesis by simp
qed

lemma match_table_Inr: "match_table tables schema name = Inr m \<Longrightarrow> only_match tables schema name m"
proof -
  let ?P = "\<lambda>(s, n). casefold n = casefold name \<and> (schema = None \<or> casefold s = casefold (the schema))"
  assume "match_table tables schema name = Inr m"
  then have "length (filter ?P tables) = 1" "hd (filter ?P tables) = m"
    by (auto simp: match_table_def result_simps Let_def)
  then have "filter ?P tables = [m]" by (cases "filter ?P tables") auto
  from filter_singleton_index [OF this] show ?thesis
    by (simp add: only_match_def case_prod_beta)
qed

text \<open>
  The node of a table before and after, and its entry: the table is the one in the list that is
  written, its columns are the catalog's, and the node has its reflected name.
\<close>

definition written_schema :: "node \<Rightarrow> string option" where
  "written_schema n = (if table_db n = [] then None else Some (table_db n))"

definition table_resolved :: "dialect \<Rightarrow> (string \<times> string) list
    \<Rightarrow> (string \<Rightarrow> string \<Rightarrow> ('s, exn, string list) stateful) \<Rightarrow> node \<Rightarrow> node \<Rightarrow> pos \<Rightarrow> table_schema \<Rightarrow> bool" where
  "table_resolved d available columns q q' p t \<longleftrightarrow> (\<exists>n n'. sub q p = Some n \<and> sub q' p = Some n' \<and>
     only_match available (written_schema n) (node_name n) (ts_schema t, ts_name t) \<and>
     (\<not> d_has_schema d \<longrightarrow> written_schema n = None) \<and>
     (\<exists>s1 s2. columns (ts_schema t) (ts_name t) s1 = (Inr (ts_columns t), s2)) \<and>
     nkind n' = KTable \<and> node_name n' = ts_name t \<and> (d_has_schema d \<longrightarrow> table_db n' = ts_schema t))"

lemma table_resolved_cong:
  "sub q p = sub r p \<Longrightarrow> sub q' p = sub r' p \<Longrightarrow>
     table_resolved d available columns q q' p t = table_resolved d available columns r r' p t"
  by (simp add: table_resolved_def)

lemma rewrite_table_text:
  "nkind (rewrite_table d schema name n) = nkind n"
  "node_name (rewrite_table d schema name n) = name"
  "d_has_schema d \<Longrightarrow> table_db (rewrite_table d schema name n) = schema"
  by (simp_all add: rewrite_table_def node_text_def Let_def)

lemma resolve_table_Inr:
  assumes "resolve_table d available columns p (q, ts) s = (Inr (q', ts'), s')"
    and "sub q p = Some n" and "nkind n = KTable"
  obtains m cols s1 s2 where "only_match available (written_schema n) (node_name n) m"
    "\<not> d_has_schema d \<longrightarrow> written_schema n = None" "columns (fst m) (snd m) s1 = (Inr cols, s2)"
    "q' = upd p (rewrite_table d (fst m) (snd m)) q"
    "ts' = ts @ [\<lparr>ts_schema = fst m, ts_name = snd m, ts_columns = cols\<rparr>]"
proof -
  let ?found = "\<lambda>m. sbind (columns (fst m) (snd m)) (\<lambda>cols.
       sreturn (upd p (rewrite_table d (fst m) (snd m)) q,
         ts @ [\<lparr>ts_schema = fst m, ts_name = snd m, ts_columns = cols\<rparr>]))"
  let ?a = "raise_if (truthy_arg (arg n ''catalog'') \<or> \<not> is_kind (arg n ''this'') [KIdentifier]) (reject TABLE_SCOPE)"
  let ?b = "raise_if (\<not> d_has_schema d \<and> table_db n \<noteq> []) (reject TABLE_SCOPE)"
  have "sbind (slift ?a) (\<lambda>_. sbind (slift ?b) (\<lambda>_.
      sbind (slift (match_table available (written_schema n) (node_name n))) ?found)) s = (Inr (q', ts'), s')"
    using assms(1) unfolding resolve_table_def fst_conv snd_conv assms(2) option.case assms(3) written_schema_def
    by (simp only: simp_thms if_False)
  from sbind_slift_InrD [OF this] obtain u where
    "sbind (slift ?b) (\<lambda>_. sbind (slift (match_table available (written_schema n) (node_name n))) ?found) s = (Inr (q', ts'), s')"
    by blast
  from sbind_slift_InrD [OF this] obtain u' where b: "?b = Inr u'"
    and "sbind (slift (match_table available (written_schema n) (node_name n))) ?found s = (Inr (q', ts'), s')"
    by blast
  from sbind_slift_InrD [OF this(2)] obtain m where m: "match_table available (written_schema n) (node_name n) = Inr m"
    and "?found m s = (Inr (q', ts'), s')" by blast
  then obtain cols s2 where "columns (fst m) (snd m) s = (Inr cols, s2)"
    "q' = upd p (rewrite_table d (fst m) (snd m)) q"
    "ts' = ts @ [\<lparr>ts_schema = fst m, ts_name = snd m, ts_columns = cols\<rparr>]"
    unfolding sbind_eq_Inr_iff sreturn_Inr_iff prod.inject by blast
  moreover have "\<not> d_has_schema d \<longrightarrow> written_schema n = None"
    using b by (auto simp: written_schema_def raise_if_eq_Inr_iff)
  ultimately show thesis using that [OF match_table_Inr [OF m]] by blast
qed

lemma sfold_resolve_table:
  assumes "sfold (resolve_table d available columns) ps (q, ts) s = (Inr (q', ts'), s')"
    and "\<forall>p \<in> set ps. kind_at q p = Some KTable" and "distinct ps"
    and "\<forall>p \<in> set ps. \<forall>x \<in> set ps. prefix p x \<longrightarrow> p = x"
  shows "\<exists>new. ts' = ts @ new \<and> list_all2 (table_resolved d available columns q q') ps new \<and>
    (\<forall>x. (\<forall>p \<in> set ps. \<not> prefix p x \<and> \<not> prefix x p) \<longrightarrow> sub q' x = sub q x)"
  using assms
proof (induction ps arbitrary: q ts s)
  case Nil
  then show ?case by (simp add: sreturn_def)
next
  case (Cons p ps)
  obtain q1 ts1 s1 where step: "resolve_table d available columns p (q, ts) s = (Inr (q1, ts1), s1)"
    and rest: "sfold (resolve_table d available columns) ps (q1, ts1) s1 = (Inr (q', ts'), s')"
    using Cons.prems(1) unfolding sfold.simps sbind_eq_Inr_iff by (metis surj_pair)
  obtain n where n: "sub q p = Some n" "nkind n = KTable" using Cons.prems(2) by (auto simp: kind_at_def split: option.splits)
  obtain m cols t1 t2 where m: "only_match available (written_schema n) (node_name n) m"
    "\<not> d_has_schema d \<longrightarrow> written_schema n = None" "columns (fst m) (snd m) t1 = (Inr cols, t2)"
    and q1: "q1 = upd p (rewrite_table d (fst m) (snd m)) q"
    and ts1: "ts1 = ts @ [\<lparr>ts_schema = fst m, ts_name = snd m, ts_columns = cols\<rparr>]"
    by (rule resolve_table_Inr [OF step n])
  have apart: "\<not> prefix p x \<and> \<not> prefix x p" if "x \<in> set ps" for x
    using Cons.prems(3,4) that by auto
  have same: "sub q1 x = sub q x" if "\<not> prefix p x \<and> \<not> prefix x p" for x
    unfolding q1 by (rule sub_upd_disjoint) (use that in simp_all)
  have "\<forall>x \<in> set ps. kind_at q1 x = Some KTable"
    using Cons.prems(2) same [OF apart] by (simp add: kind_at_def)
  from Cons.IH [OF rest this] Cons.prems(3,4) obtain new where new: "ts' = ts1 @ new"
    "list_all2 (table_resolved d available columns q1 q') ps new"
    "\<And>x. \<forall>p \<in> set ps. \<not> prefix p x \<and> \<not> prefix x p \<Longrightarrow> sub q' x = sub q1 x" by auto
  have "sub q' p = Some (rewrite_table d (fst m) (snd m) n)"
    using new(3) [of p] apart sub_upd_same [OF n(1)] by (metis q1)
  then have "table_resolved d available columns q q' p \<lparr>ts_schema = fst m, ts_name = snd m, ts_columns = cols\<rparr>"
    using n m rewrite_table_text unfolding table_resolved_def by fastforce
  moreover have "list_all2 (table_resolved d available columns q q') ps new"
    using new(2) by (rule list.rel_mono_strong) (use same [OF apart] in \<open>simp add: table_resolved_def\<close>)
  ultimately show ?case using new(1,3) same
    by (intro exI [of _ "\<lparr>ts_schema = fst m, ts_name = snd m, ts_columns = cols\<rparr> # new"]) (simp add: ts1)
qed

text \<open>
  C19. A query reaches exactly the tables it names: for every table node of the query, in order,
  there is one resolved table; it is the one entry of the catalog's list that the node's written name,
  with its schema if it writes one, matches in any case; its columns are those the catalog answers
  for it; and the node of the resolved query has its reflected name, and its schema where the
  dialect has one.  Elsewhere the query is as it was.  Without schemas none is written.
\<close>

theorem resolved_tables_are_listed:
  assumes "walk_ok walk" and "resolve_tables walk tables columns d q s = (Inr (q', ts), s')"
    and "\<forall>p x. kind_at q p = Some KTable \<and> kind_at q x = Some KTable \<and> prefix p x \<longrightarrow> p = x"
  shows "\<exists>available s1. tables s = (Inr available, s1) \<and>
    list_all2 (\<lambda>p t. \<exists>n n'. sub q p = Some n \<and> sub q' p = Some n' \<and>
       only_match available (written_schema n) (node_name n) (ts_schema t, ts_name t) \<and>
       (\<not> d_has_schema d \<longrightarrow> written_schema n = None) \<and>
       (\<exists>s1 s2. columns (ts_schema t) (ts_name t) s1 = (Inr (ts_columns t), s2)) \<and>
       nkind n' = KTable \<and> node_name n' = ts_name t \<and> (d_has_schema d \<longrightarrow> table_db n' = ts_schema t))
     (find_all walk [KTable] q) ts \<and>
    (\<forall>x. (\<forall>p. kind_at q p = Some KTable \<longrightarrow> \<not> prefix p x \<and> \<not> prefix x p) \<longrightarrow> sub q' x = sub q x)"
proof -
  from assms(2) obtain available s1 where list: "tables s = (Inr available, s1)"
    and run: "sfold (resolve_table d available columns) (find_all walk [KTable] q) (q, []) s1 = (Inr (q', ts), s')"
    by (auto simp: resolve_tables_def sbind_eq_Inr_iff)
  have set: "set (find_all walk [KTable] q) = {p. kind_at q p = Some KTable}"
    using set_find_all [OF assms(1)] by simp
  from sfold_resolve_table [OF run _ distinct_find_all [OF assms(1)]] assms(3)
  have "list_all2 (table_resolved d available columns q q') (find_all walk [KTable] q) ts"
    "\<forall>x. (\<forall>p. kind_at q p = Some KTable \<longrightarrow> \<not> prefix p x \<and> \<not> prefix x p) \<longrightarrow> sub q' x = sub q x"
    unfolding set by auto
  with list show ?thesis unfolding table_resolved_def by blast
qed

text \<open>A query on one table, before and after.\<close>

definition one_table :: "node \<Rightarrow> node" where
  "one_table t = mk KSelect [(''from_'', ANode (mk KFrom [(''this'', ANode t)]))]"

definition two_tables :: "(unit, exn, (string \<times> string) list) stateful" where
  "two_tables = slift (Inr [(''dbo'', ''Users''), (''dbo'', ''Orders'')])"

definition written_users :: node where
  "written_users = mk KTable [(''this'', ANode (to_identifier ''users''))]"

lemma one_table_tables:
  "kind_at (one_table written_users) p = Some KTable \<longleftrightarrow> p = [(''from_'', 0), (''this'', 0)]"
proof -
  have "find_all bfs_walk [KTable] (one_table written_users) = [[(''from_'', 0), (''this'', 0)]]" by code_simp
  then show ?thesis using set_find_all [OF walk_ok_bfs_walk, of "[KTable]" "one_table written_users"] by auto
qed

theorem resolved_tables_are_listed_witness:
  "\<exists>available s1. two_tables () = (Inr available, s1) \<and>
    list_all2 (\<lambda>p t. \<exists>n n'. sub (one_table written_users) p = Some n \<and>
       sub (one_table (rewrite_table SQLSERVER ''dbo'' ''Users'' written_users)) p = Some n' \<and>
       only_match available (written_schema n) (node_name n) (ts_schema t, ts_name t) \<and>
       node_name n' = ts_name t)
     [[(''from_'', 0), (''this'', 0)]] [\<lparr>ts_schema = ''dbo'', ts_name = ''Users'', ts_columns = [''Id'']\<rparr>]"
proof -
  have run: "resolve_tables bfs_walk two_tables (\<lambda>s t. slift (Inr [''Id'']))
      SQLSERVER (one_table written_users) () =
    (Inr (one_table (rewrite_table SQLSERVER ''dbo'' ''Users'' written_users),
       [\<lparr>ts_schema = ''dbo'', ts_name = ''Users'', ts_columns = [''Id'']\<rparr>]), ())"
    by code_simp
  have pos: "find_all bfs_walk [KTable] (one_table written_users) = [[(''from_'', 0), (''this'', 0)]]" by code_simp
  from resolved_tables_are_listed [OF walk_ok_bfs_walk run] one_table_tables pos show ?thesis by auto
qed

end
