(* ===== verification/Lineage.thy ===== *)
theory Lineage
  imports Schema
begin

text \<open>
  \<open>security/lineage.py\<close>: star expansion, the resolution of every column reference to a
  reflected column and the canonical rewrite of the query.  A \<open>ColumnRef\<close> holds a reference
  to a node of the query; here it holds the node's position.
\<close>

section \<open>Data\<close>

record source_column =
  src_schema :: string
  src_table :: string
  src_column :: string

datatype output_kind = OutColumn | OutCount | OutLiteral

record output_column =
  oc_label :: string
  oc_kind :: output_kind
  oc_source :: "source_column option"
  oc_binding :: "string option"

record column_ref =
  cr_node :: pos
  cr_source :: source_column

record analyzed_query =
  an_query :: node
  an_outputs :: "output_column list"
  an_references :: "column_ref list"

record binding =
  bd_name :: string
  bd_table :: table_schema

section \<open>Bindings\<close>

definition attribute_error :: exn where
  "attribute_error = OtherError \<lparr>ex_class = ''AttributeError'', ex_args = [], ex_text = []\<rparr>"

text \<open>\<open>from_.this\<close> and \<open>join.this\<close> of every join, in order.\<close>

definition from_nodes :: "node \<Rightarrow> node option list" where
  "from_nodes q = (case arg q ''from_'' of ANode f \<Rightarrow> [as_node (arg f ''this'')] | _ \<Rightarrow> [])
     @ map (\<lambda>j. as_node (arg j ''this'')) (as_list (arg q ''joins''))"

definition collect_binding :: "node option \<times> table_schema \<Rightarrow> string list \<times> binding list
    \<Rightarrow> (string list \<times> binding list) result" where
  "collect_binding nt st = (case fst nt of
       None \<Rightarrow> Inl attribute_error
     | Some n \<Rightarrow>
         let name = (if node_alias n = [] then ts_name (snd nt) else node_alias n) in
         rbind (raise_if (casefold name \<in> set (fst st)) (reject DUPLICATE_BINDING)) (\<lambda>_.
         Inr (casefold name # fst st, snd st @ [\<lparr>bd_name = name, bd_table = snd nt\<rparr>])))"

definition collect :: "node \<Rightarrow> table_schema list \<Rightarrow> binding list result" where
  "collect q schemas =
     (let nodes = from_nodes q in
      rbind (raise_if (length nodes \<noteq> length schemas) (reject TABLE_RESOLUTION_MISMATCH)) (\<lambda>_.
      rbind (rfold collect_binding (zip nodes schemas) ([], [])) (\<lambda>st.
      Inr (snd st))))"

section \<open>Resolving a column\<close>

definition canonical_column :: "binding \<Rightarrow> string \<Rightarrow> string option" where
  "canonical_column b name =
     (let matches = filter (\<lambda>c. casefold c = casefold name) (ts_columns (bd_table b)) in
      if length matches = 1 then Some (hd matches) else None)"

definition resolve_name :: "string \<Rightarrow> string \<Rightarrow> binding list \<Rightarrow> (binding \<times> string) result" where
  "resolve_name qualifier name bindings =
     (if qualifier \<noteq> [] then
        let matching = filter (\<lambda>b. casefold (bd_name b) = casefold qualifier) bindings in
        rbind (raise_if (length matching \<noteq> 1) (reject QUALIFIER_UNKNOWN)) (\<lambda>_.
        case canonical_column (hd matching) name of
          None \<Rightarrow> Inl (reject COLUMN_NOT_FOUND)
        | Some c \<Rightarrow> Inr (hd matching, c))
      else
        let candidates = List.map_filter
              (\<lambda>b. map_option (\<lambda>c. (b, c)) (canonical_column b name)) bindings in
        rbind (raise_if (length candidates \<noteq> 1) (reject COLUMN_AMBIGUOUS)) (\<lambda>_.
        Inr (hd candidates)))"

definition resolve :: "node \<Rightarrow> binding list \<Rightarrow> (binding \<times> string) result" where
  "resolve column bindings =
     resolve_name (node_text column ''table'') (node_name column) bindings"

definition source_of :: "binding \<Rightarrow> string \<Rightarrow> source_column" where
  "source_of b c = \<lparr>src_schema = ts_schema (bd_table b), src_table = ts_name (bd_table b),
     src_column = c\<rparr>"

definition rewrite_column :: "binding \<Rightarrow> string \<Rightarrow> node \<Rightarrow> node" where
  "rewrite_column b c n =
     set_arg ''table'' (ANode (to_identifier (bd_name b)))
       (set_arg ''this'' (ANode (to_identifier c)) n)"

section \<open>Star expansion\<close>

definition column_node :: "string \<Rightarrow> string \<Rightarrow> node" where
  "column_node table name = mk KColumn [(''this'', ANode (to_identifier name)),
     (''table'', ANode (to_identifier table))]"

definition star_columns :: "binding list \<Rightarrow> node list" where
  "star_columns chosen =
     concat (map (\<lambda>b. map (column_node (bd_name b)) (ts_columns (bd_table b))) chosen)"

definition expand_projection :: "binding list \<Rightarrow> node \<Rightarrow> node list result" where
  "expand_projection bindings n =
     (if nkind n = KStar then Inr (star_columns bindings)
      else if nkind n = KColumn \<and> is_kind (arg n ''this'') [KStar] then
        let chosen = filter (\<lambda>b. casefold (bd_name b) = casefold (node_text n ''table'')) bindings in
        rbind (raise_if (length chosen \<noteq> 1) (reject QUALIFIER_UNKNOWN)) (\<lambda>_.
        Inr (star_columns chosen))
      else Inr [n])"

definition expand_stars :: "node \<Rightarrow> binding list \<Rightarrow> node result" where
  "expand_stars q bindings =
     rbind (rmap (expand_projection bindings) (as_list (arg q ''expressions''))) (\<lambda>parts.
     Inr (set_arg ''expressions'' (AList (concat parts)) q))"

section \<open>Projections\<close>

definition default_label :: "nat \<Rightarrow> string" where
  "default_label index = ''column_'' @ str_nat index"

definition text_or :: "string \<Rightarrow> string \<Rightarrow> string" where
  "text_or a b = (if a = [] then b else a)"

type_synonym projection_state = "node \<times> column_ref list \<times> output_column list"

text \<open>
  The projected value: the node itself, or the operand of an alias.  \<open>i\<close> counts from 0.
\<close>

definition projection_pos :: "nat \<Rightarrow> pos" where
  "projection_pos i = [(''expressions'', i)]"

definition value_pos :: "node \<Rightarrow> nat \<Rightarrow> pos" where
  "value_pos n i = (if nkind n = KAlias then projection_pos i @ [(''this'', 0)] else projection_pos i)"

definition analyze_projection :: "binding list \<Rightarrow> nat \<Rightarrow> projection_state \<Rightarrow> projection_state result" where
  "analyze_projection bindings i st = (case st of (q, refs, outs) \<Rightarrow>
     (case sub q (projection_pos i) of
        None \<Rightarrow> Inr st
      | Some n \<Rightarrow>
          let alias = (if nkind n = KAlias then node_alias n else []);
              vpos = value_pos n i in
          (case sub q vpos of
             Some v \<Rightarrow>
               if nkind v = KColumn then
                 rbind (resolve v bindings) (\<lambda>(b, c).
                 Inr (upd vpos (rewrite_column b c) q,
                   refs @ [\<lparr>cr_node = vpos, cr_source = source_of b c\<rparr>],
                   outs @ [\<lparr>oc_label = text_or alias c, oc_kind = OutColumn,
                     oc_source = Some (source_of b c), oc_binding = Some (bd_name b)\<rparr>]))
               else Inr (q, refs, outs @ [\<lparr>oc_label = text_or alias (default_label (Suc i)),
                   oc_kind = (if nkind v = KCount then OutCount else OutLiteral),
                   oc_source = None, oc_binding = None\<rparr>])
           | None \<Rightarrow> Inr (q, refs, outs @ [\<lparr>oc_label = text_or alias (default_label (Suc i)),
               oc_kind = OutLiteral, oc_source = None, oc_binding = None\<rparr>]))))"

definition analyze_projections :: "node \<Rightarrow> binding list \<Rightarrow> projection_state result" where
  "analyze_projections q bindings =
     rfold (analyze_projection bindings) [0..<length (as_list (arg q ''expressions''))] (q, [], [])"

section \<open>Columns outside the projections\<close>

type_synonym refs_state = "node \<times> column_ref list"

text \<open>One round of a \<open>find_all(exp.Column)\<close> loop, with the way the column is resolved.\<close>

definition resolve_ref :: "(node \<Rightarrow> (binding \<times> string) result) \<Rightarrow> pos \<Rightarrow> refs_state
    \<Rightarrow> refs_state result" where
  "resolve_ref how p st = (case sub (fst st) p of
       None \<Rightarrow> Inr st
     | Some column \<Rightarrow>
         if nkind column \<noteq> KColumn then Inr st
         else rbind (how column) (\<lambda>(b, c).
           Inr (upd p (rewrite_column b c) (fst st),
             snd st @ [\<lparr>cr_node = p, cr_source = source_of b c\<rparr>])))"

definition resolve_refs_below :: "walker \<Rightarrow> (node \<Rightarrow> (binding \<times> string) result) \<Rightarrow> pos
    \<Rightarrow> refs_state \<Rightarrow> refs_state result" where
  "resolve_refs_below walk how p st =
     rfold (resolve_ref how) (find_all_at walk [KColumn] (fst st) p) st"

definition resolve_join :: "walker \<Rightarrow> binding list \<Rightarrow> nat \<Rightarrow> refs_state \<Rightarrow> refs_state result" where
  "resolve_join walk bindings i st =
     (let p = [(''joins'', i), (''on'', 0)] in
      if sub (fst st) p = None then Inl KeyError
      else resolve_refs_below walk (\<lambda>c. resolve c bindings) p st)"

text \<open>
  The column an unqualified \<open>ORDER BY\<close> name stands for: an output label comes first.
\<close>

definition resolve_order_column :: "binding list \<Rightarrow> output_column list \<Rightarrow> node
    \<Rightarrow> (binding \<times> string) result" where
  "resolve_order_column bindings outputs column =
     (let matches = filter (\<lambda>out. casefold (oc_label out) = casefold (node_name column)) outputs in
      if node_text column ''table'' = [] \<and> matches \<noteq> [] then
        (case oc_source (hd matches) of
           None \<Rightarrow> Inl (reject ORDER_OUTPUT_AMBIGUOUS)
         | Some source \<Rightarrow>
             rbind (raise_if (length matches \<noteq> 1) (reject ORDER_OUTPUT_AMBIGUOUS)) (\<lambda>_.
             case find (\<lambda>b. Some (bd_name b) = oc_binding (hd matches)) bindings of
               None \<Rightarrow> Inl StopIteration
             | Some b \<Rightarrow> Inr (b, src_column source)))
      else resolve column bindings)"

section \<open>The cross-check with SQLGlot's own qualification\<close>

text \<open>\<open>dict.fromkeys\<close>: each name once, at its first place.\<close>

definition distinct_names :: "string list \<Rightarrow> string list" where
  "distinct_names xs = rev (remdups (rev xs))"

definition qualify_catalog :: "table_schema list \<Rightarrow> dialect \<Rightarrow> qualify_schema" where
  "qualify_catalog schemas d =
     (if d_has_schema d then SchemaTables (fold (\<lambda>t cat.
          AList.update (ts_schema t)
            (AList.update (ts_name t) (distinct_names (ts_columns t))
              (case map_of cat (ts_schema t) of None \<Rightarrow> [] | Some ts \<Rightarrow> ts)) cat) schemas [])
      else FlatTables (fold (\<lambda>t cat.
          AList.update (ts_name t) (distinct_names (ts_columns t)) cat) schemas []))"

definition cross_check :: "sqlglot \<Rightarrow> node \<Rightarrow> table_schema list \<Rightarrow> dialect \<Rightarrow> unit result" where
  "cross_check lib q schemas d =
     rcatch (sg_qualify lib (d_name d @ '', normalization_strategy = case_sensitive'')
         (qualify_catalog schemas d) q)
       (\<lambda>e. if e = SqlglotError then Inl (reject QUALIFY_FAILED) else Inl e)"

section \<open>analyze_query\<close>

definition analyze_query :: "sqlglot \<Rightarrow> node \<Rightarrow> table_schema list \<Rightarrow> parser_limits \<Rightarrow> dialect
    \<Rightarrow> analyzed_query result" where
  "analyze_query lib query schemas lim d =
     (let walk = sg_walk lib in
      rbind (collect query schemas) (\<lambda>bindings.
      rbind (expand_stars query bindings) (\<lambda>expanded.
      rbind (check_limits walk expanded lim) (\<lambda>_.
      rbind (analyze_projections expanded bindings) (\<lambda>(projected, refs, outputs).
      rbind (rfold (resolve_join walk bindings) [0..<length (as_list (arg projected ''joins''))]
          (projected, refs)) (\<lambda>joined.
      rbind (if arg (fst joined) ''where'' = ANone then Inr joined
             else resolve_refs_below walk (\<lambda>c. resolve c bindings) [(''where'', 0)] joined) (\<lambda>filtered.
      rbind (if arg (fst filtered) ''order'' = ANone then Inr filtered
             else resolve_refs_below walk (resolve_order_column bindings outputs) [(''order'', 0)]
               filtered) (\<lambda>ordered.
      rbind (validate_allowlist walk (fst ordered) False) (\<lambda>_.
      rbind (cross_check lib (fst ordered) schemas d) (\<lambda>_.
      Inr \<lparr>an_query = fst ordered, an_outputs = outputs, an_references = snd ordered\<rparr>))))))))))"

section \<open>Laws of the bindings\<close>

lemma collect_binding_Inr:
  "collect_binding (n0, t) (seen, acc) = Inr st \<longleftrightarrow> (\<exists>n. n0 = Some n \<and>
     casefold (text_or (node_alias n) (ts_name t)) \<notin> set seen \<and>
     st = (casefold (text_or (node_alias n) (ts_name t)) # seen,
       acc @ [\<lparr>bd_name = text_or (node_alias n) (ts_name t), bd_table = t\<rparr>]))"
  by (cases n0) (auto simp: collect_binding_def text_or_def result_simps Let_def)

lemma rfold_collect_binding:
  assumes "rfold collect_binding nts (seen, acc) = Inr (seen', bs)"
    and "set seen = casefold ` bd_name ` set acc" and "distinct (map (casefold \<circ> bd_name) acc)"
  shows "map bd_table bs = map bd_table acc @ map snd nts"
    and "distinct (map (casefold \<circ> bd_name) bs)"
    and "map (Some \<circ> bd_name) bs = map (Some \<circ> bd_name) acc @
       map (\<lambda>(n, t). map_option (\<lambda>n. text_or (node_alias n) (ts_name t)) n) nts"
  using assms
proof (atomize (full), induction nts arbitrary: seen acc)
  case Nil
  then show ?case by simp
next
  case (Cons nt nts)
  obtain n0 t where nt: "nt = (n0, t)" by (cases nt)
  from Cons.prems(1) nt obtain n where n: "n0 = Some n"
    and new: "casefold (text_or (node_alias n) (ts_name t)) \<notin> set seen"
    and rest: "rfold collect_binding nts (casefold (text_or (node_alias n) (ts_name t)) # seen,
      acc @ [\<lparr>bd_name = text_or (node_alias n) (ts_name t), bd_table = t\<rparr>]) = Inr (seen', bs)"
    by (auto simp: rbind_eq_Inr_iff collect_binding_Inr)
  let ?b = "\<lparr>bd_name = text_or (node_alias n) (ts_name t), bd_table = t\<rparr>"
  have "set (casefold (bd_name ?b) # seen) = casefold ` bd_name ` set (acc @ [?b])"
    using Cons.prems(2) by auto
  moreover have "distinct (map (casefold \<circ> bd_name) (acc @ [?b]))"
    using Cons.prems(2,3) new by (auto simp: comp_def)
  ultimately show ?case
    using Cons.IH [of "casefold (bd_name ?b) # seen" "acc @ [?b]"] rest by (simp add: nt n comp_def)
qed

lemma collect_Inr:
  assumes "collect q schemas = Inr bs"
  shows "map bd_table bs = schemas" and "distinct (map (casefold \<circ> bd_name) bs)"
    and "length (from_nodes q) = length schemas"
    and "map (Some \<circ> bd_name) bs =
      map (\<lambda>(n, t). map_option (\<lambda>n. text_or (node_alias n) (ts_name t)) n) (zip (from_nodes q) schemas)"
proof -
  from assms obtain seen' where len: "length (from_nodes q) = length schemas"
    and fold: "rfold collect_binding (zip (from_nodes q) schemas) ([], []) = Inr (seen', bs)"
    by (auto simp: collect_def result_simps Let_def)
  from rfold_collect_binding [OF fold] len
  show "map bd_table bs = schemas" "distinct (map (casefold \<circ> bd_name) bs)"
    "length (from_nodes q) = length schemas"
    "map (Some \<circ> bd_name) bs =
      map (\<lambda>(n, t). map_option (\<lambda>n. text_or (node_alias n) (ts_name t)) n) (zip (from_nodes q) schemas)"
    by simp_all
qed

section \<open>Laws of resolution\<close>

lemma canonical_column_Some:
  "canonical_column b name = Some c \<longleftrightarrow>
     filter (\<lambda>c. casefold c = casefold name) (ts_columns (bd_table b)) = [c]"
  by (auto simp: canonical_column_def Let_def length_Suc_conv)

lemma canonical_column_in:
  assumes "canonical_column b name = Some c"
  shows "c \<in> set (ts_columns (bd_table b))" and "casefold c = casefold name"
proof -
  have "c \<in> set (filter (\<lambda>c. casefold c = casefold name) (ts_columns (bd_table b)))"
    using assms by (simp add: canonical_column_Some)
  then show "c \<in> set (ts_columns (bd_table b))" and "casefold c = casefold name" by auto
qed

lemma resolve_name_sound:
  assumes "resolve_name qualifier name bindings = Inr (b, c)"
  shows "b \<in> set bindings" and "canonical_column b name = Some c"
    and "qualifier \<noteq> [] \<Longrightarrow> filter (\<lambda>b. casefold (bd_name b) = casefold qualifier) bindings = [b]"
    and "qualifier = [] \<Longrightarrow>
      List.map_filter (\<lambda>b. map_option (\<lambda>c. (b, c)) (canonical_column b name)) bindings = [(b, c)]"
proof -
  have one: "\<exists>x. xs = [x]" if "length xs = Suc 0" for xs :: "'b list"
    using that by (cases xs) auto
  show q: "qualifier \<noteq> [] \<Longrightarrow> filter (\<lambda>b. casefold (bd_name b) = casefold qualifier) bindings = [b]"
    using assms by (auto simp: resolve_name_def result_simps Let_def split: option.splits
        dest!: one)
  show u: "qualifier = [] \<Longrightarrow>
      List.map_filter (\<lambda>b. map_option (\<lambda>c. (b, c)) (canonical_column b name)) bindings = [(b, c)]"
    using assms by (auto simp: resolve_name_def result_simps Let_def dest!: one)
  have "b \<in> set bindings \<and> canonical_column b name = Some c"
  proof (cases "qualifier = []")
    case True
    then have "(b, c) \<in> set (List.map_filter (\<lambda>b. map_option (\<lambda>c. (b, c)) (canonical_column b name)) bindings)"
      using u by simp
    then show ?thesis by (auto simp: List.map_filter_def)
  next
    case False
    with q have "b \<in> set (filter (\<lambda>b. casefold (bd_name b) = casefold qualifier) bindings)" by simp
    moreover have "canonical_column b name = Some c"
      using assms False q by (auto simp: resolve_name_def result_simps Let_def split: option.splits)
    ultimately show ?thesis by simp
  qed
  then show "b \<in> set bindings" and "canonical_column b name = Some c" by blast+
qed

end
