(* ===== verification/Lineage_Facts.thy ===== *)
theory Lineage_Facts
  imports Lineage
begin

text \<open>
  What the analysis of \<open>security/lineage.py\<close> guarantees: the rewriting relation between the
  star-expanded query and the analysed one, and the two invariants of its loops, that every
  visited column is recorded with the source it denotes and that every output says what its
  projected value is.
\<close>

section \<open>Columns that denote a source\<close>

definition resolves_to :: "binding list \<Rightarrow> binding \<Rightarrow> string \<Rightarrow> bool" where
  "resolves_to bs b c \<longleftrightarrow> b \<in> set bs \<and> canonical_column b c = Some c"

text \<open>A canonical reference to a column of a binding.\<close>

definition denotes :: "binding list \<Rightarrow> node \<Rightarrow> source_column \<Rightarrow> bool" where
  "denotes bs n src \<longleftrightarrow> nkind n = KColumn \<and> (\<exists>b c. resolves_to bs b c \<and>
     arg n ''this'' = ANode (to_identifier c) \<and>
     arg n ''table'' = ANode (to_identifier (bd_name b)) \<and> src = source_of b c)"

lemma resolve_name_resolves_to:
  assumes "resolve_name qualifier name bs = Inr (b, c)"
  shows "resolves_to bs b c"
proof -
  have "canonical_column b name = Some c" "b \<in> set bs"
    using resolve_name_sound [OF assms] by blast+
  moreover from this have "casefold c = casefold name" using canonical_column_in by blast
  ultimately show ?thesis by (simp add: resolves_to_def canonical_column_Some)
qed

lemma resolve_resolves_to: "resolve n bs = Inr (b, c) \<Longrightarrow> resolves_to bs b c"
  unfolding resolve_def by (rule resolve_name_resolves_to)

lemma nkind_rewrite_column [simp]: "nkind (rewrite_column b c n) = nkind n"
  by (simp add: rewrite_column_def)

lemma denotes_rewrite_column:
  "resolves_to bs b c \<Longrightarrow> nkind n = KColumn \<Longrightarrow> denotes bs (rewrite_column b c n) (source_of b c)"
  unfolding denotes_def by (intro conjI exI [of _ b] exI [of _ c]) (simp_all add: rewrite_column_def)

lemma to_identifier_inject [simp]: "to_identifier a = to_identifier b \<longleftrightarrow> a = b"
  by (simp add: to_identifier_def)

lemma denotes_unique:
  assumes "denotes bs n s" and "denotes bs n s'" and "distinct (map (casefold \<circ> bd_name) bs)"
  shows "s = s'"
proof -
  from assms(1,2) obtain b c b' c' where bc: "b \<in> set bs" "b' \<in> set bs" "bd_name b = bd_name b'"
    "s = source_of b c" "s' = source_of b' c'" "c = c'"
    by (auto simp: denotes_def resolves_to_def)
  with assms(3) have "b = b'" by (auto simp: distinct_map inj_on_def)
  with bc show ?thesis by simp
qed

section \<open>One rewritten column\<close>

text \<open>
  Rewriting the column at \<open>p\<close> makes no other column, and keeps what the others denote.
\<close>

lemma column_after_rewrite:
  assumes "sub t p = Some n0" and "nkind n0 = KColumn" and "q \<noteq> p"
    and "sub (upd p (rewrite_column b c) t) q = Some m" and "nkind m = KColumn"
  shows "\<exists>m'. sub t q = Some m' \<and> nkind m' = KColumn \<and> (\<forall>s. denotes bs m' s \<longrightarrow> denotes bs m s)"
proof (cases "prefix q p")
  case True
  with assms(3) obtain s r where p: "p = q @ s # r"
    by (metis append_Nil2 neq_Nil_conv prefixE)
  from assms(1) p obtain m' where m': "sub t q = Some m'" by (auto simp: sub_append split: option.splits)
  with assms(1) p have below: "sub m' (s # r) = Some n0" by (simp add: sub_append)
  then obtain k where k: "child m' s = Some k" "sub k r = Some n0" by (auto split: option.splits)
  have m: "m = set_child m' s (upd r (rewrite_column b c) k)"
    using assms(4) p m' k by (simp add: sub_upd_above)
  have "denotes bs m s'" if "denotes bs m' s'" for s'
  proof -
    have "fst s \<noteq> x" if "arg m' x = ANode (to_identifier v)" for x v
    proof
      assume "fst s = x"
      with that k(1) have "k = to_identifier v" by (auto simp: child_def split: if_splits)
      with k(2) assms(2) show False by (auto split: if_splits)
    qed
    then have "arg m x = arg m' x" if "arg m' x = ANode (to_identifier v)" for x v
      using that m by (metis arg_set_child)
    moreover have "nkind m = nkind m'" using m by simp
    ultimately show ?thesis using that unfolding denotes_def by metis
  qed
  moreover have "nkind m' = KColumn" using m assms(5) by simp
  ultimately show ?thesis using m' by blast
next
  case False
  show ?thesis
  proof (cases "prefix p q")
    case True
    with assms(3) obtain s r where q: "q = p @ s # r"
      by (metis append_Nil2 neq_Nil_conv prefixE)
    with assms(4) sub_upd_below [OF assms(1)] have "sub (rewrite_column b c n0) (s # r) = Some m"
      by simp
    then obtain k where k: "child (rewrite_column b c n0) s = Some k" "sub k r = Some m"
      by (auto split: option.splits)
    have "fst s \<noteq> ''this'' \<and> fst s \<noteq> ''table''"
    proof (rule ccontr)
      assume "\<not> ?thesis"
      with k(1) have "k = to_identifier c \<or> k = to_identifier (bd_name b)"
        by (auto simp: child_def rewrite_column_def split: if_splits)
      with k(2) assms(5) show False by (auto split: if_splits)
    qed
    then have "child n0 s = Some k"
      using k(1) child_cong [of "rewrite_column b c n0" s n0] by (simp add: rewrite_column_def)
    with k(2) q assms(1,5) show ?thesis by (simp add: sub_append)
  next
    case not: False
    with False assms(4,5) show ?thesis by (simp add: sub_upd_disjoint)
  qed
qed

lemma column_survives_rewrite:
  assumes "sub t p = Some n0" and "nkind n0 = KColumn" and "\<not> prefix p q"
    and "sub t q = Some m" and "denotes bs m s"
  shows "\<exists>m'. sub (upd p (rewrite_column b c) t) q = Some m' \<and> denotes bs m' s"
proof (cases "prefix q p")
  case False
  with assms show ?thesis by (simp add: sub_upd_disjoint)
next
  case True
  then obtain r where p: "p = q @ r" by (auto elim: prefixE)
  with assms(4) have after: "sub (upd p (rewrite_column b c) t) q = Some (upd r (rewrite_column b c) m)"
    by (simp add: sub_upd_above)
  have "q \<noteq> p" using assms(3) by auto
  have "nkind (upd r (rewrite_column b c) m) = KColumn"
    using assms(5) by (cases r) (auto simp: denotes_def split: option.splits)
  from column_after_rewrite [OF assms(1,2) \<open>q \<noteq> p\<close> after this, of bs] assms(4,5) after
  show ?thesis by auto
qed

section \<open>Queries that differ in rewritten columns\<close>

text \<open>
  \<open>rewritten bs P t t'\<close>: \<open>t'\<close> is \<open>t\<close> with columns at positions satisfying \<open>P\<close>
  replaced by canonical references to columns of the bindings, and nothing else changed.
\<close>

inductive rewritten :: "binding list \<Rightarrow> (pos \<Rightarrow> bool) \<Rightarrow> node \<Rightarrow> node \<Rightarrow> bool"
  for bs :: "binding list" and P :: "pos \<Rightarrow> bool" and t :: node where
  rewritten_refl: "rewritten bs P t t"
| rewritten_step: "rewritten bs P t u \<Longrightarrow> P p \<Longrightarrow> sub u p = Some n \<Longrightarrow> nkind n = KColumn \<Longrightarrow>
    resolves_to bs b c \<Longrightarrow> rewritten bs P t (upd p (rewrite_column b c) u)"

lemma rewritten_trans: "rewritten bs P u v \<Longrightarrow> rewritten bs P t u \<Longrightarrow> rewritten bs P t v"
  by (induction rule: rewritten.induct) (auto intro: rewritten.intros)

lemma rewritten_mono: "rewritten bs P t u \<Longrightarrow> (\<And>p. P p \<Longrightarrow> Q p) \<Longrightarrow> rewritten bs Q t u"
  by (induction rule: rewritten.induct) (auto intro: rewritten.intros)

lemma rewritten_column:
  "rewritten bs P t u \<Longrightarrow> kind_at u q = Some KColumn \<Longrightarrow> kind_at t q = Some KColumn"
proof (induction rule: rewritten.induct)
  case rewritten_refl
  then show ?case .
next
  case (rewritten_step u p n b c)
  show ?case
  proof (cases "q = p")
    case True
    with rewritten_step show ?thesis by (simp add: kind_at_def)
  next
    case False
    from rewritten_step.prems obtain m where "sub (upd p (rewrite_column b c) u) q = Some m" "nkind m = KColumn"
      by (auto simp: kind_at_def)
    from column_after_rewrite [OF rewritten_step.hyps(3,4) False this]
    have "kind_at u q = Some KColumn" by (auto simp: kind_at_def)
    then show ?thesis by (rule rewritten_step.IH)
  qed
qed

lemma kind_at_child_rewrite:
  assumes "p \<noteq> []"
  shows "kind_at (upd p (rewrite_column b c) t) [s] = kind_at t [s]"
proof (cases "prefix [s] p")
  case True
  show ?thesis
  proof (cases "p = [s]")
    case True
    then show ?thesis by (auto simp: kind_at_def child_set_child_same split: option.splits)
  next
    case False
    with True show ?thesis by (intro kind_at_upd_above) (simp add: strict_prefix_def)
  qed
next
  case False
  moreover have "\<not> prefix p [s]"
    using False assms by (metis append_Nil append_self_conv2 prefix_snoc prefix_Nil prefix_order.refl)
  ultimately show ?thesis unfolding kind_at_def by (metis sub_upd_disjoint)
qed

lemma length_arg_upd:
  "p \<noteq> [] \<Longrightarrow> length (as_list (arg (upd p f t) k)) = length (as_list (arg t k))"
  by (cases p) (auto simp: arg_set_child split: option.splits argval.splits)

lemma arg_upd_none: "p \<noteq> [] \<Longrightarrow> arg (upd p f t) k = ANone \<longleftrightarrow> arg t k = ANone"
  by (cases p) (auto simp: arg_set_child split: option.splits argval.splits)

lemma nkind_upd: "p \<noteq> [] \<Longrightarrow> nkind (upd p f t) = nkind t"
  by (cases p) (auto split: option.splits)

text \<open>Below the root, the shape of the query stays.\<close>

lemma rewritten_shape:
  assumes "rewritten bs P t u" and "\<not> P []"
  shows "kind_at u [s] = kind_at t [s]"
    and "length (as_list (arg u k)) = length (as_list (arg t k))"
    and "arg u k = ANone \<longleftrightarrow> arg t k = ANone" and "nkind u = nkind t"
proof -
  have "kind_at u [s] = kind_at t [s] \<and> length (as_list (arg u k)) = length (as_list (arg t k)) \<and>
      (arg u k = ANone \<longleftrightarrow> arg t k = ANone) \<and> nkind u = nkind t"
    using assms
  proof (induction rule: rewritten.induct)
    case (rewritten_step u p n b c)
    then have "p \<noteq> []" by auto
    with rewritten_step show ?case
      by (simp add: kind_at_child_rewrite length_arg_upd arg_upd_none nkind_upd)
  qed simp
  then show "kind_at u [s] = kind_at t [s]"
    and "length (as_list (arg u k)) = length (as_list (arg t k))"
    and "arg u k = ANone \<longleftrightarrow> arg t k = ANone" and "nkind u = nkind t" by blast+
qed

text \<open>A column that no rewritten position is above still denotes its source.\<close>

lemma rewritten_denotes:
  assumes "rewritten bs P t u" and "\<And>p. P p \<Longrightarrow> \<not> prefix p q"
    and "sub t q = Some m" and "denotes bs m s"
  shows "\<exists>m'. sub u q = Some m' \<and> denotes bs m' s"
  using assms(1)
proof (induction rule: rewritten.induct)
  case rewritten_refl
  from assms(3,4) show ?case by blast
next
  case (rewritten_step u p n b c)
  then show ?case using column_survives_rewrite assms(2) by blast
qed

section \<open>Every visited column is recorded\<close>

definition covers :: "binding list \<Rightarrow> pos set \<Rightarrow> node \<Rightarrow> column_ref list \<Rightarrow> bool" where
  "covers bs S q refs \<longleftrightarrow> (\<forall>p \<in> S. \<forall>n. sub q p = Some n \<longrightarrow> nkind n = KColumn \<longrightarrow>
     (\<exists>r \<in> set refs. cr_node r = p \<and> denotes bs n (cr_source r)))"

lemma covers_step:
  assumes "covers bs S q refs" and "sub q p = Some n" and "nkind n = KColumn" and "resolves_to bs b c"
  shows "covers bs (insert p S) (upd p (rewrite_column b c) q)
    (refs @ [\<lparr>cr_node = p, cr_source = source_of b c\<rparr>])"
  unfolding covers_def
proof (intro ballI allI impI)
  fix x m
  assume x: "x \<in> insert p S" and m: "sub (upd p (rewrite_column b c) q) x = Some m" "nkind m = KColumn"
  let ?refs = "refs @ [\<lparr>cr_node = p, cr_source = source_of b c\<rparr>]"
  show "\<exists>r \<in> set ?refs. cr_node r = x \<and> denotes bs m (cr_source r)"
  proof (cases "x = p")
    case True
    with m(1) assms(2) have "m = rewrite_column b c n" by (simp add: sub_upd_same)
    with True assms(3,4) show ?thesis by (auto simp: denotes_rewrite_column)
  next
    case False
    from column_after_rewrite [OF assms(2,3) False m, of bs] obtain m' where m':
      "sub q x = Some m'" "nkind m' = KColumn" "\<And>s. denotes bs m' s \<Longrightarrow> denotes bs m s" by blast
    with assms(1) x False obtain r where "r \<in> set refs" "cr_node r = x" "denotes bs m' (cr_source r)"
      unfolding covers_def by blast
    with m'(3) show ?thesis by auto
  qed
qed

lemma covers_insert:
  assumes "covers bs S q refs" and "kind_at q p \<noteq> Some KColumn"
  shows "covers bs (insert p S) q refs"
  using assms by (auto simp: covers_def kind_at_def)

lemma covers_weaken:
  assumes "covers bs S q refs" and "\<And>p. p \<in> T \<Longrightarrow> kind_at q p = Some KColumn \<Longrightarrow> p \<in> S"
  shows "covers bs T q refs"
  using assms by (auto simp: covers_def kind_at_def)

text \<open>A resolution function is sound when it only finds columns of the bindings.\<close>

definition sound_resolution :: "binding list \<Rightarrow> (node \<Rightarrow> (binding \<times> string) result) \<Rightarrow> bool" where
  "sound_resolution bs how \<longleftrightarrow> (\<forall>n b c. how n = Inr (b, c) \<longrightarrow> resolves_to bs b c)"

lemma sound_resolve: "sound_resolution bs (\<lambda>n. resolve n bs)"
  by (auto simp: sound_resolution_def intro: resolve_resolves_to)

lemma resolve_ref_step:
  assumes "sound_resolution bs how" and "resolve_ref how p (q, refs) = Inr (q', refs')"
    and "covers bs S q refs"
  shows "rewritten bs ((=) p) q q' \<and> covers bs (insert p S) q' refs'"
proof (cases "kind_at q p = Some KColumn")
  case True
  then obtain n where n: "sub q p = Some n" "nkind n = KColumn" by (auto simp: kind_at_def)
  with assms(2) obtain b c where "how n = Inr (b, c)" and st: "q' = upd p (rewrite_column b c) q"
    "refs' = refs @ [\<lparr>cr_node = p, cr_source = source_of b c\<rparr>]"
    by (auto simp: resolve_ref_def result_simps)
  with assms(1) have "resolves_to bs b c" by (auto simp: sound_resolution_def)
  with st n assms(3) show ?thesis
    by (auto intro: covers_step rewritten_step rewritten_refl)
next
  case False
  with assms(2) have "q' = q \<and> refs' = refs"
    by (auto simp: resolve_ref_def kind_at_def split: option.splits if_splits)
  with False assms(3) show ?thesis by (auto intro: covers_insert rewritten_refl)
qed

lemma rfold_resolve_ref:
  assumes "sound_resolution bs how" and "rfold (resolve_ref how) ps (q, refs) = Inr (q', refs')"
    and "covers bs S q refs"
  shows "rewritten bs (\<lambda>x. x \<in> set ps) q q' \<and> covers bs (S \<union> set ps) q' refs'"
  using assms(2,3)
proof (induction ps arbitrary: q refs S)
  case Nil
  then show ?case by (auto intro: rewritten_refl)
next
  case (Cons p ps)
  from Cons.prems(1) obtain q1 refs1 where one: "resolve_ref how p (q, refs) = Inr (q1, refs1)"
    and rest: "rfold (resolve_ref how) ps (q1, refs1) = Inr (q', refs')"
    by (auto simp: result_simps)
  from resolve_ref_step [OF assms(1) one Cons.prems(2)]
  have first: "rewritten bs ((=) p) q q1" "covers bs (insert p S) q1 refs1" by blast+
  from Cons.IH [OF rest first(2)]
  have "rewritten bs (\<lambda>x. x \<in> set ps) q1 q'" "covers bs (insert p S \<union> set ps) q' refs'" by blast+
  moreover have "rewritten bs (\<lambda>x. x \<in> set (p # ps)) q q1"
    using first(1) by (rule rewritten_mono) auto
  ultimately show ?case
    using rewritten_trans [of bs "\<lambda>x. x \<in> set (p # ps)" q1 q' q] rewritten_mono
    by (metis (mono_tags, lifting) Un_insert_left Un_insert_right list.set_intros(2) list.simps(15))
qed

lemma resolve_refs_below_step:
  assumes "walk_ok walk" and "sound_resolution bs how"
    and "resolve_refs_below walk how p (q, refs) = Inr (q', refs')" and "covers bs S q refs"
  shows "rewritten bs (prefix p) q q' \<and> covers bs (S \<union> {x. prefix p x}) q' refs'"
proof -
  let ?ps = "find_all_at walk [KColumn] q p"
  have set: "set ?ps = {x. prefix p x \<and> kind_at q x = Some KColumn}"
    by (auto simp: set_find_all_at [OF assms(1)] prefix_def)
  have fold: "rewritten bs (\<lambda>x. x \<in> set ?ps) q q'" "covers bs (S \<union> set ?ps) q' refs'"
    using rfold_resolve_ref [OF assms(2) _ assms(4)] assms(3) by (auto simp: resolve_refs_below_def)
  have "rewritten bs (prefix p) q q'" using fold(1) by (rule rewritten_mono) (simp add: set)
  moreover have "covers bs (S \<union> {x. prefix p x}) q' refs'"
    using fold(2) by (rule covers_weaken) (use rewritten_column [OF fold(1)] set in auto)
  ultimately show ?thesis by blast
qed

text \<open>The positions of the \<open>ON\<close> conditions.\<close>

definition below_on :: "nat set \<Rightarrow> pos \<Rightarrow> bool" where
  "below_on I x \<longleftrightarrow> (\<exists>i \<in> I. prefix [(''joins'', i), (''on'', 0)] x)"

lemma resolve_join_Inr:
  "resolve_join walk bs j st = Inr st' \<Longrightarrow>
     resolve_refs_below walk (\<lambda>c. resolve c bs) [(''joins'', j), (''on'', 0)] st = Inr st'"
  by (simp add: resolve_join_def Let_def del: sub.simps split: if_splits)

lemma rfold_resolve_join:
  assumes "walk_ok walk" and "rfold (resolve_join walk bs) js (q, refs) = Inr (q', refs')"
    and "covers bs S q refs"
  shows "rewritten bs (below_on (set js)) q q' \<and> covers bs (S \<union> {x. below_on (set js) x}) q' refs'"
  using assms(2,3)
proof (induction js arbitrary: q refs S)
  case Nil
  then show ?case by (auto simp: below_on_def intro: rewritten_refl)
next
  case (Cons j js)
  let ?p = "[(''joins'', j), (''on'', 0)]"
  from Cons.prems(1) obtain q1 refs1 where "resolve_join walk bs j (q, refs) = Inr (q1, refs1)"
    and rest: "rfold (resolve_join walk bs) js (q1, refs1) = Inr (q', refs')"
    by (auto simp: result_simps)
  from resolve_join_Inr [OF this(1)]
  have one: "resolve_refs_below walk (\<lambda>c. resolve c bs) ?p (q, refs) = Inr (q1, refs1)" .
  note first = resolve_refs_below_step [OF assms(1) sound_resolve one Cons.prems(2)]
  note others = Cons.IH [OF rest conjunct2 [OF first]]
  have "rewritten bs (below_on (set (j # js))) q q1"
    using conjunct1 [OF first] by (rule rewritten_mono) (auto simp: below_on_def)
  moreover have "rewritten bs (below_on (set (j # js))) q1 q'"
    using conjunct1 [OF others] by (rule rewritten_mono) (auto simp: below_on_def)
  moreover have "covers bs (S \<union> {x. below_on (set (j # js)) x}) q' refs'"
    using conjunct2 [OF others] by (rule covers_weaken) (auto simp: below_on_def)
  ultimately show ?case using rewritten_trans by blast
qed

section \<open>Every column is recorded once\<close>

definition placed :: "(pos \<Rightarrow> bool) \<Rightarrow> column_ref list \<Rightarrow> bool" where
  "placed S refs \<longleftrightarrow> distinct (map cr_node refs) \<and> (\<forall>r \<in> set refs. S (cr_node r))"

lemma placed_mono: "placed S refs \<Longrightarrow> (\<And>p. S p \<Longrightarrow> T p) \<Longrightarrow> placed T refs"
  by (auto simp: placed_def)

lemma placed_snoc: "placed S refs \<Longrightarrow> \<not> S (cr_node r) \<Longrightarrow> placed (\<lambda>x. S x \<or> x = cr_node r) (refs @ [r])"
  by (auto simp: placed_def)

lemma rfold_resolve_ref_placed:
  assumes "rfold (resolve_ref how) ps st = Inr st'" and "placed S (snd st)" and "distinct ps"
    and "\<And>p. p \<in> set ps \<Longrightarrow> \<not> S p"
  shows "placed (\<lambda>x. S x \<or> x \<in> set ps) (snd st')"
  using assms
proof (induction ps arbitrary: st S)
  case Nil
  then show ?case by simp
next
  case (Cons p ps)
  from Cons.prems(1) obtain st1 where one: "resolve_ref how p st = Inr st1"
    and rest: "rfold (resolve_ref how) ps st1 = Inr st'" by (auto simp: result_simps)
  from one have "snd st1 = snd st \<or> (\<exists>s. snd st1 = snd st @ [\<lparr>cr_node = p, cr_source = s\<rparr>])"
    by (auto simp: resolve_ref_def result_simps split: option.splits if_splits)
  with Cons.prems(2,4) have "placed (\<lambda>x. S x \<or> x = p) (snd st1)"
    using placed_mono [OF Cons.prems(2)] placed_snoc [OF Cons.prems(2), of "\<lparr>cr_node = p, cr_source = s\<rparr>" for s]
    by auto
  from Cons.IH [OF rest this] Cons.prems(3,4) show ?case
    by (auto intro: placed_mono)
qed

lemma resolve_refs_below_placed:
  assumes "walk_ok walk" and "resolve_refs_below walk how p st = Inr st'" and "placed S (snd st)"
    and "\<And>x. prefix p x \<Longrightarrow> \<not> S x"
  shows "placed (\<lambda>x. S x \<or> prefix p x) (snd st')"
proof -
  let ?ps = "find_all_at walk [KColumn] (fst st) p"
  have "distinct ?ps"
    by (auto simp: find_all_at_def distinct_map inj_on_def distinct_find_all [OF assms(1)] split: option.splits)
  moreover have pre: "prefix p x" if "x \<in> set ?ps" for x
    using that by (auto simp: set_find_all_at [OF assms(1)])
  ultimately have "placed (\<lambda>x. S x \<or> x \<in> set ?ps) (snd st')"
    using rfold_resolve_ref_placed [OF assms(2) [unfolded resolve_refs_below_def] assms(3)] assms(4) by blast
  then show ?thesis by (rule placed_mono) (use pre in auto)
qed

lemma rfold_resolve_join_placed:
  assumes "walk_ok walk" and "rfold (resolve_join walk bs) js st = Inr st'" and "placed S (snd st)"
    and "distinct js" and "\<And>x. below_on (set js) x \<Longrightarrow> \<not> S x"
  shows "placed (\<lambda>x. S x \<or> below_on (set js) x) (snd st')"
  using assms(2-5)
proof (induction js arbitrary: st S)
  case Nil
  then show ?case by (auto simp: below_on_def)
next
  case (Cons j js)
  let ?p = "[(''joins'', j), (''on'', 0)]"
  from Cons.prems(1) obtain st1 where "resolve_join walk bs j st = Inr st1"
    and rest: "rfold (resolve_join walk bs) js st1 = Inr st'" by (auto simp: result_simps)
  from resolve_join_Inr [OF this(1)] Cons.prems(2,4)
  have one: "placed (\<lambda>x. S x \<or> prefix ?p x) (snd st1)"
    by (rule resolve_refs_below_placed [OF assms(1)]) (auto simp: below_on_def)
  have "\<not> prefix ?p x" if "below_on (set js) x" for x
    using that Cons.prems(3) by (auto simp: below_on_def prefix_def)
  moreover have "\<not> S x" if "below_on (set js) x" for x
    using that Cons.prems(4) by (auto simp: below_on_def)
  ultimately have "placed (\<lambda>x. (S x \<or> prefix ?p x) \<or> below_on (set js) x) (snd st')"
    using Cons.IH [OF rest one] Cons.prems(3) by auto
  then show ?case by (rule placed_mono) (auto simp: below_on_def)
qed

section \<open>Every output says what its projected value is\<close>

text \<open>The position of the value of projection \<open>i\<close>, the operand where it is an alias.\<close>

definition value_at :: "node \<Rightarrow> nat \<Rightarrow> pos" where
  "value_at q i = (if kind_at q (projection_pos i) = Some KAlias
     then projection_pos i @ [(''this'', 0)] else projection_pos i)"

lemma value_pos_value_at: "sub q (projection_pos i) = Some n \<Longrightarrow> value_pos n i = value_at q i"
  by (simp add: value_pos_def value_at_def kind_at_def)

lemma value_at_step: "\<exists>r. value_at q i = (''expressions'', i) # r"
  by (simp add: value_at_def projection_pos_def)

lemma value_at_nonempty [simp]: "value_at q i \<noteq> []"
  using value_at_step [of q i] by auto

lemma value_at_inj: "value_at q i = value_at q' j \<Longrightarrow> i = j"
  using value_at_step [of q i] value_at_step [of q' j] by auto

lemma value_at_rewritten:
  assumes "rewritten bs P q q'" and "\<not> P []"
  shows "value_at q' i = value_at q i"
  by (simp add: value_at_def projection_pos_def rewritten_shape [OF assms])

text \<open>An output with a source was read through a binding that has that column.\<close>

definition output_bound :: "binding list \<Rightarrow> output_column \<Rightarrow> bool" where
  "output_bound bs out \<longleftrightarrow> (\<forall>s. oc_source out = Some s \<longrightarrow>
     (\<exists>b c. resolves_to bs b c \<and> s = source_of b c \<and> oc_binding out = Some (bd_name b)))"

definition output_matches :: "binding list \<Rightarrow> node \<Rightarrow> nat \<Rightarrow> output_column \<Rightarrow> bool" where
  "output_matches bs q i out \<longleftrightarrow> output_bound bs out \<and>
     (if kind_at q (value_at q i) = Some KColumn
      then \<exists>n s. sub q (value_at q i) = Some n \<and> oc_source out = Some s \<and> denotes bs n s
      else oc_source out = None)"

lemma output_matches_rewritten:
  assumes "output_matches bs q i out" and "rewritten bs P q q'"
    and "\<And>p. P p \<Longrightarrow> \<not> prefix p (value_at q i)"
  shows "output_matches bs q' i out"
proof -
  have "\<not> P []" using assms(3) [of "[]"] by auto
  note vp = value_at_rewritten [OF assms(2) this, of i]
  show ?thesis
  proof (cases "kind_at q (value_at q i) = Some KColumn")
    case True
    then obtain n s where n: "sub q (value_at q i) = Some n" "oc_source out = Some s" "denotes bs n s"
      using assms(1) by (auto simp: output_matches_def)
    from rewritten_denotes [OF assms(2,3) n(1,3)] obtain n' where n': "sub q' (value_at q i) = Some n'" "denotes bs n' s"
      by blast
    then have "kind_at q' (value_at q i) = Some KColumn" by (simp add: kind_at_def denotes_def)
    with n(2) n' assms(1) vp show ?thesis by (auto simp: output_matches_def)
  next
    case False
    with rewritten_column [OF assms(2)] have "kind_at q' (value_at q i) \<noteq> Some KColumn" by blast
    with False assms(1) vp show ?thesis by (simp add: output_matches_def)
  qed
qed

definition outputs_match :: "binding list \<Rightarrow> node \<Rightarrow> output_column list \<Rightarrow> bool" where
  "outputs_match bs q outs \<longleftrightarrow> (\<forall>i < length outs. output_matches bs q i (outs ! i))"

lemma outputs_match_rewritten:
  assumes "outputs_match bs q outs" and "rewritten bs P q q'"
    and "\<And>p i. P p \<Longrightarrow> i < length outs \<Longrightarrow> \<not> prefix p (value_at q i)"
  shows "outputs_match bs q' outs"
  unfolding outputs_match_def
proof (intro allI impI)
  fix i assume i: "i < length outs"
  with assms(1) have "output_matches bs q i (outs ! i)" by (simp add: outputs_match_def)
  then show "output_matches bs q' i (outs ! i)"
    using output_matches_rewritten [OF _ assms(2)] assms(3) i by blast
qed

lemma outputs_match_snoc:
  "outputs_match bs q outs \<Longrightarrow> output_matches bs q (length outs) out \<Longrightarrow> outputs_match bs q (outs @ [out])"
  by (auto simp: outputs_match_def nth_append less_Suc_eq)

definition below_projections :: "pos \<Rightarrow> bool" where
  "below_projections p \<longleftrightarrow> (\<exists>i r. p = (''expressions'', i) # r)"

lemma analyze_projection_step:
  assumes "analyze_projection bs i (q, refs, outs) = Inr (q', refs', outs')"
    and "i < length (as_list (arg q ''expressions''))" and "length outs = i"
    and "covers bs (value_at q ` {..<i}) q refs" and "outputs_match bs q outs"
    and "placed (\<lambda>x. \<exists>j < i. x = value_at q j) refs"
  shows "rewritten bs below_projections q q' \<and> length outs' = Suc i \<and>
    covers bs (value_at q' ` {..<Suc i}) q' refs' \<and> outputs_match bs q' outs' \<and>
    placed (\<lambda>x. \<exists>j < Suc i. x = value_at q' j) refs'"
proof -
  from assms(2) obtain n where n: "sub q (projection_pos i) = Some n"
    by (cases "arg q ''expressions''") (auto simp: projection_pos_def child_def)
  note vp = value_pos_value_at [OF n]
  show ?thesis
  proof (cases "kind_at q (value_at q i) = Some KColumn")
    case True
    then obtain v where v: "sub q (value_at q i) = Some v" "nkind v = KColumn" by (auto simp: kind_at_def)
    obtain b c where bc: "resolve v bs = Inr (b, c)" "q' = upd (value_at q i) (rewrite_column b c) q"
      "refs' = refs @ [\<lparr>cr_node = value_at q i, cr_source = source_of b c\<rparr>]"
      "\<exists>l. outs' = outs @ [\<lparr>oc_label = l, oc_kind = OutColumn, oc_source = Some (source_of b c),
        oc_binding = Some (bd_name b)\<rparr>]"
      using assms(1) n v vp by (auto simp: analyze_projection_def Let_def result_simps simp del: sub.simps)
    have res: "resolves_to bs b c" using bc(1) by (rule resolve_resolves_to)
    have rw: "rewritten bs ((=) (value_at q i)) q q'"
      using rewritten_step [OF rewritten_refl _ v res, of "(=) (value_at q i)"] bc(2) by simp
    have same: "value_at q' j = value_at q j" for j
      by (rule value_at_rewritten [OF rw]) simp
    have "covers bs (insert (value_at q i) (value_at q ` {..<i})) q' refs'"
      using covers_step [OF assms(4) v res] bc(2,3) by simp
    then have cov: "covers bs (value_at q' ` {..<Suc i}) q' refs'"
      by (simp add: same lessThan_Suc)
    have old: "outputs_match bs q' outs"
    proof (rule outputs_match_rewritten [OF assms(5) rw])
      fix p j assume "value_at q i = p" and "j < length outs"
      then show "\<not> prefix p (value_at q j)"
        using value_at_step [of q i] value_at_step [of q j] assms(3) by auto
    qed
    have at: "sub q' (value_at q i) = Some (rewrite_column b c v)"
      using v(1) bc(2) by (simp add: sub_upd_same)
    then have "output_matches bs q' i (last outs')"
      using bc(4) res v(2) same
      by (auto simp: output_matches_def output_bound_def kind_at_def denotes_rewrite_column
          intro!: exI [of _ b] exI [of _ c])
    then have "outputs_match bs q' outs'" "length outs' = Suc i"
      using outputs_match_snoc [OF old] bc(4) assms(3) by auto
    moreover have "rewritten bs below_projections q q'"
      using rw by (rule rewritten_mono) (use value_at_step [of q i] in \<open>auto simp: below_projections_def\<close>)
    moreover have "placed (\<lambda>x. \<exists>j < Suc i. x = value_at q' j) refs'"
    proof -
      have "\<not> (\<exists>j < i. value_at q i = value_at q j)" using value_at_inj by blast
      with placed_snoc [OF assms(6), of "\<lparr>cr_node = value_at q i, cr_source = source_of b c\<rparr>"] bc(3)
      have "placed (\<lambda>x. (\<exists>j < i. x = value_at q j) \<or> x = value_at q i) refs'" by simp
      then show ?thesis by (rule placed_mono) (auto simp: same less_Suc_eq)
    qed
    ultimately show ?thesis using cov by blast
  next
    case False
    then have st: "q' = q" "refs' = refs"
      "\<exists>out. outs' = outs @ [out] \<and> oc_source out = None"
      using assms(1) n vp
      by (auto simp: analyze_projection_def Let_def kind_at_def simp del: sub.simps
          split: option.splits if_splits)
    have "covers bs (value_at q ` {..<Suc i}) q refs"
      using covers_insert [OF assms(4) False] by (simp add: lessThan_Suc)
    moreover have "output_matches bs q i (last outs')"
      using st(3) False by (auto simp: output_matches_def output_bound_def)
    moreover have "placed (\<lambda>x. \<exists>j < Suc i. x = value_at q j) refs"
      using assms(6) by (rule placed_mono) (auto intro: less_SucI)
    ultimately show ?thesis
      using st outputs_match_snoc [OF assms(5)] assms(3) by (auto intro: rewritten_refl)
  qed
qed

lemma rfold_analyze_projection:
  assumes "rfold (analyze_projection bs) [i..<m] (q, refs, outs) = Inr (q', refs', outs')"
    and "i \<le> m" and "m = length (as_list (arg q ''expressions''))" and "length outs = i"
    and "covers bs (value_at q ` {..<i}) q refs" and "outputs_match bs q outs"
    and "placed (\<lambda>x. \<exists>j < i. x = value_at q j) refs"
  shows "rewritten bs below_projections q q' \<and> length outs' = m \<and>
    covers bs (value_at q' ` {..<m}) q' refs' \<and> outputs_match bs q' outs' \<and>
    placed (\<lambda>x. \<exists>j < m. x = value_at q' j) refs'"
  using assms
proof (induction "m - i" arbitrary: i q refs outs)
  case 0
  then show ?case by (auto intro: rewritten_refl)
next
  case (Suc k)
  then have i: "i < m" by simp
  with Suc.prems(1) obtain q1 refs1 outs1 where
    one: "analyze_projection bs i (q, refs, outs) = Inr (q1, refs1, outs1)"
    and rest: "rfold (analyze_projection bs) [Suc i..<m] (q1, refs1, outs1) = Inr (q', refs', outs')"
    by (auto simp: upt_conv_Cons result_simps)
  from analyze_projection_step [OF one _ Suc.prems(4-7)] i Suc.prems(3)
  have step: "rewritten bs below_projections q q1" "length outs1 = Suc i"
    "covers bs (value_at q1 ` {..<Suc i}) q1 refs1" "outputs_match bs q1 outs1"
    "placed (\<lambda>x. \<exists>j < Suc i. x = value_at q1 j) refs1" by simp_all
  have "\<not> below_projections []" by (simp add: below_projections_def)
  from rewritten_shape(2) [OF step(1) this] Suc.prems(3)
  have m: "m = length (as_list (arg q1 ''expressions''))" by simp
  have "k = m - Suc i" "Suc i \<le> m" using Suc.hyps(2) i by simp_all
  from Suc.hyps(1) [OF this(1) rest this(2) m step(2-5)] rewritten_trans step(1)
  show ?case by blast
qed

section \<open>The analysed query\<close>

lemma rfold_sound_order:
  assumes "outputs_match bs q outs" and "distinct (map (casefold \<circ> bd_name) bs)"
  shows "sound_resolution bs (resolve_order_column bs outs)"
  unfolding sound_resolution_def
proof (intro allI impI)
  fix n b c assume r: "resolve_order_column bs outs n = Inr (b, c)"
  let ?ms = "filter (\<lambda>out. casefold (oc_label out) = casefold (node_name n)) outs"
  show "resolves_to bs b c"
  proof (cases "node_text n ''table'' = [] \<and> ?ms \<noteq> []")
    case False
    with r have "resolve n bs = Inr (b, c)" by (simp add: resolve_order_column_def)
    then show ?thesis by (rule resolve_resolves_to)
  next
    case True
    with r obtain s where s: "oc_source (hd ?ms) = Some s"
      and find: "find (\<lambda>b. Some (bd_name b) = oc_binding (hd ?ms)) bs = Some b" "c = src_column s"
      by (auto simp: resolve_order_column_def result_simps Let_def split: option.splits)
    from True have "hd ?ms \<in> set outs" by (metis filter_is_subset hd_in_set subsetD)
    then obtain i where "i < length outs" "hd ?ms = outs ! i" by (metis in_set_conv_nth)
    with assms(1) have "output_bound bs (hd ?ms)"
      by (simp add: outputs_match_def output_matches_def)
    with s obtain b' c' where b': "resolves_to bs b' c'" "s = source_of b' c'"
      "oc_binding (hd ?ms) = Some (bd_name b')" by (auto simp: output_bound_def)
    from find(1) have "b \<in> set bs" "Some (bd_name b) = oc_binding (hd ?ms)"
      by (auto simp: find_Some_iff)
    with b' assms(2) have "b = b'" by (auto simp: distinct_map inj_on_def resolves_to_def)
    with b' find(2) show ?thesis by (simp add: source_of_def)
  qed
qed

text \<open>
  The positions the analysis visits: the projected values, and everything below the \<open>ON\<close>
  conditions, \<open>WHERE\<close> and \<open>ORDER BY\<close>.
\<close>

definition visited :: "node \<Rightarrow> pos \<Rightarrow> bool" where
  "visited q p \<longleftrightarrow>
     (\<exists>i < length (as_list (arg q ''expressions'')). p = value_at q i) \<or>
     below_on {..<length (as_list (arg q ''joins''))} p \<or>
     prefix [(''where'', 0)] p \<or> prefix [(''order'', 0)] p"

definition anywhere :: "pos \<Rightarrow> bool" where
  "anywhere p \<longleftrightarrow> below_projections p \<or> (\<exists>I. below_on I p) \<or>
     prefix [(''where'', 0)] p \<or> prefix [(''order'', 0)] p"

lemma anywhere_nonempty: "\<not> anywhere []"
  by (simp add: anywhere_def below_projections_def below_on_def)

lemma not_prefix_value_at:
  assumes "prefix (s # r) p" and "fst s \<noteq> ''expressions''"
  shows "\<not> prefix p (value_at q i)"
proof
  assume "prefix p (value_at q i)"
  with assms(1) have "prefix (s # r) (value_at q i)" by (rule prefix_order.trans)
  with value_at_step [of q i] assms(2) show False by auto
qed

lemma sub_arg_none: "arg q k = ANone \<Longrightarrow> prefix [(k, i)] p \<Longrightarrow> sub q p = None"
  by (auto simp: prefix_def child_def)

lemma refs_clause_placed:
  assumes "walk_ok walk"
    and "(if arg q k = ANone then Inr (q, refs) else resolve_refs_below walk how [(k, 0)] (q, refs))
      = Inr (q', refs')"
    and "placed S refs" and "\<And>x. prefix [(k, 0)] x \<Longrightarrow> \<not> S x"
  shows "placed (\<lambda>x. S x \<or> prefix [(k, 0)] x) refs'"
proof (cases "arg q k = ANone")
  case True
  with assms(2,3) show ?thesis by (auto intro: placed_mono)
next
  case False
  with assms(2,3) resolve_refs_below_placed [OF assms(1), of how _ "(q, refs)" "(q', refs')" S]
    assms(4) show ?thesis by simp
qed

lemma refs_below_clause:
  assumes "walk_ok walk" and "sound_resolution bs how"
    and "(if arg q k = ANone then Inr (q, refs) else resolve_refs_below walk how [(k, 0)] (q, refs))
      = Inr (q', refs')"
    and "covers bs S q refs"
  shows "rewritten bs (prefix [(k, 0)]) q q' \<and> covers bs (S \<union> {x. prefix [(k, 0)] x}) q' refs'"
proof (cases "arg q k = ANone")
  case True
  with assms(3) have "q' = q" "refs' = refs" by simp_all
  moreover have "covers bs (S \<union> {x. prefix [(k, 0)] x}) q refs"
    using assms(4) by (rule covers_weaken) (auto simp: kind_at_def dest: sub_arg_none [OF True])
  ultimately show ?thesis by (auto intro: rewritten_refl)
next
  case False
  with assms(3) resolve_refs_below_step [OF assms(1,2) _ assms(4)] show ?thesis by simp
qed

text \<open>The guarantee: \<open>e\<close> is the star-expanded query, \<open>bs\<close> the bindings.\<close>

definition analysis_ok :: "binding list \<Rightarrow> node \<Rightarrow> analyzed_query \<Rightarrow> bool" where
  "analysis_ok bs e a \<longleftrightarrow> rewritten bs anywhere e (an_query a) \<and>
     length (an_outputs a) = length (as_list (arg (an_query a) ''expressions'')) \<and>
     outputs_match bs (an_query a) (an_outputs a) \<and>
     covers bs {p. visited (an_query a) p} (an_query a) (an_references a) \<and>
     placed (visited (an_query a)) (an_references a)"

lemma analyze_query_steps:
  assumes "analyze_query lib q schemas lim d = Inr a"
  obtains bs e q1 refs1 outs q2 refs2 q3 refs3 where
    "collect q schemas = Inr bs" "expand_stars q bs = Inr e" "check_limits (sg_walk lib) e lim = Inr ()"
    "analyze_projections e bs = Inr (q1, refs1, outs)"
    "rfold (resolve_join (sg_walk lib) bs) [0..<length (as_list (arg q1 ''joins''))] (q1, refs1)
      = Inr (q2, refs2)"
    "(if arg q2 ''where'' = ANone then Inr (q2, refs2)
      else resolve_refs_below (sg_walk lib) (\<lambda>c. resolve c bs) [(''where'', 0)] (q2, refs2))
      = Inr (q3, refs3)"
    "(if arg q3 ''order'' = ANone then Inr (q3, refs3)
      else resolve_refs_below (sg_walk lib) (resolve_order_column bs outs) [(''order'', 0)] (q3, refs3))
      = Inr (an_query a, an_references a)"
    "an_outputs a = outs" "validate_allowlist (sg_walk lib) (an_query a) False = Inr ()"
  using assms by (auto simp: analyze_query_def result_simps Let_def split: prod.splits)

lemma analyze_query_ok:
  assumes "walk_ok (sg_walk lib)" and "analyze_query lib q schemas lim d = Inr a"
  obtains bs e where "collect q schemas = Inr bs" and "expand_stars q bs = Inr e"
    and "analysis_ok bs e a" and "validate_allowlist (sg_walk lib) (an_query a) False = Inr ()"
proof -
  from assms(2) obtain bs e q1 refs1 outs q2 refs2 q3 refs3 where
    bs: "collect q schemas = Inr bs" and e: "expand_stars q bs = Inr e"
    and proj: "analyze_projections e bs = Inr (q1, refs1, outs)"
    and join: "rfold (resolve_join (sg_walk lib) bs) [0..<length (as_list (arg q1 ''joins''))]
      (q1, refs1) = Inr (q2, refs2)"
    and wher: "(if arg q2 ''where'' = ANone then Inr (q2, refs2)
      else resolve_refs_below (sg_walk lib) (\<lambda>c. resolve c bs) [(''where'', 0)] (q2, refs2))
      = Inr (q3, refs3)"
    and ord: "(if arg q3 ''order'' = ANone then Inr (q3, refs3)
      else resolve_refs_below (sg_walk lib) (resolve_order_column bs outs) [(''order'', 0)] (q3, refs3))
      = Inr (an_query a, an_references a)"
    and outs: "an_outputs a = outs" and allow: "validate_allowlist (sg_walk lib) (an_query a) False = Inr ()"
    by (rule analyze_query_steps)
  let ?m = "length (as_list (arg e ''expressions''))"
  let ?J = "{..<length (as_list (arg q1 ''joins''))}"
  have "covers bs (value_at e ` {..<0}) e []" "outputs_match bs e []"
    "placed (\<lambda>x. \<exists>j < 0. x = value_at e j) []"
    by (simp_all add: covers_def outputs_match_def placed_def)
  from rfold_analyze_projection [OF proj [unfolded analyze_projections_def] _ _ _ this]
  have r1: "rewritten bs below_projections e q1" and len: "length outs = ?m"
    and c1: "covers bs (value_at q1 ` {..<?m}) q1 refs1" and o1: "outputs_match bs q1 outs"
    and p1: "placed (\<lambda>x. \<exists>j < ?m. x = value_at q1 j) refs1" by simp_all
  from rfold_resolve_join [OF assms(1) join c1]
  have r2: "rewritten bs (below_on ?J) q1 q2"
    and c2: "covers bs (value_at q1 ` {..<?m} \<union> {x. below_on ?J x}) q2 refs2" by (simp_all add: atLeast0LessThan)
  from refs_below_clause [OF assms(1) sound_resolve wher c2]
  have r3: "rewritten bs (prefix [(''where'', 0)]) q2 q3"
    and c3: "covers bs (value_at q1 ` {..<?m} \<union> {x. below_on ?J x} \<union> {x. prefix [(''where'', 0)] x}) q3 refs3"
    by simp_all
  have o3: "outputs_match bs q3 outs"
    by (rule outputs_match_rewritten [OF outputs_match_rewritten [OF o1 r2] r3])
      (auto simp: below_on_def dest: not_prefix_value_at)
  note sound = rfold_sound_order [OF o3 collect_Inr(2) [OF bs]]
  from refs_below_clause [OF assms(1) sound ord c3]
  have r4: "rewritten bs (prefix [(''order'', 0)]) q3 (an_query a)"
    and c4: "covers bs (value_at q1 ` {..<?m} \<union> {x. below_on ?J x} \<union> {x. prefix [(''where'', 0)] x} \<union>
      {x. prefix [(''order'', 0)] x}) (an_query a) (an_references a)" by simp_all
  have o4: "outputs_match bs (an_query a) outs"
    by (rule outputs_match_rewritten [OF o3 r4]) (auto dest: not_prefix_value_at)
  have w: "rewritten bs anywhere e q1" "rewritten bs anywhere q1 q2" "rewritten bs anywhere q2 q3"
    "rewritten bs anywhere q3 (an_query a)"
    using r1 r2 r3 r4 by (auto elim!: rewritten_mono simp: anywhere_def)
  have late: "rewritten bs anywhere q1 (an_query a)"
    by (rule rewritten_trans [OF w(4) rewritten_trans [OF w(3) w(2)]])
  have all: "rewritten bs anywhere e (an_query a)" by (rule rewritten_trans [OF late w(1)])
  have "value_at (an_query a) i = value_at q1 i" for i
    by (rule value_at_rewritten [OF late anywhere_nonempty])
  then have visited_eq: "{p. visited (an_query a) p} = value_at q1 ` {..<?m} \<union> {x. below_on ?J x} \<union>
      {x. prefix [(''where'', 0)] x} \<union> {x. prefix [(''order'', 0)] x}"
    using rewritten_shape(2) [OF all anywhere_nonempty] rewritten_shape(2) [OF late anywhere_nonempty]
    by (auto simp: visited_def)
  moreover have "placed (visited (an_query a)) (an_references a)"
  proof -
    let ?v = "\<lambda>x. \<exists>i < ?m. x = value_at q1 i"
    have apart: "\<not> below_on I x" "\<not> prefix [(''where'', 0)] x" "\<not> prefix [(''order'', 0)] x"
      if "?v x" for x I
    proof -
      from that obtain i r where "x = (''expressions'', i) # r" using value_at_step [of q1] by blast
      then show "\<not> below_on I x" "\<not> prefix [(''where'', 0)] x" "\<not> prefix [(''order'', 0)] x"
        by (auto simp: below_on_def)
    qed
    have apart': "\<not> prefix [(''where'', 0)] x" "\<not> prefix [(''order'', 0)] x" if "below_on I x" for x I
      using that by (auto simp: below_on_def prefix_def)
    have wo: "\<not> prefix [(''where'', 0)] x" if "prefix [(''order'', 0)] x" for x :: pos
      using that by (auto simp: prefix_def)
    have "placed (\<lambda>x. ?v x \<or> below_on (set [0..<length (as_list (arg q1 ''joins''))]) x) (snd (q2, refs2))"
      by (rule rfold_resolve_join_placed [OF assms(1) join]) (use p1 apart(1) in auto)
    then have p2: "placed (\<lambda>x. ?v x \<or> below_on ?J x) refs2" by (simp add: atLeast0LessThan)
    have p3: "placed (\<lambda>x. (?v x \<or> below_on ?J x) \<or> prefix [(''where'', 0)] x) refs3"
      by (rule refs_clause_placed [OF assms(1) wher p2]) (use apart(2) apart'(1) in blast)
    have "placed (\<lambda>x. ((?v x \<or> below_on ?J x) \<or> prefix [(''where'', 0)] x)
        \<or> prefix [(''order'', 0)] x) (an_references a)"
      by (rule refs_clause_placed [OF assms(1) ord p3])
        (use apart(3) apart'(2) wo in blast)
    then show ?thesis
      by (rule placed_mono) (use visited_eq in \<open>auto simp: set_eq_iff image_iff\<close>)
  qed
  ultimately have "analysis_ok bs e a"
    using c4 all o4 len outs rewritten_shape(2) [OF all anywhere_nonempty]
    by (simp add: analysis_ok_def)
  with bs e allow show thesis using that by blast
qed

end
