(* ===== verification/Policy.thy ===== *)
theory Policy
  imports Tokens Lineage_Facts
begin

text \<open>
  \<open>security/policy.py\<close>: which sources the configured rules protect, and what a query may do
  with a protected column.  \<open>fnmatchcase\<close> of the standard library is modelled as well.
\<close>

section \<open>fnmatch\<close>

text \<open>A pattern: \<open>*\<close>, \<open>?\<close>, a (negated) set of character ranges, or a character.\<close>

datatype glob = GStar | GAny | GSet bool "(char \<times> char) list" | GChar char

text \<open>The ranges of a bracket's content; a hyphen at the end or after a range is itself.\<close>

fun class_ranges :: "string \<Rightarrow> (char \<times> char) list" where
  "class_ranges (a # b # c # s) =
     (if b = CHR ''-'' then (a, c) # class_ranges s else (a, a) # class_ranges (b # c # s))"
| "class_ranges s = map (\<lambda>c. (c, c)) s"

text \<open>
  After an opening bracket: negation, content and the rest, unless the bracket stays open.
  A closing bracket at the start of the content is part of it.
\<close>

definition split_class :: "string \<Rightarrow> (bool \<times> string \<times> string) option" where
  "split_class s =
     (let neg = prefix ''!'' s; s1 = (if neg then tl s else s);
          first = (if prefix '']'' s1 then '']'' else []); s2 = drop (length first) s1;
          body = takeWhile (\<lambda>c. c \<noteq> CHR '']'') s2; rest = dropWhile (\<lambda>c. c \<noteq> CHR '']'') s2 in
      if rest = [] then None else Some (neg, first @ body, tl rest))"

lemma split_class_length: "split_class s = Some (neg, body, rest) \<Longrightarrow> length rest < Suc (length s)"
proof -
  assume a: "split_class s = Some (neg, body, rest)"
  have le: "length (dropWhile P t) \<le> length t" for P and t :: string by (induction t) auto
  show ?thesis
    using a le [of "\<lambda>c. c \<noteq> CHR '']''" "tl s"] le [of "\<lambda>c. c \<noteq> CHR '']''" s]
      le [of "\<lambda>c. c \<noteq> CHR '']''" "drop 1 (tl s)"] le [of "\<lambda>c. c \<noteq> CHR '']''" "drop 1 s"]
    by (auto simp: split_class_def Let_def split: if_splits)
qed

function parse_glob :: "string \<Rightarrow> glob list" where
  "parse_glob [] = []"
| "parse_glob (c # s) =
     (if c = CHR ''*'' then GStar # parse_glob s
      else if c = CHR ''?'' then GAny # parse_glob s
      else if c = CHR ''['' then (case split_class s of
          None \<Rightarrow> GChar c # parse_glob s
        | Some p \<Rightarrow> GSet (fst p) (class_ranges (fst (snd p))) # parse_glob (snd (snd p)))
      else GChar c # parse_glob s)"
  by pat_completeness auto
termination
  by (relation "measure length") (auto dest: split_class_length)

fun char_matches :: "glob \<Rightarrow> char \<Rightarrow> bool" where
  "char_matches GStar c = True"
| "char_matches GAny c = True"
| "char_matches (GSet neg rs) c = (neg \<noteq> list_ex (\<lambda>(a, b). ord a \<le> ord c \<and> ord c \<le> ord b) rs)"
| "char_matches (GChar d) c = (c = d)"

fun glob_match :: "glob list \<Rightarrow> string \<Rightarrow> bool" where
  "glob_match [] s = (s = [])"
| "glob_match (g # gs) [] = (g = GStar \<and> glob_match gs [])"
| "glob_match (g # gs) (c # s) =
     (if g = GStar then glob_match gs (c # s) \<or> glob_match (g # gs) s
      else char_matches g c \<and> glob_match gs s)"

definition fnmatchcase :: "string \<Rightarrow> string \<Rightarrow> bool" where
  "fnmatchcase name pat = glob_match (parse_glob pat) name"

text \<open>A pattern without special characters matches itself only; a star matches all.\<close>

lemma glob_match_star: "glob_match (GStar # gs) s \<longleftrightarrow> (\<exists>u v. s = u @ v \<and> glob_match gs v)"
proof (induction s)
  case Nil
  then show ?case by simp
next
  case (Cons c s)
  have "(\<exists>u v. c # s = u @ v \<and> glob_match gs v) \<longleftrightarrow>
      glob_match gs (c # s) \<or> (\<exists>u v. s = u @ v \<and> glob_match gs v)"
    by (auto simp: Cons_eq_append_conv)
  with Cons show ?case by simp
qed

lemma parse_glob_literal:
  "set pat \<inter> {CHR ''*'', CHR ''?'', CHR ''[''} = {} \<Longrightarrow> parse_glob pat = map GChar pat"
  by (induction pat) auto

lemma glob_match_literal: "glob_match (map GChar pat) s \<longleftrightarrow> s = pat"
proof (induction pat arbitrary: s)
  case (Cons c pat)
  then show ?case by (cases s) auto
qed simp

lemma fnmatchcase_literal:
  "set pat \<inter> {CHR ''*'', CHR ''?'', CHR ''[''} = {} \<Longrightarrow> fnmatchcase s pat \<longleftrightarrow> s = pat"
  by (simp add: fnmatchcase_def parse_glob_literal glob_match_literal)

section \<open>Protected sources\<close>

record pii_policy =
  po_database :: string
  po_config :: pii_config
  po_codec :: token_codec

definition make_policy :: "string \<Rightarrow> pii_config \<Rightarrow> token_codec \<Rightarrow> pii_policy" where
  "make_policy database config codec =
     \<lparr>po_database = casefold database, po_config = config, po_codec = codec\<rparr>"

definition rule_matches :: "string \<Rightarrow> source_column \<Rightarrow> pii_rule \<Rightarrow> bool" where
  "rule_matches database src r \<longleftrightarrow>
     \<not> (pr_database r \<noteq> ''*'' \<and> casefold (pr_database r) \<noteq> database) \<and>
     \<not> (pr_schema r \<noteq> None \<and> map_option casefold (pr_schema r) \<noteq> Some (casefold (src_schema src))) \<and>
     fnmatchcase (casefold (src_table src)) (casefold (pr_table r)) \<and>
     casefold (src_column src) \<in> set (map casefold (pr_columns r))"

definition is_protected :: "pii_policy \<Rightarrow> source_column \<Rightarrow> bool" where
  "is_protected pol src = list_ex (rule_matches (po_database pol) src) (pc_rules (po_config pol))"

section \<open>Positions of a column\<close>

definition is_projected :: "node \<Rightarrow> pos \<Rightarrow> bool" where
  "is_projected q p \<longleftrightarrow> parent_kind q p = Some KSelect \<or>
     parent_kind q p = Some KAlias \<and> parent_kind q (butlast p) = Some KSelect"

text \<open>The classes of the ancestors, nearest first.\<close>

definition ancestor_kinds :: "node \<Rightarrow> pos \<Rightarrow> kind list" where
  "ancestor_kinds q p = List.map_filter (\<lambda>k. kind_at q (take k p)) (rev [0..<length p])"

fun where_comes_first :: "kind list \<Rightarrow> bool" where
  "where_comes_first [] = False"
| "where_comes_first (k # ks) =
     (if k = KWhere then True
      else if k \<in> {KJoin, KOrder, KSelect} then False
      else where_comes_first ks)"

definition in_where :: "node \<Rightarrow> pos \<Rightarrow> bool" where
  "in_where q p = where_comes_first (ancestor_kinds q p)"

section \<open>The decision\<close>

record token_site =
  site_literal :: pos
  site_value :: pyval

record policy_decision =
  pd_protected :: "bool list"
  pd_token_sites :: "token_site list"

definition is_token_literal :: "node \<Rightarrow> bool" where
  "is_token_literal n \<longleftrightarrow> is_string_literal n \<and> startswith (arg_str (arg n ''this'')) TOKEN_PREFIX"

definition token_site_at :: "aead \<Rightarrow> token_codec \<Rightarrow> node \<Rightarrow> pos \<Rightarrow> token_site result" where
  "token_site_at lib codec q p = (case sub q p of
       None \<Rightarrow> Inl (reject PROTECTED_NEEDS_TOKEN)
     | Some n \<Rightarrow>
         rbind (raise_if (\<not> is_token_literal n) (reject PROTECTED_NEEDS_TOKEN)) (\<lambda>_.
         rbind (decrypt lib codec (arg_str (arg n ''this''))) (\<lambda>v.
         Inr \<lparr>site_literal = p, site_value = v\<rparr>)))"

text \<open>\<open>parent.this is column\<close> for the parent of the node at a position.\<close>

definition is_left_operand :: "node \<Rightarrow> pos \<Rightarrow> bool" where
  "is_left_operand q p \<longleftrightarrow> last p = (''this'', 0) \<and>
     (case sub q (butlast p) of None \<Rightarrow> False | Some m \<Rightarrow> as_node (arg m ''this'') \<noteq> None)"

definition check_protected :: "aead \<Rightarrow> token_codec \<Rightarrow> node \<Rightarrow> pos \<Rightarrow> token_site list result" where
  "check_protected lib codec q p =
     (if is_projected q p then Inr []
      else if \<not> in_where q p then Inl (reject PROTECTED_POSITION)
      else if parent_kind q p = Some KEQ \<and> is_left_operand q p then
        rmap (token_site_at lib codec q) [butlast p @ [(''expression'', 0)]]
      else if parent_kind q p = Some KIn \<and> is_left_operand q p \<and> expressions_at q (butlast p) \<noteq> [] then
        rmap (token_site_at lib codec q)
          (map (\<lambda>i. butlast p @ [(''expressions'', i)]) [0..<length (expressions_at q (butlast p))])
      else Inl (reject PROTECTED_POSITION))"

definition check_ref :: "aead \<Rightarrow> pii_policy \<Rightarrow> node \<Rightarrow> column_ref \<Rightarrow> token_site list result" where
  "check_ref lib pol q r = (if is_protected pol (cr_source r)
     then check_protected lib (po_codec pol) q (cr_node r) else Inr [])"

definition check_literal :: "node \<Rightarrow> pos set \<Rightarrow> pos \<Rightarrow> unit result" where
  "check_literal q consumed p = (case sub q p of None \<Rightarrow> Inr () | Some n \<Rightarrow>
     raise_if (is_token_literal n \<and> p \<notin> consumed) (reject TOKEN_OUTSIDE_PROTECTED))"

definition output_protected :: "pii_policy \<Rightarrow> output_column \<Rightarrow> bool" where
  "output_protected pol out = (case oc_source out of None \<Rightarrow> False | Some s \<Rightarrow> is_protected pol s)"

definition evaluate :: "aead \<Rightarrow> walker \<Rightarrow> pii_policy \<Rightarrow> analyzed_query \<Rightarrow> policy_decision result" where
  "evaluate lib walk pol a =
     rbind (rmap (check_ref lib pol (an_query a)) (an_references a)) (\<lambda>parts.
     let sites = concat parts in
     rbind (rcheck (check_literal (an_query a) (set (map site_literal sites)))
       (find_all walk [KLiteral] (an_query a))) (\<lambda>_.
     Inr \<lparr>pd_protected = map (output_protected pol) (an_outputs a), pd_token_sites = sites\<rparr>))"

section \<open>What an accepted query does with protected columns\<close>

lemma token_site_at_Inr:
  "token_site_at lib codec q p = Inr site \<longleftrightarrow> (\<exists>n v. sub q p = Some n \<and> is_token_literal n \<and>
     decrypt lib codec (arg_str (arg n ''this'')) = Inr v \<and> site = \<lparr>site_literal = p, site_value = v\<rparr>)"
  by (auto simp: token_site_at_def result_simps split: option.splits)

text \<open>The operand positions a protected column in \<open>WHERE\<close> is compared with.\<close>

definition compared_with :: "node \<Rightarrow> pos \<Rightarrow> pos list option" where
  "compared_with q p =
     (if \<not> is_left_operand q p then None
      else if parent_kind q p = Some KEQ then Some [butlast p @ [(''expression'', 0)]]
      else if parent_kind q p = Some KIn \<and> expressions_at q (butlast p) \<noteq> [] then
        Some (map (\<lambda>i. butlast p @ [(''expressions'', i)]) [0..<length (expressions_at q (butlast p))])
      else None)"

lemma check_protected_eq:
  "check_protected lib codec q p =
     (if is_projected q p then Inr []
      else if \<not> in_where q p then Inl (reject PROTECTED_POSITION)
      else (case compared_with q p of None \<Rightarrow> Inl (reject PROTECTED_POSITION)
        | Some ps \<Rightarrow> rmap (token_site_at lib codec q) ps))"
  by (auto simp: check_protected_def compared_with_def)

text \<open>
  A column position is fine when the column is projected, or is in \<open>WHERE\<close> on the left of an
  equality or membership test whose every operand is a recorded token.
\<close>

definition protected_use_ok :: "node \<Rightarrow> pos set \<Rightarrow> pos \<Rightarrow> bool" where
  "protected_use_ok q sites p \<longleftrightarrow> is_projected q p \<or>
     in_where q p \<and> (\<exists>ps. compared_with q p = Some ps \<and> set ps \<subseteq> sites)"

lemma check_protected_Inr:
  assumes "check_protected lib codec q p = Inr sites"
  shows "protected_use_ok q (set (map site_literal sites)) p"
proof (cases "is_projected q p")
  case True
  then show ?thesis by (simp add: protected_use_ok_def)
next
  case False
  with assms obtain ps where ps: "in_where q p" "compared_with q p = Some ps"
    "rmap (token_site_at lib codec q) ps = Inr sites"
    by (auto simp: check_protected_eq split: if_splits option.splits)
  have "map site_literal sites = ps"
    using ps(3) unfolding rmap_eq_Inr_iff
    by (induction rule: list_all2_induct) (auto simp: token_site_at_Inr)
  with ps show ?thesis by (auto simp: protected_use_ok_def)
qed

lemma check_protected_sites:
  assumes "check_protected lib codec q p = Inr sites" and "s \<in> set sites"
  shows "token_site_at lib codec q (site_literal s) = Inr s"
proof -
  from assms obtain ps where "rmap (token_site_at lib codec q) ps = Inr sites"
    by (auto simp: check_protected_eq split: if_splits option.splits)
  from rmap_Inr_set [OF this assms(2)] show ?thesis by (auto simp: token_site_at_Inr)
qed

lemma protected_use_ok_mono: "protected_use_ok q S p \<Longrightarrow> S \<subseteq> T \<Longrightarrow> protected_use_ok q T p"
  by (auto simp: protected_use_ok_def)

lemma evaluate_Inr:
  assumes "evaluate lib walk pol a = Inr dec"
  shows "pd_protected dec = map (output_protected pol) (an_outputs a)"
    and "r \<in> set (an_references a) \<Longrightarrow> is_protected pol (cr_source r) \<Longrightarrow>
      protected_use_ok (an_query a) (set (map site_literal (pd_token_sites dec))) (cr_node r)"
    and "s \<in> set (pd_token_sites dec) \<Longrightarrow>
      token_site_at lib (po_codec pol) (an_query a) (site_literal s) = Inr s"
    and "p \<in> set (find_all walk [KLiteral] (an_query a)) \<Longrightarrow> sub (an_query a) p = Some n \<Longrightarrow>
      is_token_literal n \<Longrightarrow> p \<in> set (map site_literal (pd_token_sites dec))"
proof -
  from assms obtain parts where parts: "rmap (check_ref lib pol (an_query a)) (an_references a) = Inr parts"
    and lits: "rcheck (check_literal (an_query a) (set (map site_literal (concat parts))))
       (find_all walk [KLiteral] (an_query a)) = Inr ()"
    and dec: "dec = \<lparr>pd_protected = map (output_protected pol) (an_outputs a), pd_token_sites = concat parts\<rparr>"
    by (auto simp: evaluate_def result_simps Let_def)
  from dec show "pd_protected dec = map (output_protected pol) (an_outputs a)" by simp
  show "protected_use_ok (an_query a) (set (map site_literal (pd_token_sites dec))) (cr_node r)"
    if r: "r \<in> set (an_references a)" and prot: "is_protected pol (cr_source r)"
  proof -
    from r obtain i where i: "i < length (an_references a)" "an_references a ! i = r"
      by (auto simp: in_set_conv_nth)
    from rmap_nth [OF parts i(1)] i prot
    have ok: "check_protected lib (po_codec pol) (an_query a) (cr_node r) = Inr (parts ! i)"
      by (simp add: check_ref_def)
    have "parts ! i \<in> set parts" using i(1) rmap_length [OF parts] by simp
    then have "set (map site_literal (parts ! i)) \<subseteq> set (map site_literal (pd_token_sites dec))"
      using dec by auto
    with check_protected_Inr [OF ok] show ?thesis by (rule protected_use_ok_mono)
  qed
  show "token_site_at lib (po_codec pol) (an_query a) (site_literal s) = Inr s"
    if s: "s \<in> set (pd_token_sites dec)"
  proof -
    from s dec obtain part where part: "part \<in> set parts" "s \<in> set part" by auto
    from rmap_Inr_set [OF parts part(1)] obtain r where "check_ref lib pol (an_query a) r = Inr part" by blast
    with part(2) show ?thesis
      by (auto simp: check_ref_def check_protected_sites split: if_splits)
  qed
  show "p \<in> set (map site_literal (pd_token_sites dec))"
    if "p \<in> set (find_all walk [KLiteral] (an_query a))" "sub (an_query a) p = Some n" "is_token_literal n"
    using that lits dec by (auto simp: result_simps check_literal_def)
qed

text \<open>An unprotected query has no token sites, and the decision raises domain errors only.\<close>

lemma token_site_at_error: "token_site_at lib codec q p = Inl e \<Longrightarrow> is_domain e"
  by (auto simp: token_site_at_def result_simps dest: decrypt_error split: option.splits)

lemma check_protected_error: "check_protected lib codec q p = Inl e \<Longrightarrow> is_domain e"
  by (auto simp: check_protected_eq dest!: rmap_InlD dest: token_site_at_error
      split: if_splits option.splits)

lemma evaluate_error:
  assumes "evaluate lib walk pol a = Inl e"
  shows "is_domain e"
proof -
  from assms have "(\<exists>r. check_ref lib pol (an_query a) r = Inl e) \<or>
      (\<exists>S p. check_literal (an_query a) S p = Inl e)"
    by (auto simp: evaluate_def result_simps Let_def dest!: rmap_InlD rcheck_InlD)
  then show ?thesis
    by (auto simp: check_ref_def check_literal_def result_simps dest: check_protected_error
        split: if_splits option.splits)
qed

end
