(* ===== verification/Validated_Query.thy ===== *)
theory Validated_Query
  imports Policy Numerals "HOL-Library.Multiset"
begin

text \<open>
  \<open>security/validated_query.py\<close>: token literals become bind parameters, the row cap is set,
  the query is checked again and the statement is generated with positional bind markers.  The
  random nonce of the one-time markers is an argument.
\<close>

section \<open>Data\<close>

record output_plan =
  op_label :: string
  op_kind :: output_kind
  op_source :: "source_column option"
  op_protected :: bool

record validated_query =
  vq_alias :: string
  vq_database :: string
  vq_ast :: node
  vq_sql :: string
  vq_parameters :: "pyval list"
  vq_outputs :: "output_plan list"
  vq_max_rows :: int

section \<open>The row limit\<close>

definition row_hint :: "runtime_config \<Rightarrow> string option" where
  "row_hint r = Some (''Use a value between 1 and '' @ str_int (hard_max_rows r) @ ''.'')"

definition check_row_limit :: "int \<Rightarrow> runtime_config \<Rightarrow> unit result" where
  "check_row_limit max_rows r =
     rbind (raise_if (max_rows < 1) (Domain (make_error INVALID_ARGUMENT
       ''max_rows must be at least 1.'' (row_hint r)))) (\<lambda>_.
     raise_if (max_rows > hard_max_rows r) (Domain (make_error RESULT_LIMIT_EXCEEDED
       (''max_rows exceeds the configured hard limit of '' @ str_int (hard_max_rows r) @ ''.'')
       (row_hint r))))"

text \<open>
  \<open>int(str(limit.expression.this))\<close>, or the default where there is no limit.  The allowlist has
  checked \<open>isdigit\<close>, so the text has no sign, blank or underscore.
\<close>

definition requested_rows :: "node \<Rightarrow> int \<Rightarrow> int result" where
  "requested_rows q fetch = (case arg q ''limit'' of
       ANone \<Rightarrow> Inr fetch
     | ANode l \<Rightarrow> (case as_node (arg l ''expression'') of
           None \<Rightarrow> Inl attribute_error
         | Some e \<Rightarrow> parse_digits (arg_str (arg e ''this'')))
     | _ \<Rightarrow> Inl attribute_error)"

definition limit_node :: "int \<Rightarrow> node" where
  "limit_node n = mk KLimit [(''expression'', ANode (literal_number n))]"

definition cap_rows :: "node \<Rightarrow> int \<Rightarrow> node result" where
  "cap_rows q max_rows =
     (let fetch = max_rows + 1 in
      rbind (requested_rows q fetch) (\<lambda>requested.
      Inr (set_arg ''limit'' (ANode (limit_node (min requested fetch))) q)))"

section \<open>Positional binds\<close>

definition marker_prefix :: "string \<Rightarrow> string" where
  "marker_prefix nonce = ''__bind_'' @ nonce @ ''_''"

definition marker :: "string \<Rightarrow> nat \<Rightarrow> string" where
  "marker nonce k = marker_prefix nonce @ str_nat k @ ''__''"

text \<open>A match of \<open>__bind_<nonce>_\d+__\<close> at the start of a text.\<close>

definition match_marker :: "string \<Rightarrow> string \<Rightarrow> string option" where
  "match_marker nonce s =
     (let r = drop (length (marker_prefix nonce)) s; ds = takeWhile is_ascii_digit r in
      if prefix (marker_prefix nonce) s \<and> ds \<noteq> [] \<and> prefix ''__'' (dropWhile is_ascii_digit r)
      then Some (marker_prefix nonce @ ds @ ''__'') else None)"

lemma match_marker_prefix:
  assumes "match_marker nonce s = Some m"
  shows "prefix m s" and "m \<noteq> []"
proof -
  from assms show "prefix m s"
    by (auto simp: match_marker_def Let_def prefix_def split: if_splits) (metis takeWhile_dropWhile_id)
  from assms show "m \<noteq> []" by (auto simp: match_marker_def Let_def split: if_splits)
qed

text \<open>\<open>re.findall\<close>: the matches from left to right, each search after the match before.\<close>

function find_markers :: "string \<Rightarrow> string \<Rightarrow> string list" where
  "find_markers nonce [] = []"
| "find_markers nonce (c # s) = (case match_marker nonce (c # s) of
     None \<Rightarrow> find_markers nonce s
   | Some m \<Rightarrow> m # find_markers nonce (drop (length m - 1) s))"
  by pat_completeness auto
termination
  by (relation "measure (length \<circ> snd)") auto

text \<open>Each placeholder gives way to its marker; the names are kept by number.\<close>

definition marker_step :: "string \<Rightarrow> pos \<Rightarrow> node \<times> string list \<Rightarrow> node \<times> string list" where
  "marker_step nonce p st = (case sub (fst st) p of
       None \<Rightarrow> st
     | Some n \<Rightarrow> (replace_at p (mk KVar [(''this'', AStr (marker nonce (length (snd st))))]) (fst st),
         snd st @ [arg_str (arg n ''this'')]))"

text \<open>\<open>parameters[markers[marker]]\<close>.\<close>

definition bind_value :: "string \<Rightarrow> string list \<Rightarrow> (string \<times> pyval) list \<Rightarrow> string \<Rightarrow> pyval result" where
  "bind_value nonce names parameters m =
     (case map_of (map (\<lambda>k. (marker nonce k, names ! k)) [0..<length names]) m of
        None \<Rightarrow> Inl KeyError
      | Some name \<Rightarrow> (case map_of parameters name of None \<Rightarrow> Inl KeyError | Some v \<Rightarrow> Inr v))"

definition escape_percent :: "dialect \<Rightarrow> string \<Rightarrow> string" where
  "escape_percent d sql = (if d_escape_percent d then replace_char (CHR ''%'') ''%%'' sql else sql)"

definition to_positional :: "sqlglot \<Rightarrow> string \<Rightarrow> node \<Rightarrow> (string \<times> pyval) list \<Rightarrow> dialect
    \<Rightarrow> (string \<times> pyval list) result" where
  "to_positional lib nonce q parameters d =
     (let (rendered, names) = fold (marker_step nonce) (find_all (sg_walk lib) [KPlaceholder] q) (q, []);
          markers = map (marker nonce) [0..<length names] in
      rbind (sg_sql lib (d_name d) rendered) (\<lambda>text0.
      let text1 = escape_percent d text0; found = find_markers nonce text1 in
      rbind (raise_if (length found \<noteq> length markers \<or> set found \<noteq> set markers) (reject BIND_UNSAFE)) (\<lambda>_.
      rbind (rmap (bind_value nonce names parameters) found) (\<lambda>values.
      Inr (fold (\<lambda>m t. replace_first m (d_bind_marker d) t) found text1, values)))))"

section \<open>Issuing\<close>

definition bind_name :: "nat \<Rightarrow> string" where
  "bind_name k = ''pii_'' @ str_nat k"

definition placeholder :: "nat \<Rightarrow> node" where
  "placeholder k = mk KPlaceholder [(''this'', AStr (bind_name k))]"

text \<open>One round of the loop over the token sites.\<close>

definition bind_step :: "token_site \<Rightarrow> node \<times> (string \<times> pyval) list \<Rightarrow> node \<times> (string \<times> pyval) list" where
  "bind_step site st =
     (replace_at (site_literal site) (placeholder (length (snd st))) (fst st),
      snd st @ [(bind_name (length (snd st)), site_value site)])"

definition plan_outputs :: "output_column list \<Rightarrow> bool list \<Rightarrow> output_plan list result" where
  "plan_outputs outs prot =
     rbind (raise_if (length outs \<noteq> length prot) (ValueError ''zip() argument lengths differ'')) (\<lambda>_.
     Inr (map (\<lambda>(out, pr). \<lparr>op_label = oc_label out, op_kind = oc_kind out, op_source = oc_source out,
       op_protected = pr\<rparr>) (zip outs prot)))"

definition issue_validated_query :: "sqlglot \<Rightarrow> string \<Rightarrow> analyzed_query \<Rightarrow> policy_decision \<Rightarrow> string
    \<Rightarrow> string \<Rightarrow> int \<Rightarrow> runtime_config \<Rightarrow> parser_limits \<Rightarrow> dialect \<Rightarrow> validated_query result" where
  "issue_validated_query lib nonce a dec alias database max_rows runtime lim d =
     rbind (check_row_limit max_rows runtime) (\<lambda>_.
     let (bound, parameters) = fold bind_step (pd_token_sites dec) (an_query a, []) in
     rbind (cap_rows bound max_rows) (\<lambda>q.
     rbind (check_limits (sg_walk lib) q lim) (\<lambda>_.
     rbind (validate_allowlist (sg_walk lib) q True) (\<lambda>_.
     rbind (to_positional lib nonce q parameters d) (\<lambda>(sql, ordered).
     rbind (raise_if (is_substr TOKEN_PREFIX sql) (reject TOKEN_NOT_REPLACED)) (\<lambda>_.
     rbind (plan_outputs (an_outputs a) (pd_protected dec)) (\<lambda>outputs.
     Inr \<lparr>vq_alias = alias, vq_database = database, vq_ast = q, vq_sql = sql, vq_parameters = ordered,
       vq_outputs = outputs, vq_max_rows = max_rows\<rparr>)))))))"

end
