(* ===== verification/Bind_Facts.thy ===== *)
theory Bind_Facts
  imports Validated_Query
begin

text \<open>
  What \<open>issue_validated_query\<close> guarantees: the statement text is the generated text with its
  bind markers replaced from left to right, every token's value is bound exactly once, at the
  place of its placeholder, and the row limit is capped.
\<close>

section \<open>The row cap\<close>

lemma check_row_limit_Inr:
  "check_row_limit m r = Inr u \<longleftrightarrow> 1 \<le> m \<and> m \<le> hard_max_rows r"
  by (auto simp: check_row_limit_def result_simps)

lemma cap_rows_Inr:
  assumes "cap_rows q m = Inr q'" and "0 \<le> m"
  obtains r where "requested_rows q (m + 1) = Inr r" "0 \<le> r"
    "q' = set_arg ''limit'' (ANode (limit_node (min r (m + 1)))) q"
proof -
  from assms(1) obtain r where r: "requested_rows q (m + 1) = Inr r"
    and q': "q' = set_arg ''limit'' (ANode (limit_node (min r (m + 1)))) q"
    by (auto simp: cap_rows_def result_simps Let_def)
  have "0 \<le> r" using r assms(2)
    by (auto simp: requested_rows_def dest: parse_digits_nonneg split: argval.splits option.splits)
  with that q' r show thesis by blast
qed

section \<open>Markers in a text\<close>

definition is_marker :: "string \<Rightarrow> string \<Rightarrow> bool" where
  "is_marker nonce m \<longleftrightarrow> (\<exists>ds. ds \<noteq> [] \<and> list_all is_ascii_digit ds \<and>
     m = marker_prefix nonce @ ds @ ''__'')"

lemma is_marker_marker: "is_marker nonce (marker nonce k)"
  unfolding is_marker_def marker_def using str_nat_digits str_nat_neq_Nil by blast

lemma match_marker_is_marker: "match_marker nonce s = Some m \<Longrightarrow> is_marker nonce m"
  by (auto simp: match_marker_def is_marker_def Let_def list_all_iff split: if_splits
      dest: set_takeWhileD)

lemma is_marker_match: "is_marker nonce m \<Longrightarrow> match_marker nonce (m @ s) = Some m"
proof -
  assume "is_marker nonce m"
  then obtain ds where ds: "ds \<noteq> []" "list_all is_ascii_digit ds" "m = marker_prefix nonce @ ds @ ''__''"
    by (auto simp: is_marker_def)
  have "\<not> is_ascii_digit (CHR ''_'')" by (simp add: is_ascii_digit_def)
  then have "takeWhile is_ascii_digit (ds @ ''__'' @ s) = ds" "dropWhile is_ascii_digit (ds @ ''__'' @ s) = ''__'' @ s"
    using span_digits [OF ds(2), of "''__'' @ s"] by simp_all
  with ds(1,3) show ?thesis by (simp add: match_marker_def Let_def)
qed

lemma is_marker_head: "is_marker nonce m \<Longrightarrow> m \<noteq> [] \<and> hd m = CHR ''_''"
  by (auto simp: is_marker_def marker_prefix_def)

lemma marker_inj: "marker nonce j = marker nonce k \<Longrightarrow> j = k"
  by (auto simp: marker_def dest: str_nat_inj)

text \<open>A text as pieces, each followed by a marker, and a tail.\<close>

definition interleave :: "(string \<times> string) list \<Rightarrow> string \<Rightarrow> string" where
  "interleave segs rest = concat (map (\<lambda>(b, m). b @ m) segs) @ rest"

lemma interleave_simps [simp]:
  "interleave [] rest = rest"
  "interleave ((b, m) # segs) rest = b @ m @ interleave segs rest"
  by (simp_all add: interleave_def)

fun scanned :: "string \<Rightarrow> (string \<times> string) list \<Rightarrow> string \<Rightarrow> bool" where
  "scanned nonce [] rest = (\<forall>k < length rest. match_marker nonce (drop k rest) = None)"
| "scanned nonce ((b, m) # segs) rest = (is_marker nonce m \<and> scanned nonce segs rest \<and>
     (\<forall>k < length b. match_marker nonce (drop k (b @ m @ interleave segs rest)) = None))"

lemma scanned_markers: "scanned nonce segs rest \<Longrightarrow> (b, m) \<in> set segs \<Longrightarrow> is_marker nonce m"
  by (induction nonce segs rest rule: scanned.induct) auto

lemma find_markers_scanned:
  "\<exists>segs rest. s = interleave segs rest \<and> find_markers nonce s = map snd segs \<and> scanned nonce segs rest"
proof (induction nonce s rule: find_markers.induct)
  case (1 nonce)
  show ?case by (rule exI [of _ "[]"], rule exI [of _ "[]"]) simp
next
  case (2 nonce c s)
  show ?case
  proof (cases "match_marker nonce (c # s)")
    case None
    from 2(1) [OF None] obtain segs rest where IH: "s = interleave segs rest"
      "find_markers nonce s = map snd segs" "scanned nonce segs rest" by blast
    show ?thesis
    proof (cases segs)
      case Nil
      with IH None have "scanned nonce [] (c # rest)" by (auto simp: less_Suc_eq_0_disj)
      with IH None Nil show ?thesis
        by (intro exI [of _ "[]"] exI [of _ "c # rest"]) simp
    next
      case (Cons x segs')
      obtain b m where x: "x = (b, m)" by (cases x)
      with IH None Cons have "scanned nonce ((c # b, m) # segs') rest" by (auto simp: less_Suc_eq_0_disj)
      with IH None Cons x show ?thesis
        by (intro exI [of _ "(c # b, m) # segs'"] exI [of _ rest]) simp
    qed
  next
    case (Some m)
    from 2(2) [OF Some] obtain segs rest where IH: "drop (length m - 1) s = interleave segs rest"
      "find_markers nonce (drop (length m - 1) s) = map snd segs" "scanned nonce segs rest" by blast
    obtain m' where m: "m = c # m'" and s: "s = m' @ drop (length m - 1) s"
      using match_marker_prefix [OF Some] by (cases m) (auto simp: prefix_def)
    have "c # s = m @ interleave segs rest" using m s IH(1) by simp
    moreover have "scanned nonce (([], m) # segs) rest"
      using IH(3) match_marker_is_marker [OF Some] by simp
    moreover have "find_markers nonce (c # s) = map snd (([], m) # segs)" using Some IH(2) by simp
    ultimately show ?thesis
      by (intro exI [of _ "([], m) # segs"] exI [of _ rest]) (simp del: find_markers.simps)
  qed
qed

section \<open>Replacing the markers in order\<close>

text \<open>A bind marker that cannot be part of a one-time marker.\<close>

definition bind_marker_ok :: "string \<Rightarrow> string \<Rightarrow> bool" where
  "bind_marker_ok nonce bm \<longleftrightarrow> bm \<noteq> [] \<and> CHR ''_'' \<notin> set bm \<and>
     (\<forall>m. is_marker nonce m \<longrightarrow> hd bm \<notin> set m)"

text \<open>No one-time marker starts in the text, whatever follows it.\<close>

definition barrier :: "string \<Rightarrow> string \<Rightarrow> bool" where
  "barrier nonce D \<longleftrightarrow> (\<forall>m R k. is_marker nonce m \<longrightarrow> k < length D \<longrightarrow> \<not> prefix m (drop k (D @ R)))"

lemma barrier_Nil [simp]: "barrier nonce []"
  by (simp add: barrier_def)

lemma piece_no_marker:
  assumes "\<And>k. k < length b \<Longrightarrow> match_marker nonce (drop k (b @ s)) = None"
    and "bind_marker_ok nonce bm" and "is_marker nonce m" and "k < length b"
  shows "\<not> prefix m (drop k b @ bm @ R)"
proof
  assume pre: "prefix m (drop k b @ bm @ R)"
  then obtain z where z: "drop k b @ bm @ R = m @ z" by (auto simp: prefix_def)
  show False
  proof (cases "length m \<le> length (drop k b)")
    case True
    have "prefix (drop k b) (drop k b @ bm @ R)" by simp
    with pre True have "prefix m (drop k b)" by (metis prefix_length_prefix)
    then obtain y where "drop k b = m @ y" by (auto simp: prefix_def)
    then have "drop k (b @ s) = m @ y @ s" using assms(4) by simp
    with assms(1) [OF assms(4)] is_marker_match [OF assms(3), of "y @ s"] show False by simp
  next
    case False
    obtain c bm' where bm: "bm = c # bm'" using assms(2) by (cases bm) (auto simp: bind_marker_ok_def)
    have "m ! length (drop k b) = (m @ z) ! length (drop k b)" using False by (simp add: nth_append)
    also have "\<dots> = c" unfolding z [symmetric] bm by (simp only: nth_append_length append_Cons)
    finally have "c \<in> set m" using False by (metis not_le nth_mem)
    with assms(2,3) bm show False by (auto simp: bind_marker_ok_def)
  qed
qed

lemma barrier_append:
  assumes "barrier nonce D" and "bind_marker_ok nonce bm"
    and "\<And>k. k < length b \<Longrightarrow> match_marker nonce (drop k (b @ s)) = None"
  shows "barrier nonce (D @ b @ bm)"
  unfolding barrier_def
proof (intro allI impI)
  fix m R k assume m: "is_marker nonce m" and k: "k < length (D @ b @ bm)"
  consider (first) "k < length D" | (piece) "length D \<le> k" "k < length D + length b"
    | (bind) "length D + length b \<le> k" by linarith
  then show "\<not> prefix m (drop k ((D @ b @ bm) @ R))"
  proof cases
    case first
    with assms(1) m show ?thesis unfolding barrier_def by (metis append.assoc)
  next
    case piece
    then have "k - length D < length b" by linarith
    from piece_no_marker [OF assms(3,2) m this, of R] piece show ?thesis by simp
  next
    case bind
    let ?j = "k - (length D + length b)"
    have j: "?j < length bm" using bind k by simp
    have "drop k ((D @ b @ bm) @ R) = drop ?j bm @ R" using bind k by simp
    moreover have "drop ?j bm = bm ! ?j # drop (Suc ?j) bm" using j by (simp add: Cons_nth_drop_Suc)
    moreover have "bm ! ?j \<noteq> CHR ''_''" using j assms(2) nth_mem by (fastforce simp: bind_marker_ok_def)
    ultimately show ?thesis using is_marker_head [OF m] by (cases m) auto
  qed
qed

lemma replace_first_skip:
  "(\<And>k. k < length D \<Longrightarrow> \<not> prefix old (drop k (D @ R))) \<Longrightarrow>
     replace_first old new (D @ R) = D @ replace_first old new R"
proof (induction D)
  case Nil
  then show ?case by simp
next
  case (Cons c D)
  have "\<not> prefix old (c # D @ R)" using Cons.prems [of 0] by simp
  moreover have "\<not> prefix old (drop k (D @ R))" if "k < length D" for k
    using Cons.prems [of "Suc k"] that by simp
  ultimately show ?case using Cons.IH by simp
qed

lemma replace_first_here: "old \<noteq> [] \<Longrightarrow> replace_first old new (old @ R) = new @ R"
  by (cases old) simp_all

lemma replace_markers:
  assumes "scanned nonce segs rest" and "barrier nonce D" and "bind_marker_ok nonce bm"
  shows "fold (\<lambda>m t. replace_first m bm t) (map snd segs) (D @ interleave segs rest) =
    D @ interleave (map (\<lambda>(b, m). (b, bm)) segs) rest"
  using assms(1,2)
proof (induction segs arbitrary: D)
  case Nil
  then show ?case by simp
next
  case (Cons x segs)
  obtain b m where x: "x = (b, m)" by (cases x)
  with Cons.prems have m: "is_marker nonce m" and rest: "scanned nonce segs rest"
    and clean: "\<And>k. k < length b \<Longrightarrow> match_marker nonce (drop k (b @ m @ interleave segs rest)) = None"
    by auto
  have "barrier nonce (D @ b @ bm)" by (rule barrier_append [OF Cons.prems(2) assms(3) clean])
  have none: "\<not> prefix m (drop k ((D @ b) @ m @ interleave segs rest))" if "k < length (D @ b)" for k
  proof (cases "k < length D")
    case True
    with Cons.prems(2) m show ?thesis unfolding barrier_def by (metis append.assoc)
  next
    case False
    with that have k: "k - length D < length b" by simp
    have "drop k ((D @ b) @ m @ interleave segs rest) = drop (k - length D) (b @ m @ interleave segs rest)"
      using False by simp
    moreover have "\<not> prefix m (drop (k - length D) (b @ m @ interleave segs rest))"
    proof
      assume "prefix m (drop (k - length D) (b @ m @ interleave segs rest))"
      then obtain z where "drop (k - length D) (b @ m @ interleave segs rest) = m @ z" by (auto simp: prefix_def)
      with clean [OF k] is_marker_match [OF m] show False by simp
    qed
    ultimately show ?thesis by simp
  qed
  have "replace_first m bm (D @ interleave (x # segs) rest) = (D @ b @ bm) @ interleave segs rest"
    using replace_first_skip [of "D @ b" m "m @ interleave segs rest" bm, OF none]
      replace_first_here [of m] is_marker_head [OF m] x by simp
  then show ?case
    using Cons.IH [OF rest \<open>barrier nonce (D @ b @ bm)\<close>] x by simp
qed

text \<open>The markers of both dialects, and a nonce of hexadecimal digits.\<close>

definition nonce_ok :: "string \<Rightarrow> bool" where
  "nonce_ok nonce \<longleftrightarrow> list_all (\<lambda>c. is_ascii_digit c \<or> c \<in> {CHR ''a'', CHR ''b'', CHR ''c'',
     CHR ''d'', CHR ''e'', CHR ''f''}) nonce"

lemma bind_marker_ok_dialects:
  assumes "nonce_ok nonce" and "d \<in> {SQLSERVER, MYSQL}"
  shows "bind_marker_ok nonce (d_bind_marker d)"
proof -
  have "c \<notin> set m" if "is_marker nonce m" "c \<in> {CHR ''?'', CHR ''%''}" for c m
  proof -
    from that(1) obtain ds where "list_all is_ascii_digit ds" "m = marker_prefix nonce @ ds @ ''__''"
      by (auto simp: is_marker_def)
    moreover have "\<not> is_ascii_digit c" using that(2) by (auto simp: is_ascii_digit_def)
    ultimately show ?thesis using assms(1) that(2)
      by (auto simp: marker_prefix_def nonce_ok_def list_all_iff)
  qed
  then have no: "\<forall>m. is_marker nonce m \<longrightarrow> CHR ''?'' \<notin> set m" "\<forall>m. is_marker nonce m \<longrightarrow> CHR ''%'' \<notin> set m"
    by blast+
  from assms(2) have "d_bind_marker d = ''?'' \<or> d_bind_marker d = ''%s''"
    by (auto simp: SQLSERVER_def MYSQL_def)
  then show ?thesis
    unfolding bind_marker_ok_def using no by (elim disjE) (simp_all only: list.sel, simp_all)
qed

section \<open>The driver's formatting\<close>

text \<open>
  \<open>text % args\<close> as PyMySQL fills in the binds: \<open>%%\<close> is a percent sign and each
  \<open>%s\<close> the next argument's text.
\<close>

fun percent_format :: "string \<Rightarrow> string list \<Rightarrow> string option" where
  "percent_format [] args = (if args = [] then Some [] else None)"
| "percent_format [c] args = (if c \<noteq> CHR ''%'' \<and> args = [] then Some [c] else None)"
| "percent_format (c # d # s) args =
     (if c \<noteq> CHR ''%'' then map_option ((#) c) (percent_format (d # s) args)
      else if d = CHR ''%'' then map_option ((#) c) (percent_format s args)
      else if d = CHR ''s'' then (case args of [] \<Rightarrow> None
        | x # xs \<Rightarrow> map_option ((@) x) (percent_format s xs))
      else None)"

abbreviation escaped :: "string \<Rightarrow> string" where
  "escaped \<equiv> replace_char (CHR ''%'') ''%%''"

lemma escaped_simps [simp]:
  "escaped [] = []" "escaped (c # s) = (if c = CHR ''%'' then ''%%'' else [c]) @ escaped s"
  "escaped (s @ t) = escaped s @ escaped t"
  by (simp_all add: replace_char_def)

lemma percent_format_plain: "c \<noteq> CHR ''%'' \<Longrightarrow> percent_format (c # s) args = map_option ((#) c) (percent_format s args)"
  by (cases s) auto

lemma percent_format_escaped: "percent_format (escaped s @ R) args = map_option ((@) s) (percent_format R args)"
proof (induction s)
  case Nil
  show ?case by (cases "percent_format R args") simp_all
next
  case (Cons c s)
  then show ?case
    by (cases "c = CHR ''%''") (simp_all add: percent_format_plain option.map_comp comp_def)
qed

lemma percent_format_interleave:
  assumes "length args = length bs"
  shows "percent_format (interleave (map (\<lambda>b. (escaped b, ''%s'')) bs) (escaped rest)) args =
    Some (interleave (zip bs args) rest)"
  using assms
proof (induction bs arbitrary: args)
  case Nil
  then show ?case using percent_format_escaped [of rest "[]" "[]"] by simp
next
  case (Cons b bs)
  then obtain x xs where "args = x # xs" "length xs = length bs" by (cases args) auto
  with Cons.IH [of xs] show ?case by (simp add: percent_format_escaped)
qed

text \<open>A text whose escaped form contains a percent-free piece contains that piece.\<close>

lemma escaped_split:
  assumes "escaped u = x @ m @ y" and "m \<noteq> []" and "CHR ''%'' \<notin> set m"
  shows "\<exists>u1 u2. u = u1 @ m @ u2 \<and> escaped u1 = x \<and> escaped u2 = y"
  using assms(1)
proof (induction u arbitrary: x)
  case Nil
  with assms(2) show ?case by simp
next
  case (Cons c u)
  show ?case
  proof (cases x)
    case (Cons d x')
    show ?thesis
    proof (cases "c = CHR ''%''")
      case True
      then have "escaped (c # u) = CHR ''%'' # CHR ''%'' # escaped u" by simp
      moreover have "escaped (c # u) = d # x' @ m @ y" using Cons.prems by (simp only: Cons append_Cons)
      ultimately have "CHR ''%'' # CHR ''%'' # escaped u = d # x' @ m @ y" by metis
      then have d: "d = CHR ''%''" "CHR ''%'' # escaped u = x' @ m @ y" by (metis list.inject)+
      have "x' \<noteq> []"
        using d(2) assms(2,3) by (cases m) auto
      with d(2) obtain x'' where x': "x' = CHR ''%'' # x''" "escaped u = x'' @ m @ y" by (cases x') auto
      from Cons.IH [OF x'(2)] obtain u1 u2 where "u = u1 @ m @ u2" "escaped u1 = x''" "escaped u2 = y" by blast
      moreover have "escaped (CHR ''%'' # u1) = CHR ''%'' # CHR ''%'' # escaped u1" by simp
      ultimately show ?thesis using True Cons d(1) x'(1) by (metis append_Cons)
    next
      case False
      with Cons.prems Cons have "d = c" "escaped u = x' @ m @ y" by simp_all
      from Cons.IH [OF this(2)] obtain u1 u2 where "u = u1 @ m @ u2" "escaped u1 = x'" "escaped u2 = y" by blast
      with False Cons \<open>d = c\<close> show ?thesis by (intro exI [of _ "c # u1"] exI [of _ u2]) simp
    qed
  next
    case Nil
    have "\<exists>u2. v = n @ u2 \<and> escaped u2 = y" if "escaped v = n @ y" "CHR ''%'' \<notin> set n" for v n
      using that
    proof (induction n arbitrary: v)
      case (Cons e n)
      then obtain f w where "v = f # w" by (cases v) auto
      with Cons show ?case by (auto split: if_splits)
    qed simp
    with Cons.prems Nil assms(3) obtain u2 where "c # u = m @ u2" "escaped u2 = y"
      by (metis append_Nil)
    with Nil show ?thesis by (intro exI [of _ "[]"] exI [of _ u2]) simp
  qed
qed

lemma escaped_interleave:
  assumes "escaped u = interleave segs rest"
    and "\<And>b m. (b, m) \<in> set segs \<Longrightarrow> m \<noteq> [] \<and> CHR ''%'' \<notin> set m"
  shows "\<exists>bs rest'. u = interleave (zip bs (map snd segs)) rest' \<and> length bs = length segs \<and>
    map fst segs = map escaped bs \<and> rest = escaped rest'"
  using assms
proof (induction segs arbitrary: u)
  case Nil
  then show ?case by auto
next
  case (Cons x segs)
  obtain b m where x: "x = (b, m)" by (cases x)
  with Cons.prems have "escaped u = b @ m @ interleave segs rest" "m \<noteq> []" "CHR ''%'' \<notin> set m" by auto
  from escaped_split [OF this] obtain u1 u2 where u: "u = u1 @ m @ u2" "escaped u1 = b"
    "escaped u2 = interleave segs rest" by blast
  from Cons.IH [OF u(3)] Cons.prems(2) obtain bs rest' where
    "u2 = interleave (zip bs (map snd segs)) rest'" "length bs = length segs"
    "map fst segs = map escaped bs" "rest = escaped rest'" by auto
  with u x show ?case by (intro exI [of _ "u1 # bs"] exI [of _ rest']) simp
qed

section \<open>Replacing leaves\<close>

text \<open>Positions of nodes without children: replacing one leaves the others.\<close>

definition leaf :: "node \<Rightarrow> bool" where
  "leaf n \<longleftrightarrow> (\<forall>s. child n s = None)"

definition leaves_at :: "node \<Rightarrow> pos list \<Rightarrow> bool" where
  "leaves_at t ps \<longleftrightarrow> distinct ps \<and> (\<forall>p \<in> set ps. \<exists>n. sub t p = Some n \<and> leaf n)"

lemma sub_leaf: "leaf n \<Longrightarrow> sub n p = (if p = [] then Some n else None)"
  by (cases p) (simp_all add: leaf_def del: split_paired_All)

lemma leaf_not_above:
  assumes "sub t p = Some n" and "leaf n" and "sub t q = Some m" and "q \<noteq> p"
  shows "\<not> prefix p q"
proof
  assume "prefix p q"
  then obtain r where "q = p @ r" by (auto simp: prefix_def)
  with assms show False by (auto simp: sub_append sub_leaf split: if_splits)
qed

lemma leaves_at_replace:
  assumes "leaves_at t (p # ps)"
  shows "leaves_at (replace_at p x t) ps" and "q \<in> set ps \<Longrightarrow> sub (replace_at p x t) q = sub t q"
proof -
  from assms obtain n where n: "sub t p = Some n" "leaf n" by (auto simp: leaves_at_def)
  show same: "sub (replace_at p x t) q = sub t q" if "q \<in> set ps" for q
  proof -
    from assms that obtain m where m: "sub t q = Some m" "leaf m" "q \<noteq> p"
      by (auto simp: leaves_at_def)
    then show ?thesis
      using leaf_not_above [OF n m(1,3)] leaf_not_above [OF m(1,2) n(1)] by (simp add: sub_upd_disjoint)
  qed
  show "leaves_at (replace_at p x t) ps"
    using assms same by (simp add: leaves_at_def)
qed

lemma fold_marker_step:
  assumes "leaves_at t ps"
  shows "snd (fold (marker_step nonce) ps (t, acc)) =
    acc @ map (\<lambda>p. arg_str (arg (the (sub t p)) ''this'')) ps"
  using assms
proof (induction ps arbitrary: t acc)
  case Nil
  then show ?case by simp
next
  case (Cons p ps)
  from Cons.prems obtain n where n: "sub t p = Some n" by (auto simp: leaves_at_def)
  define x where "x = mk KVar [(''this'', AStr (marker nonce (length acc)))]"
  note rest = leaves_at_replace [OF Cons.prems]
  have "map (\<lambda>p. arg_str (arg (the (sub (replace_at p0 x t) p)) ''this'')) ps =
      map (\<lambda>p. arg_str (arg (the (sub t p)) ''this'')) ps" if "p0 = p" for p0
    using rest(2) that by simp
  with Cons.IH [OF rest(1)] n show ?case by (simp add: marker_step_def x_def)
qed

lemma leaf_placeholder: "leaf (placeholder k)"
  by (simp add: leaf_def placeholder_def child_def arg_def)

text \<open>Binding the sites: each one's literal becomes its placeholder, the rest stays.\<close>

lemma fold_bind_step:
  assumes "leaves_at t (map site_literal sites)"
  shows "snd (fold bind_step sites (t, acc)) =
      acc @ map (\<lambda>k. (bind_name (length acc + k), site_value (sites ! k))) [0..<length sites]"
    and "k < length sites \<Longrightarrow> sub (fst (fold bind_step sites (t, acc))) (site_literal (sites ! k)) =
      Some (placeholder (length acc + k))"
    and "kind_at (fst (fold bind_step sites (t, acc))) q = Some KPlaceholder \<Longrightarrow>
      kind_at t q \<noteq> Some KPlaceholder \<Longrightarrow> q \<in> set (map site_literal sites)"
  using assms
proof (induction sites arbitrary: t acc k)
  case Nil
  { case 1 then show ?case by simp }
  { case 2 then show ?case by simp }
  { case 3 then show ?case by simp }
next
  case (Cons s sites)
  have step: "fold bind_step (s # sites) (t, acc) = fold bind_step sites
      (replace_at (site_literal s) (placeholder (length acc)) t,
       acc @ [(bind_name (length acc), site_value s)])" for t acc
    by (simp add: bind_step_def)
  have upt: "[0..<length (s # sites)] = 0 # map Suc [0..<length sites]"
    by (simp add: upt_conv_Cons map_Suc_upt del: upt_Suc)
  { case (1 t acc)
    let ?t = "replace_at (site_literal s) (placeholder (length acc)) t"
    let ?acc = "acc @ [(bind_name (length acc), site_value s)]"
    from 1 have "leaves_at t (site_literal s # map site_literal sites)" by simp
    then have "leaves_at ?t (map site_literal sites)" by (rule leaves_at_replace(1))
    from Cons.IH(1) [OF this, of ?acc] show ?case unfolding step upt by simp }
  { case (2 t acc k)
    let ?t = "replace_at (site_literal s) (placeholder (length acc)) t"
    let ?acc = "acc @ [(bind_name (length acc), site_value s)]"
    from 2 have lv: "leaves_at t (site_literal s # map site_literal sites)" by simp
    then have rest: "leaves_at ?t (map site_literal sites)" by (rule leaves_at_replace(1))
    show ?case
    proof (cases k)
      case 0
      have keep: "sub (fst (fold bind_step ss (u, a))) p = sub u p"
        if "leaves_at u (map site_literal ss @ [p])" for ss u a p
        using that
      proof (induction ss arbitrary: u a)
        case (Cons s' ss)
        then have "leaves_at u (site_literal s' # map site_literal ss @ [p])" by simp
        from leaves_at_replace(1) [OF this] leaves_at_replace(2) [OF this, of p] Cons.IH
        show ?case by (simp add: bind_step_def)
      qed simp
      obtain n where n: "sub t (site_literal s) = Some n" using lv by (auto simp: leaves_at_def)
      then have at: "sub ?t (site_literal s) = Some (placeholder (length acc))" by (simp add: sub_upd_same)
      with rest lv leaf_placeholder have "leaves_at ?t (map site_literal sites @ [site_literal s])"
        by (auto simp: leaves_at_def)
      from keep [OF this] at 0 show ?thesis unfolding step by simp
    next
      case (Suc j)
      with 2 have "j < length sites" by simp
      from Cons.IH(2) [OF this rest, of ?acc] Suc show ?thesis unfolding step by simp
    qed }
  { case (3 t acc)
    let ?t = "replace_at (site_literal s) (placeholder (length acc)) t"
    let ?acc = "acc @ [(bind_name (length acc), site_value s)]"
    from 3 have lv: "leaves_at t (site_literal s # map site_literal sites)" by simp
    then have rest: "leaves_at ?t (map site_literal sites)" by (rule leaves_at_replace(1))
    show ?case
    proof (cases "kind_at ?t q = Some KPlaceholder")
      case False
      from Cons.IH(3) [OF 3(1) [unfolded step] False rest] show ?thesis by simp
    next
      case True
      obtain n where n: "sub t (site_literal s) = Some n" "leaf n"
        using lv by (auto simp: leaves_at_def)
      have "q = site_literal s"
      proof (rule ccontr)
        assume neq: "q \<noteq> site_literal s"
        have "\<not> prefix (site_literal s) q"
        proof
          assume "prefix (site_literal s) q"
          with neq obtain x r where "q = site_literal s @ x # r" by (metis append_Nil2 neq_Nil_conv prefixE)
          moreover have "sub (placeholder (length acc)) (x # r) = None"
            using sub_leaf [OF leaf_placeholder] by (simp del: sub.simps)
          ultimately show False using True n(1)
            by (simp add: kind_at_def sub_upd_below del: sub.simps)
        qed
        then have "kind_at ?t q = kind_at t q"
          using neq kind_at_upd_above [of q "site_literal s"]
          by (cases "prefix q (site_literal s)") (auto simp: strict_prefix_def kind_at_def sub_upd_disjoint)
        with True 3(2) show False by simp
      qed
      then show ?thesis by simp
    qed }
qed

section \<open>Rendering\<close>

lemma to_positional_Inr:
  assumes "to_positional lib nonce q params d = Inr (sql, values)"
    and "leaves_at q ps" and "ps = find_all (sg_walk lib) [KPlaceholder] q"
    and "bind_marker_ok nonce (d_bind_marker d)"
  obtains rendered text0 segs rest where
    "rendered = fst (fold (marker_step nonce) ps (q, []))"
    "sg_sql lib (d_name d) rendered = Inr text0" "escape_percent d text0 = interleave segs rest"
    "map snd segs = find_markers nonce (escape_percent d text0)"
    "mset (map snd segs) = mset (map (marker nonce) [0..<length ps])"
    "sql = interleave (map (\<lambda>(b, m). (b, d_bind_marker d)) segs) rest"
    "list_all2 (\<lambda>m v. \<exists>k < length ps. m = marker nonce k \<and>
       map_of params (arg_str (arg (the (sub q (ps ! k))) ''this'')) = Some v) (map snd segs) values"
proof -
  let ?names = "map (\<lambda>p. arg_str (arg (the (sub q p)) ''this'')) ps"
  obtain rendered where fold: "fold (marker_step nonce) ps (q, []) = (rendered, ?names)"
    using fold_marker_step [OF assms(2), of nonce "[]"] by (metis append_Nil prod.collapse)
  then have rendered: "rendered = fst (fold (marker_step nonce) ps (q, []))" by simp
  let ?ms = "map (marker nonce) [0..<length ps]"
  from assms(1) fold obtain text0 where text0: "sg_sql lib (d_name d) rendered = Inr text0"
    and len: "length (find_markers nonce (escape_percent d text0)) = length ?ms"
    and set: "set (find_markers nonce (escape_percent d text0)) = set ?ms"
    and vals: "rmap (bind_value nonce ?names params) (find_markers nonce (escape_percent d text0)) = Inr values"
    and sql: "sql = fold (\<lambda>m t. replace_first m (d_bind_marker d) t)
      (find_markers nonce (escape_percent d text0)) (escape_percent d text0)"
    by (auto simp: to_positional_def assms(3) [symmetric] result_simps Let_def)
  obtain segs rest where segs: "escape_percent d text0 = interleave segs rest"
    "find_markers nonce (escape_percent d text0) = map snd segs" "scanned nonce segs rest"
    using find_markers_scanned by blast
  have dist: "distinct ?ms" by (auto simp: distinct_map inj_on_def dest: marker_inj)
  have "card (set (map snd segs)) = length (map snd segs)"
    using set len segs(2) distinct_card [OF dist] by metis
  then have "distinct (map snd segs)" by (rule card_distinct)
  then have ms: "mset (map snd segs) = mset ?ms"
    using set segs(2) dist by (metis set_eq_iff_mset_eq_distinct)
  have "sql = interleave (map (\<lambda>(b, m). (b, d_bind_marker d)) segs) rest"
    using replace_markers [OF segs(3) barrier_Nil assms(4)] sql segs(1,2) by simp
  moreover have "list_all2 (\<lambda>m v. \<exists>k < length ps. m = marker nonce k \<and>
       map_of params (arg_str (arg (the (sub q (ps ! k))) ''this'')) = Some v) (map snd segs) values"
    using vals unfolding segs(2) rmap_eq_Inr_iff
  proof (rule list_all2_mono)
    fix m v assume "bind_value nonce ?names params m = Inr v"
    then obtain name where name: "map_of (map (\<lambda>k. (marker nonce k, ?names ! k)) [0..<length ps]) m = Some name"
      "map_of params name = Some v"
      by (auto simp: bind_value_def split: option.splits)
    from map_of_SomeD [OF name(1)] name(2)
    show "\<exists>k < length ps. m = marker nonce k \<and>
       map_of params (arg_str (arg (the (sub q (ps ! k))) ''this'')) = Some v" by auto
  qed
  ultimately show thesis by (rule that [OF rendered text0 segs(1) segs(2) [symmetric] ms])
qed

section \<open>The issued query\<close>

text \<open>What the decision's sites are: string literals outside the row limit, each once.\<close>

definition sites_ok :: "node \<Rightarrow> token_site list \<Rightarrow> bool" where
  "sites_ok q sites \<longleftrightarrow> leaves_at q (map site_literal sites) \<and>
     (\<forall>p \<in> set (map site_literal sites). p \<noteq> [] \<and> fst (hd p) \<noteq> ''limit'') \<and>
     (\<forall>p. kind_at q p \<noteq> Some KPlaceholder)"

definition site_lookup :: "token_site list \<Rightarrow> pos \<Rightarrow> pyval option" where
  "site_lookup sites = map_of (map (\<lambda>s. (site_literal s, site_value s)) sites)"

lemma site_lookup_site:
  assumes "distinct (map site_literal sites)" and "s \<in> set sites"
  shows "site_lookup sites (site_literal s) = Some (site_value s)"
  unfolding site_lookup_def using assms by (intro map_of_is_SomeI) (auto simp: comp_def)

lemma bind_name_inj: "bind_name j = bind_name k \<Longrightarrow> j = k"
  by (auto simp: bind_name_def dest: str_nat_inj)

lemma sub_set_arg_other: "fst s \<noteq> k \<Longrightarrow> sub (set_arg k v n) (s # p) = sub n (s # p)"
  using child_cong [of "set_arg k v n" s n] by simp

lemma kind_at_limit_node: "kind_at (limit_node n) p \<noteq> Some KPlaceholder"
proof -
  have lit: "leaf (literal_number n)" by (simp add: leaf_def literal_number_def child_def arg_def)
  show ?thesis
  proof (cases p)
    case Nil
    then show ?thesis by (simp add: kind_at_def limit_node_def)
  next
    case (Cons s r)
    have "child (limit_node n) s = None \<or> child (limit_node n) s = Some (literal_number n)"
      by (auto simp: limit_node_def child_def arg_def)
    moreover have "nkind (literal_number n) = KLiteral" by (simp add: literal_number_def)
    ultimately show ?thesis using Cons sub_leaf [OF lit, of r]
      by (auto simp: kind_at_def split: if_splits)
  qed
qed

lemma bound_placeholders:
  assumes "sites_ok q0 sites" and "nkind q0 = KSelect"
    and "q = set_arg ''limit'' (ANode (limit_node n)) (fst (fold bind_step sites (q0, [])))"
  shows "kind_at q p = Some KPlaceholder \<longleftrightarrow> p \<in> set (map site_literal sites)"
    and "k < length sites \<Longrightarrow> sub q (site_literal (sites ! k)) = Some (placeholder k)"
proof -
  let ?b = "fst (fold bind_step sites (q0, []))"
  have lv: "leaves_at q0 (map site_literal sites)" using assms(1) by (simp add: sites_ok_def)
  have outside: "sub q p = sub ?b p" if "p \<noteq> []" "fst (hd p) \<noteq> ''limit''" for p
    using that sub_set_arg_other [of "hd p" "''limit''" _ ?b "tl p"] assms(3) by simp
  have site: "sub q (site_literal (sites ! k)) = Some (placeholder k)" if k: "k < length sites" for k
  proof -
    have "site_literal (sites ! k) \<in> set (map site_literal sites)" using k by simp
    with assms(1) have "sub q (site_literal (sites ! k)) = sub ?b (site_literal (sites ! k))"
      by (intro outside) (auto simp: sites_ok_def)
    with fold_bind_step(2) [OF lv k, of "[]"] show ?thesis by simp
  qed
  show "k < length sites \<Longrightarrow> sub q (site_literal (sites ! k)) = Some (placeholder k)" by (rule site)
  show "kind_at q p = Some KPlaceholder \<longleftrightarrow> p \<in> set (map site_literal sites)"
  proof
    assume "p \<in> set (map site_literal sites)"
    then obtain k where "k < length sites" "p = site_literal (sites ! k)" by (auto simp: in_set_conv_nth)
    with site show "kind_at q p = Some KPlaceholder" by (simp add: kind_at_def placeholder_def)
  next
    assume p: "kind_at q p = Some KPlaceholder"
    have root: "nkind (fst (fold bind_step ss (u, a))) = nkind u"
      if "\<forall>x \<in> set (map site_literal ss). x \<noteq> []" for ss u a
      using that by (induction ss arbitrary: u a) (simp_all add: bind_step_def nkind_upd)
    have "nkind ?b = KSelect" using root [of sites q0 "[]"] assms(1,2) by (auto simp: sites_ok_def)
    with p assms(3) have "p \<noteq> []" by (auto simp: kind_at_def)
    then obtain s r where sr: "p = s # r" by (cases p) auto
    have "fst s \<noteq> ''limit''"
    proof
      assume lim: "fst s = ''limit''"
      then have "child q s = (if snd s = 0 then Some (limit_node n) else None)"
        by (simp add: assms(3) child_def)
      with p sr kind_at_limit_node [of n r] show False by (auto simp: kind_at_def split: if_splits)
    qed
    with sr have "kind_at ?b p = Some KPlaceholder" using p outside [of p] by (simp add: kind_at_def)
    with fold_bind_step(3) [OF lv, of "[]" p] assms(1) show "p \<in> set (map site_literal sites)"
      by (simp add: sites_ok_def)
  qed
qed

text \<open>
  \<open>binds_in_order\<close>: the values follow the markers of the generated text; a marker numbers a
  placeholder, and its value is that of the token the placeholder replaced.
\<close>

definition binds_in_order :: "string \<Rightarrow> pos list \<Rightarrow> token_site list \<Rightarrow> string list \<Rightarrow> pyval list \<Rightarrow> bool" where
  "binds_in_order nonce ps sites ms values \<longleftrightarrow>
     list_all2 (\<lambda>m v. \<exists>k < length ps. m = marker nonce k \<and> site_lookup sites (ps ! k) = Some v) ms values"

lemma binds_once:
  assumes "binds_in_order nonce ps sites ms values"
    and "mset ms = mset (map (marker nonce) [0..<length ps])"
    and "distinct (map site_literal sites)" and "mset ps = mset (map site_literal sites)"
  shows "mset values = mset (map site_value sites)"
proof -
  define num where "num = (\<lambda>m. THE k. marker nonce k = m)"
  have num: "num (marker nonce k) = k" for k
    unfolding num_def by (rule the_equality) (auto dest: marker_inj)
  let ?v = "\<lambda>p. the (site_lookup sites p)"
  have "values = map (\<lambda>m. ?v (ps ! num m)) ms"
    using assms(1) unfolding binds_in_order_def by (induction rule: list_all2_induct) (auto simp: num)
  then have "mset values = image_mset (\<lambda>m. ?v (ps ! num m)) (mset ms)" by simp
  also have "\<dots> = mset (map (\<lambda>k. ?v (ps ! k)) [0..<length ps])" unfolding assms(2) by (simp add: num image_mset.compositionality comp_def)
  also have "map (\<lambda>k. ?v (ps ! k)) [0..<length ps] = map ?v ps"
    by (rule nth_equalityI) simp_all
  also have "mset (map ?v ps) = mset (map ?v (map site_literal sites))" using assms(4) by (metis mset_map)
  also have "map ?v (map site_literal sites) = map site_value sites"
    using site_lookup_site [OF assms(3)] by simp
  finally show ?thesis .
qed

lemma issue_steps:
  assumes "issue_validated_query lib nonce a dec alias database m runtime lim d = Inr vq"
  obtains bound params where
    "1 \<le> m" "m \<le> hard_max_rows runtime"
    "fold bind_step (pd_token_sites dec) (an_query a, []) = (bound, params)"
    "cap_rows bound m = Inr (vq_ast vq)" "check_limits (sg_walk lib) (vq_ast vq) lim = Inr ()"
    "validate_allowlist (sg_walk lib) (vq_ast vq) True = Inr ()"
    "to_positional lib nonce (vq_ast vq) params d = Inr (vq_sql vq, vq_parameters vq)"
    "\<not> is_substr TOKEN_PREFIX (vq_sql vq)"
    "plan_outputs (an_outputs a) (pd_protected dec) = Inr (vq_outputs vq)"
    "vq_alias vq = alias" "vq_database vq = database" "vq_max_rows vq = m"
  using assms
  by (cases "fold bind_step (pd_token_sites dec) (an_query a, [])")
    (auto simp: issue_validated_query_def result_simps check_row_limit_Inr Let_def)

lemma issue_binds:
  assumes "issue_validated_query lib nonce a dec alias database m runtime lim d = Inr vq"
    and "walk_ok (sg_walk lib)" and "sites_ok (an_query a) (pd_token_sites dec)"
    and "nkind (an_query a) = KSelect" and "nonce_ok nonce" and "d \<in> {SQLSERVER, MYSQL}"
  obtains rendered text0 segs rest ps where
    "ps = find_all (sg_walk lib) [KPlaceholder] (vq_ast vq)"
    "mset ps = mset (map site_literal (pd_token_sites dec))"
    "rendered = fst (fold (marker_step nonce) ps (vq_ast vq, []))"
    "sg_sql lib (d_name d) rendered = Inr text0" "escape_percent d text0 = interleave segs rest"
    "mset (map snd segs) = mset (map (marker nonce) [0..<length ps])"
    "vq_sql vq = interleave (map (\<lambda>(b, m). (b, d_bind_marker d)) segs) rest"
    "binds_in_order nonce ps (pd_token_sites dec) (map snd segs) (vq_parameters vq)"
proof -
  let ?sites = "pd_token_sites dec"
  from assms(1) obtain bound params where m: "1 \<le> m"
    and fold: "fold bind_step ?sites (an_query a, []) = (bound, params)"
    and cap: "cap_rows bound m = Inr (vq_ast vq)"
    and pos: "to_positional lib nonce (vq_ast vq) params d = Inr (vq_sql vq, vq_parameters vq)"
    by (rule issue_steps)
  from m have m0: "0 \<le> m" by simp
  obtain r where q: "vq_ast vq = set_arg ''limit'' (ANode (limit_node (min r (m + 1)))) bound"
    by (rule cap_rows_Inr [OF cap m0])
  define ps where "ps = find_all (sg_walk lib) [KPlaceholder] (vq_ast vq)"
  have q': "vq_ast vq = set_arg ''limit'' (ANode (limit_node (min r (m + 1))))
      (fst (fold bind_step ?sites (an_query a, [])))" by (simp add: q fold)
  note ph = bound_placeholders [OF assms(3,4) q']
  have lv: "leaves_at (an_query a) (map site_literal ?sites)" using assms(3) by (simp add: sites_ok_def)
  have set: "set ps = set (map site_literal ?sites)"
    by (auto simp: ps_def set_find_all [OF assms(2)] ph(1))
  have dist: "distinct ps" "distinct (map site_literal ?sites)"
    using lv by (simp_all add: ps_def distinct_find_all [OF assms(2)] leaves_at_def)
  have mset: "mset ps = mset (map site_literal ?sites)"
    using set dist by (metis set_eq_iff_mset_eq_distinct)
  have at: "\<exists>j < length ?sites. p = site_literal (?sites ! j) \<and> sub (vq_ast vq) p = Some (placeholder j)"
    if "p \<in> set ps" for p
  proof -
    from that set obtain j where "j < length ?sites" "p = site_literal (?sites ! j)"
      by (auto simp: in_set_conv_nth)
    with ph(2) show ?thesis by blast
  qed
  have lps: "leaves_at (vq_ast vq) ps"
    using dist(1) at leaf_placeholder by (fastforce simp: leaves_at_def)
  have params: "params = map (\<lambda>k. (bind_name k, site_value (?sites ! k))) [0..<length ?sites]"
    using fold_bind_step(1) [OF lv, of "[]"] fold by simp
  have dk: "distinct (map fst params)"
    by (auto simp: params comp_def distinct_map inj_on_def dest: bind_name_inj)
  obtain rendered text0 segs rest where
    out: "rendered = fst (fold (marker_step nonce) ps (vq_ast vq, []))"
    "sg_sql lib (d_name d) rendered = Inr text0" "escape_percent d text0 = interleave segs rest"
    "mset (map snd segs) = mset (map (marker nonce) [0..<length ps])"
    "vq_sql vq = interleave (map (\<lambda>(b, m). (b, d_bind_marker d)) segs) rest"
    and vals: "list_all2 (\<lambda>m v. \<exists>k < length ps. m = marker nonce k \<and>
       map_of params (arg_str (arg (the (sub (vq_ast vq) (ps ! k))) ''this'')) = Some v)
       (map snd segs) (vq_parameters vq)"
    by (rule to_positional_Inr [OF pos lps ps_def bind_marker_ok_dialects [OF assms(5,6)]])
  have "binds_in_order nonce ps ?sites (map snd segs) (vq_parameters vq)"
    unfolding binds_in_order_def using vals
  proof (rule list_all2_mono)
    fix x v assume "\<exists>k < length ps. x = marker nonce k \<and>
       map_of params (arg_str (arg (the (sub (vq_ast vq) (ps ! k))) ''this'')) = Some v"
    then obtain k where k: "k < length ps" "x = marker nonce k"
      "map_of params (arg_str (arg (the (sub (vq_ast vq) (ps ! k))) ''this'')) = Some v" by blast
    from at [of "ps ! k"] k(1) obtain j where j: "j < length ?sites" "ps ! k = site_literal (?sites ! j)"
      "sub (vq_ast vq) (ps ! k) = Some (placeholder j)" by auto
    have "map_of params (bind_name j) = Some (site_value (?sites ! j))"
      using dk j(1) by (intro map_of_is_SomeI) (auto simp: params)
    with k(3) j have "v = site_value (?sites ! j)" by (simp add: placeholder_def arg_def)
    with site_lookup_site [OF dist(2), of "?sites ! j"] j k(1,2)
    show "\<exists>k < length ps. x = marker nonce k \<and> site_lookup ?sites (ps ! k) = Some v" by auto
  qed
  with that [OF ps_def mset out(1-5)] show thesis by blast
qed

end
