(* ===== verification/Executor.thy ===== *)
theory Executor
  imports Bind_Facts
begin

text \<open>
  \<open>security/executor.py\<close>: running a validated query and turning the rows into cells, with
  the values of protected columns as tokens.  The database is a parameter: what
  \<open>exec_driver_sql\<close> returns or raises.  The nonces \<open>os.urandom\<close> draws are a stream.
\<close>

section \<open>Data\<close>

datatype result_encoding = EncJson | EncDecimal | EncDatetime | EncDate | EncTime | EncUuid
  | EncBase64 | EncToken

record result_column =
  rc_name :: string
  rc_source :: "source_column option"
  rc_protected :: bool
  rc_encoding :: result_encoding

record execution_result =
  er_columns :: "result_column list"
  er_rows :: "pyval list list"
  er_truncated :: bool

text \<open>The cursor: its column names and what \<open>fetchmany(n)\<close> returns or raises.\<close>

record cursor =
  cur_keys :: "string list"
  cur_fetchmany :: "int \<Rightarrow> pyval list list result"

type_synonym connection = "string \<Rightarrow> pyval list \<Rightarrow> cursor result"

definition unsupported_result :: exn where
  "unsupported_result = Domain (make_error DATABASE_ERROR
     ''The result contains a value type that is not supported.'' (Some ''Select different columns.''))"

section \<open>Cells\<close>

text \<open>\<open>_encode(value)\<close>.\<close>

fun encode :: "pyval \<Rightarrow> (pyval \<times> result_encoding) result" where
  "encode (PyStr s) = Inr (PyStr s, EncJson)"
| "encode (PyBool b) = Inr (PyBool b, EncJson)"
| "encode (PyInt i) = Inr (PyInt i, EncJson)"
| "encode (PyFloat (FloatFinite t)) = Inr (PyFloat (FloatFinite t), EncJson)"
| "encode (PyFloat _) = Inl unsupported_result"
| "encode (PyDecimal d) =
     (if decimal_is_finite d then Inr (PyStr (decimal_str d), EncDecimal) else Inl unsupported_result)"
| "encode (PyDatetime d t) = Inr (PyStr (datetime_isoformat d t), EncDatetime)"
| "encode (PyDate d) = Inr (PyStr (date_isoformat d), EncDate)"
| "encode (PyTime t) = Inr (PyStr (time_isoformat t), EncTime)"
| "encode (PyTimedelta us) =
     (if 0 \<le> us \<and> us < int DAY_MICROS
      then Inr (PyStr (time_isoformat (time_of_micros (nat us) None)), EncTime)
      else Inl unsupported_result)"
| "encode (PyUuid u) = Inr (PyStr (uuid_text u), EncUuid)"
| "encode (PyBytes b) = Inr (PyStr (b64encode b), EncBase64)"
| "encode (PyBytearray b) = Inr (PyStr (b64encode b), EncBase64)"
| "encode (PyMemoryview b) = Inr (PyStr (b64encode b), EncBase64)"
| "encode PyNone = Inl unsupported_result"
| "encode (PyOther n) = Inl unsupported_result"

definition token_cell :: "string option \<Rightarrow> pyval" where
  "token_cell t = (case t of None \<Rightarrow> PyNone | Some s \<Rightarrow> PyStr s)"

text \<open>
  The state of the loops: nonces drawn, the encoding seen per column, and what was built.
\<close>

type_synonym 'a loop_state = "nat \<times> result_encoding option list \<times> 'a list"

definition process_cell :: "aead \<Rightarrow> token_codec \<Rightarrow> (nat \<Rightarrow> bytes) \<Rightarrow> nat \<times> output_plan \<times> pyval
    \<Rightarrow> pyval loop_state \<Rightarrow> pyval loop_state result" where
  "process_cell lib codec nonces x st = (case x of (i, plan, value) \<Rightarrow> case st of (k, encs, cells) \<Rightarrow>
     if value = PyNone then Inr (k, encs, cells @ [PyNone])
     else if op_protected plan then
       rbind (encrypt lib codec (nonces k) value) (\<lambda>t.
       Inr (Suc k, encs, cells @ [token_cell t]))
     else
       rbind (encode value) (\<lambda>(v, e).
       rbind (raise_if (encs ! i \<notin> {None, Some e}) unsupported_result) (\<lambda>_.
       Inr (k, encs[i := Some e], cells @ [v]))))"

definition process_row :: "aead \<Rightarrow> token_codec \<Rightarrow> (nat \<Rightarrow> bytes) \<Rightarrow> output_plan list \<Rightarrow> pyval list
    \<Rightarrow> pyval list loop_state \<Rightarrow> pyval list loop_state result" where
  "process_row lib codec nonces outs raw st = (case st of (k, encs, rows) \<Rightarrow>
     rbind (rfold (process_cell lib codec nonces) (zip [0..<length outs] (zip outs raw)) (k, encs, []))
       (\<lambda>(k, encs, cells).
     rbind (raise_if (length raw \<noteq> length outs) (ValueError ''zip() argument lengths differ'')) (\<lambda>_.
     Inr (k, encs, rows @ [cells]))))"

definition column_of :: "output_plan \<Rightarrow> result_encoding option \<Rightarrow> result_column" where
  "column_of plan e = \<lparr>rc_name = op_label plan, rc_source = op_source plan, rc_protected = op_protected plan,
     rc_encoding = (if op_protected plan then EncToken else case e of None \<Rightarrow> EncJson | Some e \<Rightarrow> e)\<rparr>"

text \<open>The \<open>try\<close> block.\<close>

definition read_result :: "aead \<Rightarrow> token_codec \<Rightarrow> (nat \<Rightarrow> bytes) \<Rightarrow> validated_query \<Rightarrow> cursor
    \<Rightarrow> execution_result result" where
  "read_result lib codec nonces q cur =
     rbind (raise_if (length (cur_keys cur) \<noteq> length (vq_outputs q)) unsupported_result) (\<lambda>_.
     rbind (cur_fetchmany cur (vq_max_rows q + 1)) (\<lambda>fetched.
     rbind (rfold (process_row lib codec nonces (vq_outputs q)) (take (nat (vq_max_rows q)) fetched)
       (0, replicate (length (vq_outputs q)) None, [])) (\<lambda>(k, encs, rows).
     Inr \<lparr>er_columns = map (\<lambda>(plan, e). column_of plan e) (zip (vq_outputs q) encs), er_rows = rows,
       er_truncated = (int (length fetched) > vq_max_rows q)\<rparr>)))"

text \<open>The second component says that \<open>result.close()\<close> was called.\<close>

definition execute_validated :: "aead \<Rightarrow> (nat \<Rightarrow> bytes) \<Rightarrow> connection \<Rightarrow> validated_query \<Rightarrow> token_codec
    \<Rightarrow> execution_result result \<times> bool" where
  "execute_validated lib nonces conn q codec =
     (if tc_alias codec \<noteq> vq_alias q
      then (Inl (TypeError ''the token codec belongs to a different server alias''), False)
      else (case conn (vq_sql q) (vq_parameters q) of
          Inl e \<Rightarrow> (Inl e, False)
        | Inr cur \<Rightarrow> (read_result lib codec nonces q cur, True)))"

section \<open>What a result holds\<close>

text \<open>
  How a cell comes from the database's value: null stays null, a protected value is sealed, and
  another value is encoded.
\<close>

definition cell_from :: "aead \<Rightarrow> token_codec \<Rightarrow> (nat \<Rightarrow> bytes) \<Rightarrow> output_plan \<Rightarrow> result_encoding option
    \<Rightarrow> pyval \<Rightarrow> pyval \<Rightarrow> bool" where
  "cell_from lib codec nonces plan e value cell \<longleftrightarrow>
     (if value = PyNone then cell = PyNone
      else if op_protected plan then
        \<exists>k tok. encrypt lib codec (nonces k) value = Inr (Some tok) \<and> cell = PyStr tok
      else \<exists>en. e = Some en \<and> encode value = Inr (cell, en))"

text \<open>The encodings only grow.\<close>

definition encs_le :: "result_encoding option list \<Rightarrow> result_encoding option list \<Rightarrow> bool" where
  "encs_le a b \<longleftrightarrow> length a = length b \<and> (\<forall>i < length a. a ! i \<noteq> None \<longrightarrow> b ! i = a ! i)"

lemma encs_le_refl [simp]: "encs_le a a"
  by (simp add: encs_le_def)

lemma encs_le_trans: "encs_le a b \<Longrightarrow> encs_le b c \<Longrightarrow> encs_le a c"
  unfolding encs_le_def by metis

lemma encrypt_not_None: "v \<noteq> PyNone \<Longrightarrow> encrypt lib c n v = Inr t \<Longrightarrow> t \<noteq> None"
  by (auto simp: encrypt_def result_simps Let_def split: option.splits)

lemma process_cell_Inr:
  assumes "process_cell lib codec nonces (i, plan, value) (k, encs, cells) = Inr (k', encs', cells')"
    and "i < length encs"
  shows "encs_le encs encs' \<and> (\<exists>c. cells' = cells @ [c] \<and> cell_from lib codec nonces plan (encs' ! i) value c)"
proof -
  consider "value = PyNone" | "value \<noteq> PyNone" "op_protected plan" | "value \<noteq> PyNone" "\<not> op_protected plan"
    by blast
  then show ?thesis
  proof cases
    case 1
    with assms show ?thesis by (auto simp: process_cell_def cell_from_def)
  next
    case 2
    with assms(1) obtain t where t: "encrypt lib codec (nonces k) value = Inr t" "encs' = encs"
      "cells' = cells @ [token_cell t]" by (auto simp: process_cell_def result_simps)
    with encrypt_not_None [OF 2(1) t(1)] 2 show ?thesis by (auto simp: cell_from_def token_cell_def)
  next
    case 3
    with assms(1) obtain v e where v: "encode value = Inr (v, e)" "encs ! i \<in> {None, Some e}"
      "encs' = encs[i := Some e]" "cells' = cells @ [v]"
      by (auto simp: process_cell_def result_simps)
    with 3 assms(2) show ?thesis by (auto simp: cell_from_def encs_le_def nth_list_update)
  qed
qed

lemma cell_from_mono:
  assumes "cell_from lib codec nonces plan (a ! i) value c" and "encs_le a b" and "i < length a"
  shows "cell_from lib codec nonces plan (b ! i) value c"
  using assms by (auto simp: cell_from_def encs_le_def)

definition row_from :: "aead \<Rightarrow> token_codec \<Rightarrow> (nat \<Rightarrow> bytes) \<Rightarrow> output_plan list \<Rightarrow> result_encoding option list
    \<Rightarrow> pyval list \<Rightarrow> pyval list \<Rightarrow> bool" where
  "row_from lib codec nonces outs encs raw row \<longleftrightarrow> length raw = length outs \<and> length row = length outs \<and>
     (\<forall>i < length outs. cell_from lib codec nonces (outs ! i) (encs ! i) (raw ! i) (row ! i))"

lemma row_from_mono:
  "row_from lib codec nonces outs a raw row \<Longrightarrow> encs_le a b \<Longrightarrow> length a = length outs \<Longrightarrow>
     row_from lib codec nonces outs b raw row"
  by (auto simp: row_from_def intro: cell_from_mono)

lemma rfold_process_cell:
  assumes "rfold (process_cell lib codec nonces) (drop j xs) (k, encs, cells) = Inr (k', encs', cells')"
    and "xs = zip [0..<length outs] (zip outs raw)" and "length encs = length outs" and "j \<le> length xs"
    and "length cells = j"
    and "\<forall>i < j. cell_from lib codec nonces (outs ! i) (encs ! i) (raw ! i) (cells ! i)"
  shows "encs_le encs encs' \<and> length cells' = length xs \<and>
    (\<forall>i < length xs. cell_from lib codec nonces (outs ! i) (encs' ! i) (raw ! i) (cells' ! i))"
  using assms(1,3-)
proof (induction "length xs - j" arbitrary: j k encs cells)
  case 0
  then show ?case by simp
next
  case (Suc m)
  then have j: "j < length xs" by simp
  with assms(2) have x: "xs ! j = (j, outs ! j, raw ! j)" and jo: "j < length outs" by simp_all
  have "drop j xs = xs ! j # drop (Suc j) xs" using j by (simp add: Cons_nth_drop_Suc)
  with Suc.prems(1) x obtain k1 encs1 cells1 where
    one: "process_cell lib codec nonces (j, outs ! j, raw ! j) (k, encs, cells) = Inr (k1, encs1, cells1)"
    and rest: "rfold (process_cell lib codec nonces) (drop (Suc j) xs) (k1, encs1, cells1) = Inr (k', encs', cells')"
    by (auto simp: result_simps)
  from process_cell_Inr [OF one] jo Suc.prems(2) obtain c where le: "encs_le encs encs1"
    and c: "cells1 = cells @ [c]" "cell_from lib codec nonces (outs ! j) (encs1 ! j) (raw ! j) c" by auto
  have len1: "length encs1 = length outs" using le Suc.prems(2) by (simp add: encs_le_def)
  have "\<forall>i < Suc j. cell_from lib codec nonces (outs ! i) (encs1 ! i) (raw ! i) (cells1 ! i)"
  proof (intro allI impI)
    fix i assume "i < Suc j"
    then consider "i < j" | "i = j" by linarith
    then show "cell_from lib codec nonces (outs ! i) (encs1 ! i) (raw ! i) (cells1 ! i)"
    proof cases
      case 1
      with Suc.prems(2,4,5) jo c(1) cell_from_mono [OF _ le] show ?thesis by (simp add: nth_append)
    next
      case 2
      with c Suc.prems(4) show ?thesis by (simp add: nth_append)
    qed
  qed
  moreover have "m = length xs - Suc j" "Suc j \<le> length xs" "length cells1 = Suc j"
    using Suc.hyps(2) j c(1) Suc.prems(4) by simp_all
  ultimately show ?case
    using Suc.hyps(1) [of "Suc j" k1 encs1 cells1] rest len1 le encs_le_trans by blast
qed

lemma process_row_Inr:
  assumes "process_row lib codec nonces outs raw (k, encs, rows) = Inr (k', encs', rows')"
    and "length encs = length outs"
  shows "encs_le encs encs' \<and> (\<exists>row. rows' = rows @ [row] \<and> row_from lib codec nonces outs encs' raw row)"
proof -
  let ?xs = "zip [0..<length outs] (zip outs raw)"
  from assms(1) obtain cells where
    "rfold (process_cell lib codec nonces) ?xs (k, encs, []) = Inr (k', encs', cells)"
    and len: "length raw = length outs" and rows: "rows' = rows @ [cells]"
    by (auto simp: process_row_def result_simps)
  from rfold_process_cell [OF _ refl assms(2), of lib codec nonces 0 raw k "[]"] this(1) len rows
  show ?thesis by (simp add: row_from_def)
qed

lemma rfold_process_row:
  assumes "rfold (process_row lib codec nonces outs) raws (k, encs, rows) = Inr (k', encs', rows')"
    and "length encs = length outs"
  shows "encs_le encs encs' \<and> (\<exists>new. rows' = rows @ new \<and> list_all2 (row_from lib codec nonces outs encs') raws new)"
  using assms
proof (induction raws arbitrary: k encs rows)
  case Nil
  then show ?case by simp
next
  case (Cons raw raws)
  from Cons.prems(1) obtain k1 encs1 rows1 where
    one: "process_row lib codec nonces outs raw (k, encs, rows) = Inr (k1, encs1, rows1)"
    and rest: "rfold (process_row lib codec nonces outs) raws (k1, encs1, rows1) = Inr (k', encs', rows')"
    by (auto simp: result_simps)
  from process_row_Inr [OF one Cons.prems(2)] obtain row where le: "encs_le encs encs1"
    and row: "rows1 = rows @ [row]" "row_from lib codec nonces outs encs1 raw row" by blast
  have len: "length encs1 = length outs" using le Cons.prems(2) by (simp add: encs_le_def)
  from Cons.IH [OF rest len] obtain new where le': "encs_le encs1 encs'"
    and new: "rows' = rows1 @ new" "list_all2 (row_from lib codec nonces outs encs') raws new" by blast
  have "row_from lib codec nonces outs encs' raw row" by (rule row_from_mono [OF row(2) le' len])
  with new row(1) encs_le_trans [OF le le'] show ?case
    by (intro conjI exI [of _ "row # new"]) simp_all
qed

lemma read_result_Inr:
  assumes "read_result lib codec nonces q cur = Inr res"
  obtains fetched encs where "cur_fetchmany cur (vq_max_rows q + 1) = Inr fetched"
    "length (cur_keys cur) = length (vq_outputs q)"
    "er_truncated res = (int (length fetched) > vq_max_rows q)"
    "list_all2 (row_from lib codec nonces (vq_outputs q) encs) (take (nat (vq_max_rows q)) fetched) (er_rows res)"
    "er_columns res = map (\<lambda>(plan, e). column_of plan e) (zip (vq_outputs q) encs)"
    "length encs = length (vq_outputs q)"
proof -
  from assms obtain fetched k encs where f: "cur_fetchmany cur (vq_max_rows q + 1) = Inr fetched"
    and rows: "rfold (process_row lib codec nonces (vq_outputs q)) (take (nat (vq_max_rows q)) fetched)
       (0, replicate (length (vq_outputs q)) None, []) = Inr (k, encs, er_rows res)"
    and rest: "length (cur_keys cur) = length (vq_outputs q)"
      "er_truncated res = (int (length fetched) > vq_max_rows q)"
      "er_columns res = map (\<lambda>(plan, e). column_of plan e) (zip (vq_outputs q) encs)"
    by (auto simp: read_result_def result_simps)
  from rfold_process_row [OF rows] have "list_all2 (row_from lib codec nonces (vq_outputs q) encs)
      (take (nat (vq_max_rows q)) fetched) (er_rows res)" "length encs = length (vq_outputs q)"
    by (auto simp: encs_le_def)
  with that f rest show thesis by blast
qed

lemma execute_validated_Inr:
  assumes "execute_validated lib nonces conn q codec = (Inr res, closed)"
  obtains cur where "tc_alias codec = vq_alias q" "conn (vq_sql q) (vq_parameters q) = Inr cur"
    "read_result lib codec nonces q cur = Inr res" "closed"
  using assms by (auto simp: execute_validated_def split: if_splits sum.splits)

section \<open>Types of the cells\<close>

text \<open>What a cell of a column with the given encoding is; every cell may be null.\<close>

fun conforms :: "result_encoding \<Rightarrow> pyval \<Rightarrow> bool" where
  "conforms e PyNone = True"
| "conforms EncJson (PyStr s) = True"
| "conforms EncJson (PyBool b) = True"
| "conforms EncJson (PyInt i) = True"
| "conforms EncJson (PyFloat (FloatFinite t)) = True"
| "conforms EncToken (PyStr s) = (startswith s TOKEN_PREFIX \<and> length s \<le> MAX_TOKEN_CHARS)"
| "conforms EncDecimal (PyStr s) = (\<exists>d. decimal_is_finite d \<and> s = decimal_str d)"
| "conforms EncDatetime (PyStr s) = (\<exists>d t. s = datetime_isoformat d t)"
| "conforms EncDate (PyStr s) = (\<exists>d. s = date_isoformat d)"
| "conforms EncTime (PyStr s) = (\<exists>t. s = time_isoformat t)"
| "conforms EncUuid (PyStr s) = (\<exists>u. s = uuid_text u)"
| "conforms EncBase64 (PyStr s) = (\<exists>b. s = b64encode b)"
| "conforms _ _ = False"

lemma encode_conforms: "encode v = Inr (c, e) \<Longrightarrow> conforms e c"
  by (cases v rule: encode.cases) (auto split: if_splits; blast)+

lemma encrypt_conforms:
  assumes "encrypt lib codec nonce v = Inr (Some tok)"
  shows "conforms EncToken (PyStr tok)"
proof -
  obtain tag d where "length tok \<le> MAX_TOKEN_CHARS"
    "tok = token_text (nonce @ ae_encrypt lib (tc_key codec) nonce (dumps (payload_of tag d)) (tc_aad codec))"
    by (rule encrypt_Some [OF assms], rule that)
  then show ?thesis by (simp add: token_text_def)
qed

lemma cell_from_conforms:
  "cell_from lib codec nonces plan e v c \<Longrightarrow> conforms (rc_encoding (column_of plan e)) c"
  using encode_conforms encrypt_conforms by (fastforce simp: cell_from_def column_of_def split: if_splits)

text \<open>The encoding that stands for a payload tag, and the cell for payload data.\<close>

definition tag_encoding :: "string \<Rightarrow> result_encoding" where
  "tag_encoding tag = (if tag = ''decimal'' then EncDecimal else if tag = ''datetime'' then EncDatetime
     else if tag = ''date'' then EncDate else if tag = ''time'' then EncTime
     else if tag = ''uuid'' then EncUuid else if tag = ''bytes'' then EncBase64 else EncJson)"

fun data_cell :: "json \<Rightarrow> pyval" where
  "data_cell (JStr s) = PyStr s"
| "data_cell (JBool b) = PyBool b"
| "data_cell (JInt i) = PyInt i"
| "data_cell (JFloat t) = PyFloat (FloatFinite t)"
| "data_cell _ = PyNone"

text \<open>The encoding of a plain value is never that of a token.\<close>

lemma encode_not_token: "encode v = Inr (c, e) \<Longrightarrow> e \<noteq> EncToken"
  by (cases v rule: encode.cases) (auto split: if_splits)

definition plain_encodings :: "'a loop_state \<Rightarrow> bool" where
  "plain_encodings st \<longleftrightarrow> Some EncToken \<notin> set (fst (snd st))"

lemma process_cell_plain:
  assumes "process_cell lib codec nonces x st = Inr st'" and "plain_encodings st"
  shows "plain_encodings st'"
proof -
  obtain i plan v k encs cells where x: "x = (i, plan, v)" "st = (k, encs, cells)" by (cases x, cases st) auto
  then consider "fst (snd st') = encs" | e where "e \<noteq> EncToken" "fst (snd st') = encs[i := Some e]"
    using assms(1) encode_not_token by (fastforce simp: process_cell_def result_simps split: if_splits)
  then show ?thesis
    using assms(2) set_update_subset_insert [of encs i] x(2) by cases (auto simp: plain_encodings_def)
qed

lemma process_row_plain:
  assumes "process_row lib codec nonces outs raw st = Inr st'" and "plain_encodings st"
  shows "plain_encodings st'"
proof -
  obtain k encs rows where st: "st = (k, encs, rows)" by (cases st) auto
  with assms(1) obtain k' encs' cells where
    run: "rfold (process_cell lib codec nonces) (zip [0..<length outs] (zip outs raw)) (k, encs, []) = Inr (k', encs', cells)"
    and st': "st' = (k', encs', rows @ [cells])"
    by (auto simp: process_row_def result_simps)
  have "plain_encodings (k, encs, [])" using assms(2) st by (simp add: plain_encodings_def)
  then have "plain_encodings (k', encs', cells)"
    by (rule rfold_invariant [where P = plain_encodings, OF run]) (blast intro: process_cell_plain)
  with st' show ?thesis by (simp add: plain_encodings_def)
qed

lemma column_of_label: "e \<noteq> Some EncToken \<Longrightarrow> rc_encoding (column_of plan e) = EncToken \<longleftrightarrow> rc_protected (column_of plan e)"
  by (auto simp: column_of_def split: option.splits)

lemma read_result_labels:
  assumes "read_result lib codec nonces q cur = Inr res" and "col \<in> set (er_columns res)"
  shows "rc_encoding col = EncToken \<longleftrightarrow> rc_protected col"
proof -
  from assms(1) obtain fetched k encs where
    run: "rfold (process_row lib codec nonces (vq_outputs q)) (take (nat (vq_max_rows q)) fetched)
       (0, replicate (length (vq_outputs q)) None, []) = Inr (k, encs, er_rows res)"
    and cols: "er_columns res = map (\<lambda>(plan, e). column_of plan e) (zip (vq_outputs q) encs)"
    by (auto simp: read_result_def result_simps)
  have "plain_encodings (0, replicate (length (vq_outputs q)) None, [])" by (simp add: plain_encodings_def)
  then have "plain_encodings (k, encs, er_rows res)"
    by (rule rfold_invariant [where P = plain_encodings, OF run]) (blast intro: process_row_plain)
  then have "Some EncToken \<notin> set encs" by (simp add: plain_encodings_def)
  moreover from assms(2) cols obtain plan e where "col = column_of plan e" "e \<in> set encs"
    by (auto dest: set_zip_rightD)
  ultimately show ?thesis using column_of_label by metis
qed

text \<open>
  The encoding of a plain value against the encoding of the same value in a token: the data is
  the same, and the two differ only on decimals that are not finite.
\<close>

lemma encode_codec_entry:
  assumes "codec_entry v = Some (tag, Inr d)"
  shows "encode v = (if \<exists>x. v = PyDecimal x \<and> \<not> decimal_is_finite x then Inl unsupported_result
    else Inr (data_cell d, tag_encoding tag))"
  using assms by (cases v rule: encode.cases; clarsimp split: if_splits) (simp_all add: tag_encoding_def)

end
