(* ===== verification/Pipeline.thy ===== *)
theory Pipeline
  imports Executor
begin

text \<open>
  \<open>security/pipeline.py\<close>: the whole path from the caller's SQL to a validated query, and what
  it guarantees together with the executor.
\<close>

section \<open>validate_sql\<close>

definition decide :: "sqlglot \<Rightarrow> aead \<Rightarrow> string \<Rightarrow> string \<Rightarrow> string \<Rightarrow> pii_config \<Rightarrow> token_codec
    \<Rightarrow> runtime_config \<Rightarrow> int \<Rightarrow> dialect \<Rightarrow> node \<times> table_schema list \<Rightarrow> validated_query result" where
  "decide lib al nonce alias database pii codec runtime max_rows d resolved =
     (let lim = limits_from_runtime runtime in
      rbind (analyze_query lib (fst resolved) (snd resolved) lim d) (\<lambda>a.
      rbind (evaluate al (sg_walk lib) (make_policy database pii codec) a) (\<lambda>dec.
      issue_validated_query lib nonce a dec alias database max_rows runtime lim d)))"

definition validate_sql :: "sqlglot \<Rightarrow> aead \<Rightarrow> string \<Rightarrow> ('s, exn, (string \<times> string) list) stateful
    \<Rightarrow> (string \<Rightarrow> string \<Rightarrow> ('s, exn, string list) stateful) \<Rightarrow> string \<Rightarrow> string \<Rightarrow> string \<Rightarrow> pii_config
    \<Rightarrow> token_codec \<Rightarrow> runtime_config \<Rightarrow> int \<Rightarrow> dialect \<Rightarrow> ('s, exn, validated_query) stateful" where
  "validate_sql lib al nonce tables columns sql alias database pii codec runtime max_rows d =
     sbind (slift (parse_select lib sql (limits_from_runtime runtime) d)) (\<lambda>q.
     sbind (resolve_tables (sg_walk lib) tables columns d q) (\<lambda>resolved.
     slift (decide lib al nonce alias database pii codec runtime max_rows d resolved)))"

section \<open>The decision's sites\<close>

lemma token_literal_leaf:
  assumes "check_node False q p = Inr ()" and "sub q p = Some n" and "is_token_literal n"
  shows "leaf n"
proof -
  have lit: "nkind n = KLiteral" "arg n ''is_string'' = ABool True"
    and pre: "prefix TOKEN_PREFIX (arg_str (arg n ''this''))"
    using assms(3) by (simp_all add: is_token_literal_def is_string_literal_def)
  have "child n s = None" for s
  proof (cases "fst s = ''this''")
    case True
    have "as_node (arg n ''this'') = None \<and> as_list (arg n ''this'') = []"
      using pre by (cases "arg n ''this''") (auto simp: TOKEN_PREFIX_def)
    with True show ?thesis by (auto simp: child_def split: argval.splits)
  next
    case False
    show ?thesis
    proof (cases "map_of (nargs n) (fst s)")
      case None
      then show ?thesis by (simp add: child_def arg_def)
    next
      case (Some v)
      then have v: "(fst s, v) \<in> set (nargs n)" "arg n (fst s) = v" by (auto dest: map_of_SomeD simp: arg_def)
      have "fst s = ''is_string'' \<or> is_empty_arg v"
        using check_node_args [OF assms(1,2) _ v(1)] False lit(1) by fastforce
      with v(2) lit(2) show ?thesis by (cases v) (auto simp: child_def)
    qed
  qed
  then show ?thesis by (simp add: leaf_def)
qed

text \<open>The operands of one reference are at distinct positions beside it.\<close>

lemma compared_with_positions:
  assumes "compared_with q p = Some ps"
  shows "distinct ps" and "x \<in> set ps \<Longrightarrow> butlast x = butlast p \<and> x \<noteq> []"
    and "last p = (''this'', 0)"
  using assms
  by (auto simp: compared_with_def is_left_operand_def distinct_map inj_on_def split: if_splits option.splits)

lemma check_ref_positions:
  assumes "check_ref al pol q r = Inr sites"
  shows "sites = [] \<or> (\<not> is_projected q (cr_node r) \<and> in_where q (cr_node r) \<and>
    compared_with q (cr_node r) = Some (map site_literal sites))"
proof (cases "sites = []")
  case False
  with assms obtain ps where ps: "\<not> is_projected q (cr_node r)" "in_where q (cr_node r)"
    "compared_with q (cr_node r) = Some ps" "rmap (token_site_at al (po_codec pol) q) ps = Inr sites"
    by (auto simp: check_ref_def check_protected_eq split: if_splits option.splits)
  have "map site_literal sites = ps"
    using ps(4) unfolding rmap_eq_Inr_iff
    by (induction rule: list_all2_induct) (auto simp: token_site_at_Inr)
  with ps show ?thesis by simp
qed simp

lemma sites_distinct:
  assumes "rmap (check_ref al pol q) refs = Inr parts" and "distinct (map cr_node refs)"
    and "\<And>r. r \<in> set refs \<Longrightarrow> cr_node r \<noteq> []"
  shows "distinct (map site_literal (concat parts))"
  using assms
proof (induction refs arbitrary: parts)
  case Nil
  then show ?case by simp
next
  case (Cons r refs)
  then obtain part parts' where p: "check_ref al pol q r = Inr part" "rmap (check_ref al pol q) refs = Inr parts'"
    "parts = part # parts'" by (auto simp: result_simps)
  from Cons.IH [OF p(2)] Cons.prems have IH: "distinct (map site_literal (concat parts'))" by simp
  have "distinct (map site_literal part)"
    using check_ref_positions [OF p(1)] compared_with_positions(1) by auto
  moreover have "set (map site_literal part) \<inter> set (map site_literal (concat parts')) = {}"
  proof (rule ccontr)
    assume "\<not> ?thesis"
    then obtain x part' where x: "x \<in> set (map site_literal part)" "part' \<in> set parts'"
      "x \<in> set (map site_literal part')" by auto
    from rmap_Inr_set [OF p(2) x(2)] obtain r' where r': "r' \<in> set refs" "check_ref al pol q r' = Inr part'"
      by blast
    have "part \<noteq> []" "part' \<noteq> []" using x(1,3) by auto
    with check_ref_positions [OF p(1)] check_ref_positions [OF r'(2)]
    have c: "compared_with q (cr_node r) = Some (map site_literal part)"
      "compared_with q (cr_node r') = Some (map site_literal part')" by auto
    have "butlast (cr_node r) = butlast (cr_node r')" "last (cr_node r) = last (cr_node r')"
      using compared_with_positions [OF c(1)] compared_with_positions [OF c(2)] x(1,3) by metis+
    moreover have "cr_node r \<noteq> []" "cr_node r' \<noteq> []" using Cons.prems(3) r'(1) by auto
    ultimately have "cr_node r = cr_node r'" by (metis append_butlast_last_id)
    with Cons.prems(2) r'(1) show False by (auto simp: image_iff)
  qed
  ultimately show ?case using IH p(3) by simp
qed

text \<open>No site is in a projection or the row limit.\<close>

lemma is_projected_value_at:
  assumes "nkind q = KSelect" and "p = value_at q i"
  shows "is_projected q p"
proof (cases "kind_at q (projection_pos i) = Some KAlias")
  case True
  with assms show ?thesis
    by (simp add: is_projected_def value_at_def parent_kind_def projection_pos_def)
      (simp add: kind_at_def)
next
  case False
  with assms show ?thesis
    by (simp add: is_projected_def value_at_def parent_kind_def projection_pos_def) (simp add: kind_at_def)
qed

definition outside_projections :: "pos \<Rightarrow> bool" where
  "outside_projections p \<longleftrightarrow> p \<noteq> [] \<and> fst (hd p) \<in> {''joins'', ''where'', ''order''}"

lemma site_outside:
  assumes "compared_with q p = Some ps" and "\<not> is_projected q p" and "x \<in> set ps"
    and "nkind q = KSelect" and "fst (hd p) \<in> {''joins'', ''where'', ''order''}" and "p \<noteq> []"
  shows "outside_projections x"
proof -
  have "tl p \<noteq> []"
  proof
    assume "tl p = []"
    with assms(6) have "butlast p = []" by (cases p) auto
    with assms(2,4,6) show False by (simp add: is_projected_def parent_kind_def kind_at_def)
  qed
  with assms(6) obtain s b where b: "butlast p = s # b" "hd p = s" by (cases p) auto
  have "butlast x = butlast p" "x \<noteq> []" using compared_with_positions(2) [OF assms(1,3)] by auto
  with b have "hd x = s" by (cases x) (auto split: if_splits)
  with \<open>x \<noteq> []\<close> assms(5) b show ?thesis by (simp add: outside_projections_def)
qed

lemma visited_split:
  "visited q p \<Longrightarrow> (\<exists>i. p = value_at q i) \<or> p \<noteq> [] \<and> fst (hd p) \<in> {''joins'', ''where'', ''order''}"
  by (auto simp: visited_def below_on_def prefix_def)

lemma visited_nonempty: "visited q p \<Longrightarrow> p \<noteq> []"
  using visited_split [of q p] value_at_nonempty [of q] by metis

lemma decision_sites:
  assumes "walk_ok (sg_walk lib)" and "analysis_ok bs e a"
    and "validate_allowlist (sg_walk lib) (an_query a) False = Inr ()"
    and "evaluate al (sg_walk lib) pol a = Inr dec"
  shows "sites_ok (an_query a) (pd_token_sites dec)"
    and "s \<in> set (pd_token_sites dec) \<Longrightarrow> outside_projections (site_literal s)"
proof -
  let ?q = "an_query a" and ?sites = "pd_token_sites dec"
  have root: "nkind ?q = KSelect"
    and node: "\<And>p n. sub ?q p = Some n \<Longrightarrow> check_node False ?q p = Inr ()"
    using assms(3) validate_allowlist_Inr_iff [OF assms(1)] by blast+
  have placed: "placed (visited ?q) (an_references a)" using assms(2) by (simp add: analysis_ok_def)
  from assms(4) obtain parts where parts: "rmap (check_ref al pol ?q) (an_references a) = Inr parts"
    and dec: "?sites = concat parts" by (auto simp: evaluate_def result_simps Let_def)
  have out: "outside_projections (site_literal s)" if s: "s \<in> set ?sites" for s
  proof -
    from s dec obtain part where part: "part \<in> set parts" "s \<in> set part" by auto
    from rmap_Inr_set [OF parts part(1)] obtain r where r: "r \<in> set (an_references a)"
      "check_ref al pol ?q r = Inr part" by blast
    from check_ref_positions [OF r(2)] part(2)
    have c: "\<not> is_projected ?q (cr_node r)" "compared_with ?q (cr_node r) = Some (map site_literal part)" by auto
    have v: "visited ?q (cr_node r)" using placed r(1) by (simp add: placed_def)
    have "fst (hd (cr_node r)) \<in> {''joins'', ''where'', ''order''}"
      using visited_split [OF v] c(1) is_projected_value_at [OF root] by blast
    then show ?thesis using site_outside [OF c(2,1) _ root _ visited_nonempty [OF v]] part(2) by simp
  qed
  show "s \<in> set ?sites \<Longrightarrow> outside_projections (site_literal s)" by (rule out)
  have "distinct (map site_literal ?sites)"
    unfolding dec by (rule sites_distinct [OF parts])
      (use placed visited_nonempty in \<open>auto simp: placed_def\<close>)
  moreover have "\<exists>n. sub ?q p = Some n \<and> leaf n" if "p \<in> set (map site_literal ?sites)" for p
  proof -
    from that obtain s where s: "s \<in> set ?sites" "p = site_literal s" by auto
    from evaluate_Inr(3) [OF assms(4) s(1)] s(2) obtain n where "sub ?q p = Some n" "is_token_literal n"
      by (auto simp: token_site_at_Inr)
    with token_literal_leaf [OF node] show ?thesis by blast
  qed
  moreover have "kind_at ?q p \<noteq> Some KPlaceholder" for p
  proof
    assume "kind_at ?q p = Some KPlaceholder"
    then obtain n where n: "sub ?q p = Some n" "nkind n = KPlaceholder" by (auto simp: kind_at_def)
    from check_node_kind [OF node [OF n(1)] n(1)] n(2) ALLOWED_ARGS_kinds [of KPlaceholder]
    show False by simp
  qed
  moreover have "p \<noteq> [] \<and> fst (hd p) \<noteq> ''limit''" if "p \<in> set (map site_literal ?sites)" for p
  proof -
    from that obtain s where "s \<in> set ?sites" "p = site_literal s" by auto
    with out [of s] show ?thesis by (auto simp: outside_projections_def)
  qed
  ultimately show "sites_ok ?q ?sites" unfolding sites_ok_def leaves_at_def by blast
qed

section \<open>The validated query's outputs\<close>

lemma fold_bind_step_outside:
  assumes "\<forall>s \<in> set sites. outside_projections (site_literal s)"
  shows "sub (fst (fold bind_step sites (q, acc))) ((''expressions'', i) # r) = sub q ((''expressions'', i) # r)"
    and "length (as_list (arg (fst (fold bind_step sites (q, acc))) k)) = length (as_list (arg q k))"
  using assms
proof (induction sites arbitrary: q acc)
  case (Cons s sites)
  { case (1 q acc)
    then have "outside_projections (site_literal s)" by simp
    then have "\<not> prefix (site_literal s) ((''expressions'', i) # r)"
      "\<not> prefix ((''expressions'', i) # r) (site_literal s)"
      by (cases "site_literal s"; auto simp: outside_projections_def)+
    then have "sub (replace_at (site_literal s) x q) ((''expressions'', i) # r) = sub q ((''expressions'', i) # r)" for x
      by (rule sub_upd_disjoint)
    with 1 Cons.IH(1) show ?case by (simp add: bind_step_def del: sub.simps) }
  { case (2 q acc)
    then have "site_literal s \<noteq> []" by (simp add: outside_projections_def)
    with 2 Cons.IH(2) show ?case by (simp add: bind_step_def length_arg_upd) }
qed simp_all

text \<open>
  An output whose projected value is a column carries the source the column denotes, and is
  marked exactly when that source is protected; another output has no source and no mark.
\<close>

definition output_marked :: "binding list \<Rightarrow> pii_policy \<Rightarrow> node \<Rightarrow> nat \<Rightarrow> output_plan \<Rightarrow> bool" where
  "output_marked bs pol q i plan \<longleftrightarrow>
     (if kind_at q (value_at q i) = Some KColumn
      then \<exists>n src. sub q (value_at q i) = Some n \<and> denotes bs n src \<and> op_source plan = Some src \<and>
        op_protected plan = is_protected pol src
      else op_source plan = None \<and> \<not> op_protected plan)"

definition outputs_marked :: "binding list \<Rightarrow> pii_policy \<Rightarrow> node \<Rightarrow> output_plan list \<Rightarrow> bool" where
  "outputs_marked bs pol q outs \<longleftrightarrow> length outs = length (as_list (arg q ''expressions'')) \<and>
     (\<forall>i < length outs. output_marked bs pol q i (outs ! i))"

lemma plan_outputs_nth:
  assumes "plan_outputs outs prot = Inr plans"
  shows "length plans = length outs" and "length prot = length outs"
    and "i < length outs \<Longrightarrow> op_protected (plans ! i) = prot ! i \<and> op_source (plans ! i) = oc_source (outs ! i)
      \<and> op_label (plans ! i) = oc_label (outs ! i)"
  using assms by (auto simp: plan_outputs_def result_simps)

lemma issued_outputs:
  assumes "walk_ok (sg_walk lib)" and "analysis_ok bs e a"
    and "validate_allowlist (sg_walk lib) (an_query a) False = Inr ()"
    and "evaluate al (sg_walk lib) pol a = Inr dec"
    and "issue_validated_query lib nonce a dec alias database m runtime lim d = Inr vq"
  shows "outputs_marked bs pol (vq_ast vq) (vq_outputs vq)"
proof -
  let ?q = "an_query a" and ?outs = "an_outputs a"
  from assms(5) obtain bound params where m: "1 \<le> m"
    and fold: "fold bind_step (pd_token_sites dec) (?q, []) = (bound, params)"
    and cap: "cap_rows bound m = Inr (vq_ast vq)"
    and plan: "plan_outputs ?outs (pd_protected dec) = Inr (vq_outputs vq)" by (rule issue_steps)
  have m0: "0 \<le> m" using m by simp
  obtain r where ast: "vq_ast vq = set_arg ''limit'' (ANode (limit_node (min r (m + 1)))) bound"
    by (rule cap_rows_Inr [OF cap m0])
  note out = decision_sites(2) [OF assms(1-4)]
  have same: "sub (vq_ast vq) ((''expressions'', i) # p) = sub ?q ((''expressions'', i) # p)" for i p
    using fold_bind_step_outside(1) [of "pd_token_sites dec" ?q "[]" i p] out fold
      sub_set_arg_other [of "(''expressions'', i)" "''limit''" _ bound p]
    by (simp add: ast del: sub.simps)
  have len: "length (as_list (arg (vq_ast vq) ''expressions'')) = length (as_list (arg ?q ''expressions''))"
    using fold_bind_step_outside(2) [of "pd_token_sites dec" ?q "[]" "''expressions''"] out fold
    by (simp add: ast)
  have vpos: "value_at (vq_ast vq) i = value_at ?q i" for i
    using same [of i "[]"] by (simp add: value_at_def projection_pos_def kind_at_def del: sub.simps)
  have at: "sub (vq_ast vq) (value_at (vq_ast vq) i) = sub ?q (value_at ?q i)" for i
    using value_at_step [of ?q i] same unfolding vpos by metis
  have matches: "output_matches bs ?q i (?outs ! i)" if "i < length ?outs" for i
    using assms(2) that by (simp add: analysis_ok_def outputs_match_def)
  have "output_marked bs pol (vq_ast vq) i (vq_outputs vq ! i)" if i: "i < length ?outs" for i
  proof -
    have "op_source (vq_outputs vq ! i) = oc_source (?outs ! i)"
      "op_protected (vq_outputs vq ! i) = output_protected pol (?outs ! i)"
      using plan_outputs_nth(3) [OF plan i] i by (simp_all add: evaluate_Inr(1) [OF assms(4)])
    with matches [OF i] show ?thesis
      by (auto simp: output_marked_def output_matches_def output_protected_def at kind_at_def)
  qed
  moreover have "length ?outs = length (as_list (arg ?q ''expressions''))"
    using assms(2) by (simp add: analysis_ok_def)
  ultimately show ?thesis
    using plan_outputs_nth(1) [OF plan] by (simp add: outputs_marked_def len)
qed

section \<open>The caller's own row limit\<close>

text \<open>
  The text of the literal of a query's row limit.  The stages before the cap rewrite tables and
  columns, which are no such literals: a number in the limit is the one that was written.
\<close>

definition own_limit :: "node \<Rightarrow> string option" where
  "own_limit q = (case arg q ''limit'' of
     ANode l \<Rightarrow> map_option (\<lambda>e. arg_str (arg e ''this'')) (as_node (arg l ''expression'')) | _ \<Rightarrow> None)"

definition same_limit :: "node \<Rightarrow> node \<Rightarrow> bool" where
  "same_limit q q' \<longleftrightarrow> (arg q' ''limit'' = ANone \<longleftrightarrow> arg q ''limit'' = ANone) \<and>
     (\<forall>ds. own_limit q' = Some ds \<and> int_of_digits ds \<noteq> None \<longrightarrow> own_limit q = Some ds)"

lemma same_limit_arg: "arg q' ''limit'' = arg q ''limit'' \<Longrightarrow> same_limit q q'"
  by (simp add: same_limit_def own_limit_def)

lemma same_limit_trans: "same_limit q r \<Longrightarrow> same_limit r t \<Longrightarrow> same_limit q t"
  by (auto simp: same_limit_def)

lemma no_digits [simp]: "int_of_digits ''None'' = None"
  by code_simp

text \<open>What the rewriting of a table or a column does to its node.\<close>

definition names_only :: "(node \<Rightarrow> node) \<Rightarrow> bool" where
  "names_only f \<longleftrightarrow> (\<forall>n. arg (f n) ''expression'' = arg n ''expression'' \<and> (\<exists>m. arg (f n) ''this'' = ANode m))"

lemma names_only_rewrites: "names_only (rewrite_table d schema name)" "names_only (rewrite_column b c)"
  by (simp_all add: names_only_def rewrite_table_def rewrite_column_def Let_def)

lemma arg_upd_Cons:
  "arg (upd (s # p) f n) k =
     (if k = fst s then (case arg n k of
          ANode m \<Rightarrow> (if snd s = 0 then ANode (upd p f m) else ANode m)
        | AList ns \<Rightarrow> (if snd s < length ns then AList (ns[snd s := upd p f (ns ! snd s)]) else AList ns)
        | v \<Rightarrow> v)
      else arg n k)"
  by (auto simp: child_def set_child_def arg_set_arg split: argval.splits)

lemma this_text_upd:
  assumes "names_only f" and "int_of_digits (arg_str (arg (upd p f e) ''this'')) \<noteq> None"
  shows "arg_str (arg (upd p f e) ''this'') = arg_str (arg e ''this'')"
proof (cases p)
  case Nil
  obtain m where "arg (f e) ''this'' = ANode m" using assms(1) by (auto simp: names_only_def)
  with assms(2) Nil show ?thesis by simp
next
  case (Cons s r)
  show ?thesis unfolding Cons arg_upd_Cons by (simp split: argval.split)
qed

lemma same_limit_upd:
  assumes "names_only f" and "p \<noteq> []"
  shows "same_limit q (upd p f q)"
proof -
  obtain s r where p: "p = s # r" using assms(2) by (cases p) auto
  show ?thesis
  proof (cases "fst s = ''limit''")
    case False
    then show ?thesis by (intro same_limit_arg) (simp add: p arg_upd_Cons del: upd.simps)
  next
    case True
    show ?thesis
    proof (cases "arg q ''limit''")
      case (ANode l)
      let ?l = "if snd s = 0 then upd r f l else l"
      have new: "arg (upd p f q) ''limit'' = ANode ?l" by (simp add: p arg_upd_Cons True ANode del: upd.simps)
      have "arg_str (arg e ''this'') = arg_str (arg e' ''this'')"
        if e': "as_node (arg (upd r f l) ''expression'') = Some e'" "int_of_digits (arg_str (arg e' ''this'')) \<noteq> None"
          and e: "as_node (arg l ''expression'') = Some e" for e e'
      proof (cases r)
        case Nil
        with e' e assms(1) show ?thesis by (simp add: names_only_def)
      next
        case (Cons t u)
        with e' e this_text_upd [OF assms(1), of u e] show ?thesis
          by (cases "arg l ''expression''") (auto simp: arg_upd_Cons simp del: upd.simps split: if_splits)
      qed
      moreover have "as_node (arg l ''expression'') \<noteq> None"
        if "as_node (arg (upd r f l) ''expression'') = Some e'" for e'
      proof (cases r)
        case Nil
        with that assms(1) show ?thesis by (simp add: names_only_def)
      next
        case (Cons t u)
        with that show ?thesis
          by (cases "arg l ''expression''") (auto simp: arg_upd_Cons simp del: upd.simps split: if_splits)
      qed
      ultimately have "own_limit q = Some ds" if "own_limit (upd p f q) = Some ds" "int_of_digits ds \<noteq> None" for ds
        using that new ANode by (auto simp: own_limit_def simp del: upd.simps split: if_splits)
      then show ?thesis using new ANode by (simp add: same_limit_def del: upd.simps)
    qed (auto simp: same_limit_def own_limit_def p arg_upd_Cons True simp del: upd.simps)
  qed
qed

lemma same_limit_rewritten: "rewritten bs anywhere q q' \<Longrightarrow> same_limit q q'"
proof (induction rule: rewritten.induct)
  case (rewritten_step u p n b c)
  have "p \<noteq> []" using rewritten_step(2) anywhere_nonempty by metis
  from same_limit_upd [OF names_only_rewrites(2) this] rewritten_step(6) show ?case
    using same_limit_trans by blast
qed (rule same_limit_arg, rule refl)

lemma same_limit_expanded: "expand_stars q bs = Inr e \<Longrightarrow> same_limit q e"
  by (rule same_limit_arg) (auto simp: expand_stars_def result_simps)

lemma same_limit_resolve_table:
  assumes "resolve_table d available columns p (q, ts) s = (Inr (q', ts'), s')" and "p \<noteq> []"
  shows "same_limit q q'"
proof (cases "sub q p")
  case None
  with assms(1) show ?thesis by (simp add: resolve_table_def sreturn_def same_limit_arg)
next
  case (Some n)
  show ?thesis
  proof (cases "nkind n = KTable")
    case False
    with Some assms(1) show ?thesis by (simp add: resolve_table_def sreturn_def same_limit_arg)
  next
    case True
    from resolve_table_Inr [OF assms(1) Some True] obtain m where "q' = upd p (rewrite_table d (fst m) (snd m)) q"
      by blast
    with same_limit_upd [OF names_only_rewrites(1) assms(2)] show ?thesis by simp
  qed
qed

lemma same_limit_resolve_loop:
  assumes "sfold (resolve_table d available columns) ps (q, ts) s = (Inr (q', ts'), s')" and "[] \<notin> set ps"
  shows "same_limit q q'"
  using assms
proof (induction ps arbitrary: q ts s)
  case Nil
  then show ?case by (simp add: sreturn_def same_limit_arg)
next
  case (Cons p ps)
  obtain q1 ts1 s1 where step: "resolve_table d available columns p (q, ts) s = (Inr (q1, ts1), s1)"
    and rest: "sfold (resolve_table d available columns) ps (q1, ts1) s1 = (Inr (q', ts'), s')"
    using Cons.prems(1) unfolding sfold.simps sbind_eq_Inr_iff by (metis surj_pair)
  from same_limit_resolve_table [OF step] Cons.IH [OF rest] Cons.prems(2) same_limit_trans show ?case by auto
qed

lemma same_limit_resolved:
  assumes "walk_ok walk" and "resolve_tables walk tables columns d q s = (Inr (q', ts), s')" and "nkind q = KSelect"
  shows "same_limit q q'"
proof -
  from assms(2) obtain available s1 where
    run: "sfold (resolve_table d available columns) (find_all walk [KTable] q) (q, []) s1 = (Inr (q', ts), s')"
    by (auto simp: resolve_tables_def sbind_eq_Inr_iff)
  have "[] \<notin> set (find_all walk [KTable] q)" using set_find_all [OF assms(1)] assms(3) by (auto simp: kind_at_def)
  with run show ?thesis by (rule same_limit_resolve_loop)
qed

lemma same_limit_bind_step:
  assumes "outside_projections (site_literal s)"
  shows "same_limit q (fst (bind_step s (q, acc)))"
proof -
  obtain t p where p: "site_literal s = t # p" and t: "fst t \<in> {''joins'', ''where'', ''order''}"
    using assms by (cases "site_literal s") (simp_all add: outside_projections_def)
  have "fst t \<noteq> ''limit''" using t by auto
  then show ?thesis by (intro same_limit_arg) (simp add: bind_step_def p arg_upd_Cons del: upd.simps)
qed

lemma same_limit_bound:
  "\<forall>s \<in> set sites. outside_projections (site_literal s) \<Longrightarrow> same_limit q (fst (fold bind_step sites (q, acc)))"
proof (induction sites arbitrary: q acc)
  case (Cons s sites)
  obtain r acc' where step: "bind_step s (q, acc) = (r, acc')" by (cases "bind_step s (q, acc)")
  have "same_limit q r" using same_limit_bind_step [of s q acc] Cons.prems step by simp
  moreover have "same_limit r (fst (fold bind_step sites (r, acc')))" using Cons by simp
  ultimately have "same_limit q (fst (fold bind_step sites (r, acc')))" by (rule same_limit_trans)
  then show ?case by (simp add: step)
qed (simp add: same_limit_arg)

text \<open>The cap of the issued query, in terms of the query the caller wrote.\<close>

lemma requested_own:
  assumes "same_limit q bound" and "requested_rows bound fetch = Inr r"
  shows "if arg q ''limit'' = ANone then r = fetch
    else \<exists>l e. arg q ''limit'' = ANode l \<and> as_node (arg l ''expression'') = Some e \<and>
      int_of_digits (arg_str (arg e ''this'')) = Some r"
proof (cases "arg bound ''limit''")
  case ANone
  with assms show ?thesis by (simp add: same_limit_def requested_rows_def)
next
  case (ANode l)
  with assms(2) obtain e where e: "as_node (arg l ''expression'') = Some e"
    "int_of_digits (arg_str (arg e ''this'')) = Some r"
    by (auto simp: requested_rows_def parse_digits_Inr split: option.splits)
  with ANode assms(1) have "own_limit q = Some (arg_str (arg e ''this''))" "arg q ''limit'' \<noteq> ANone"
    by (auto simp: same_limit_def own_limit_def)
  with e(2) show ?thesis by (auto simp: own_limit_def split: argval.splits)
qed (use assms(2) in \<open>simp_all add: requested_rows_def\<close>)

section \<open>The whole path\<close>

lemma validate_sql_Inr:
  assumes "validate_sql lib al nonce tables columns sql alias database pii codec runtime m d s = (Inr vq, s')"
  obtains q q' ts a dec where "parse_select lib sql (limits_from_runtime runtime) d = Inr q"
    "resolve_tables (sg_walk lib) tables columns d q s = (Inr (q', ts), s')"
    "analyze_query lib q' ts (limits_from_runtime runtime) d = Inr a"
    "evaluate al (sg_walk lib) (make_policy database pii codec) a = Inr dec"
    "issue_validated_query lib nonce a dec alias database m runtime (limits_from_runtime runtime) d = Inr vq"
  using assms
  by (auto simp: validate_sql_def sbind_eq_Inr_iff slift_def decide_def Let_def result_simps)

lemma validate_sql_ok:
  assumes "walk_ok (sg_walk lib)"
    and "validate_sql lib al nonce tables columns sql alias database pii codec runtime m d s = (Inr vq, s')"
  obtains q q' ts bs a dec where "parse_select lib sql (limits_from_runtime runtime) d = Inr q"
    "resolve_tables (sg_walk lib) tables columns d q s = (Inr (q', ts), s')" "collect q' ts = Inr bs"
    "analyze_query lib q' ts (limits_from_runtime runtime) d = Inr a"
    "evaluate al (sg_walk lib) (make_policy database pii codec) a = Inr dec"
    "issue_validated_query lib nonce a dec alias database m runtime (limits_from_runtime runtime) d = Inr vq"
    "sites_ok (an_query a) (pd_token_sites dec)" "nkind (an_query a) = KSelect"
    "outputs_marked bs (make_policy database pii codec) (vq_ast vq) (vq_outputs vq)"
proof -
  from assms(2) obtain q q' ts a dec where q: "parse_select lib sql (limits_from_runtime runtime) d = Inr q"
    "resolve_tables (sg_walk lib) tables columns d q s = (Inr (q', ts), s')"
    and an: "analyze_query lib q' ts (limits_from_runtime runtime) d = Inr a"
    and ev: "evaluate al (sg_walk lib) (make_policy database pii codec) a = Inr dec"
    and iss: "issue_validated_query lib nonce a dec alias database m runtime (limits_from_runtime runtime) d = Inr vq"
    by (rule validate_sql_Inr)
  from analyze_query_ok [OF assms(1) an] obtain bs e where bs: "collect q' ts = Inr bs"
    and ok: "analysis_ok bs e a" "validate_allowlist (sg_walk lib) (an_query a) False = Inr ()" by blast
  have "nkind (an_query a) = KSelect" using ok(2) validate_allowlist_Inr_iff [OF assms(1)] by blast
  with that q bs an ev iss decision_sites(1) [OF assms(1) ok ev] issued_outputs [OF assms(1) ok ev iss]
  show thesis by blast
qed

lemma parse_select_kind: "parse_select lib sql lim d = Inr q \<Longrightarrow> nkind q = KSelect"
  by (erule parse_select_cases) simp

lemma issued_limit:
  assumes "walk_ok (sg_walk lib)"
    and "validate_sql lib al nonce tables columns sql alias database pii codec runtime m d s = (Inr vq, s')"
  obtains q n where "parse_select lib sql (limits_from_runtime runtime) d = Inr q"
    "arg (vq_ast vq) ''limit'' = ANode (limit_node n)" "0 \<le> n"
    "if arg q ''limit'' = ANone then n = m + 1
     else \<exists>l e k. arg q ''limit'' = ANode l \<and> as_node (arg l ''expression'') = Some e \<and>
       int_of_digits (arg_str (arg e ''this'')) = Some k \<and> n = min k (m + 1)"
proof -
  from assms(2) obtain q q' ts a dec where q: "parse_select lib sql (limits_from_runtime runtime) d = Inr q"
    and res: "resolve_tables (sg_walk lib) tables columns d q s = (Inr (q', ts), s')"
    and an: "analyze_query lib q' ts (limits_from_runtime runtime) d = Inr a"
    and ev: "evaluate al (sg_walk lib) (make_policy database pii codec) a = Inr dec"
    and iss: "issue_validated_query lib nonce a dec alias database m runtime (limits_from_runtime runtime) d = Inr vq"
    by (rule validate_sql_Inr)
  from analyze_query_ok [OF assms(1) an] obtain bs e where e: "expand_stars q' bs = Inr e"
    and ok: "analysis_ok bs e a" "validate_allowlist (sg_walk lib) (an_query a) False = Inr ()" by blast
  from iss obtain bound params where m: "1 \<le> m"
    and fold: "fold bind_step (pd_token_sites dec) (an_query a, []) = (bound, params)"
    and cap: "cap_rows bound m = Inr (vq_ast vq)" by (rule issue_steps)
  then have "0 \<le> m" by simp
  from cap this obtain r where r: "requested_rows bound (m + 1) = Inr r" "0 \<le> r"
    "vq_ast vq = set_arg ''limit'' (ANode (limit_node (min r (m + 1)))) bound" by (rule cap_rows_Inr)
  have "same_limit q q'" by (rule same_limit_resolved [OF assms(1) res parse_select_kind [OF q]])
  moreover have "same_limit q' (an_query a)"
    using same_limit_expanded [OF e] ok(1) same_limit_rewritten same_limit_trans by (metis analysis_ok_def)
  moreover have "same_limit (an_query a) bound"
    using same_limit_bound [of "pd_token_sites dec" "an_query a" "[]"] decision_sites(2) [OF assms(1) ok ev]
    by (simp add: fold)
  ultimately have "same_limit q bound" using same_limit_trans by blast
  from requested_own [OF this r(1)] show thesis
    using that [OF q, of "min r (m + 1)"] r(2,3) \<open>0 \<le> m\<close> by (cases "arg q ''limit'' = ANone") auto
qed

section \<open>Validation through a caching catalog\<close>

context table_catalog
begin

lemma validate_sql_runs:
  "runs_to valid (validate_sql lib al nonce tables columns sql alias database pii codec runtime m d)
     (fst (validate_sql lib al nonce (slift view_tables) (\<lambda>s t. slift (view_columns s t)) sql alias
       database pii codec runtime m d ()))"
  unfolding validate_sql_def
  by (intro runs_to_stateless runs_to_slift_stateless resolve_tables_runs)

end

end
