(* ===== verification/Examples.thy ===== *)
theory Examples
  imports Pipeline
begin

text \<open>
  Two concrete runs of the whole path, evaluated stage by stage in the kernel: a query that
  projects a protected column and compares it with a token, and a query that projects the same
  column in parentheses under an alias.  The parameters of the model are instantiated by
  concrete functions: the breadth-first traversal, a generator that prints the bind markers, and
  the cipher of \<open>Tokens\<close>.
\<close>

section \<open>The database and the configuration\<close>

definition demo_codec :: token_codec where
  "demo_codec = \<lparr>tc_alias = ''a'', tc_key = replicate 32 (CHR ''k'')\<rparr>"

definition demo_nonce :: bytes where
  "demo_nonce = replicate 12 (CHR ''n'')"

definition demo_token :: string where
  "demo_token =
     ''pii:v1:bm5ubm5ubm5ubm5ueyJ2IjoxLCJ0Ijoic3RyIiwiZCI6IngifQAAAAAAAAAAAAAAAAAAAAA''"

definition demo_pii :: pii_config where
  "demo_pii = \<lparr>pc_rules = [\<lparr>pr_database = ''*'', pr_schema = None, pr_table = ''Users'',
     pr_columns = [''Email'']\<rparr>]\<rparr>"

definition demo_table :: table_schema where
  "demo_table = \<lparr>ts_schema = ''dbo'', ts_name = ''Users'', ts_columns = [''Id'', ''Email'']\<rparr>"

definition demo_tables :: "(unit, exn, (string \<times> string) list) stateful" where
  "demo_tables = slift (Inr [(''dbo'', ''Users'')])"

definition demo_columns :: "string \<Rightarrow> string \<Rightarrow> (unit, exn, string list) stateful" where
  "demo_columns s t = slift (Inr [''Id'', ''Email''])"

definition demo_url :: url_parser where
  "demo_url s = Some \<lparr>url_drivername = ''mssql+pyodbc'', url_username = None, url_password = None,
     url_host = Some ''h''\<rparr>"

definition demo_server :: "string \<Rightarrow> server_config" where
  "demo_server k = \<lparr>sc_engine = SQLSERVER_ENGINE, sc_access_level = ALL_PII_SAFE, sc_connection_url = ''u'',
     sc_pii_key_env = Some ''K'', sc_pii_key = Some k, sc_pii = Some demo_pii\<rparr>"

definition demo_config :: app_config where
  "demo_config = \<lparr>ac_runtime = default_runtime, ac_logging = INFO, ac_servers =
     [(''a'', demo_server ''a2tra2tra2tra2tra2tra2tra2tra2tra2tra2tra2s=''),
      (''b'', demo_server ''bGxsbGxsbGxsbGxsbGxsbGxsbGxsbGxsbGxsbGxsbGw='')]\<rparr>"

definition demo_registry :: key_registry where
  "demo_registry = [(''a'', \<lparr>tc_alias = ''a'', tc_key = replicate 32 (CHR ''k'')\<rparr>),
     (''b'', \<lparr>tc_alias = ''b'', tc_key = replicate 32 (CHR ''l'')\<rparr>)]"

lemma demo_server_ok: "server_ok demo_url (demo_server k)"
proof -
  have "validate_connection_url demo_url (demo_server k) = Inr ()"
    by (simp add: validate_connection_url_def demo_url_def demo_server_def truthy_text_def)
  moreover have "validate_security_shape (demo_server k) = Inr ()"
    by (simp add: validate_security_shape_def demo_server_def truthy_text_def)
  moreover have "list_all (\<lambda>r. pii_rule_fields_ok r \<and> validate_wildcards r = Inr ()) (pc_rules demo_pii)"
    by code_simp
  moreover have "pc_rules demo_pii \<noteq> []" by (simp add: demo_pii_def)
  ultimately show ?thesis by (simp add: server_ok_def demo_server_def)
qed

lemma demo_config_ok: "app_config_ok demo_url demo_config"
proof -
  have "runtime_fields_ok (ac_runtime demo_config) \<and> validate_row_limits (ac_runtime demo_config) = Inr ()"
    by code_simp
  moreover have "validate_aliases_and_keys demo_config = Inr ()" by code_simp
  ultimately show ?thesis by (simp add: app_config_ok_def demo_server_ok demo_config_def)
qed

lemma demo_registry_built: "registry_from_config demo_config = Inr demo_registry"
  by code_simp

section \<open>Syntax trees\<close>

definition plain_column :: "string \<Rightarrow> node" where
  "plain_column c = mk KColumn [(''this'', ANode (to_identifier c))]"

definition text_literal :: "string \<Rightarrow> node" where
  "text_literal s = mk KLiteral [(''this'', AStr s), (''is_string'', ABool True)]"

definition equals :: "node \<Rightarrow> node \<Rightarrow> node" where
  "equals a b = mk KEQ [(''this'', ANode a), (''expression'', ANode b)]"

definition select_users :: "bool \<Rightarrow> node list \<Rightarrow> node option \<Rightarrow> (string \<times> argval) list \<Rightarrow> node" where
  "select_users resolved es w extra = mk KSelect ([(''expressions'', AList es),
     (''from_'', ANode (mk KFrom [(''this'', ANode (mk KTable ((''this'', ANode (to_identifier ''Users'')) #
        (if resolved then [(''db'', ANode (to_identifier ''dbo''))] else []))))])),
     (''where'', case w of None \<Rightarrow> ANone | Some c \<Rightarrow> ANode (mk KWhere [(''this'', ANode c)]))] @ extra)"

text \<open>
  \<open>SELECT Email, Id FROM Users WHERE Email = '<token>'\<close>: as parsed, with the table resolved,
  analysed, and as issued.
\<close>

definition good_parsed :: node where
  "good_parsed = select_users False [plain_column ''Email'', plain_column ''Id'']
     (Some (equals (plain_column ''Email'') (text_literal demo_token))) []"

definition good_resolved :: node where
  "good_resolved = select_users True [plain_column ''Email'', plain_column ''Id'']
     (Some (equals (plain_column ''Email'') (text_literal demo_token))) []"

definition users_column :: "string \<Rightarrow> node" where
  "users_column c = column_node ''Users'' c"

definition good_tree :: node where
  "good_tree = select_users True [users_column ''Email'', users_column ''Id'']
     (Some (equals (users_column ''Email'') (text_literal demo_token))) []"

definition good_issued :: node where
  "good_issued = select_users True [users_column ''Email'', users_column ''Id'']
     (Some (equals (users_column ''Email'') (placeholder 0))) [(''limit'', ANode (limit_node 11))]"

text \<open>\<open>SELECT (Email) AS x FROM Users\<close>.\<close>

definition paren_alias :: "node \<Rightarrow> node" where
  "paren_alias c = mk KAlias [(''this'', ANode (mk KParen [(''this'', ANode c)])),
     (''alias'', ANode (to_identifier ''x''))]"

definition leak_parsed :: node where
  "leak_parsed = select_users False [paren_alias (plain_column ''Email'')] None []"

definition leak_resolved :: node where
  "leak_resolved = select_users True [paren_alias (plain_column ''Email'')] None []"

definition leak_issued :: node where
  "leak_issued = select_users True [paren_alias (plain_column ''Email'')] None
     [(''limit'', ANode (limit_node 11))]"

section \<open>The library\<close>

definition demo_text :: "node \<Rightarrow> string" where
  "demo_text t = ''SELECT ... '' @ concat (map (\<lambda>p. case sub t p of None \<Rightarrow> [] | Some n \<Rightarrow>
     if nkind n = KVar then arg_str (arg n ''this'') else []) (bfs_walk t))"

text \<open>A library whose parser knows one statement and whose qualification accepts.\<close>

definition demo_lib :: "node \<Rightarrow> sqlglot" where
  "demo_lib q = \<lparr>sg_parse = (\<lambda>d s. Inr [Some q]), sg_walk = bfs_walk,
     sg_sql = (\<lambda>d t. Inr (demo_text t)), sg_qualify = (\<lambda>d s t. Inr ())\<rparr>"

lemma demo_lib_simps [simp]: "sg_walk (demo_lib q) = bfs_walk"
  by (simp add: demo_lib_def)

lemma walk_ok_demo: "walk_ok (sg_walk (demo_lib q))"
  by (simp add: walk_ok_bfs_walk)

abbreviation demo_limits :: parser_limits where
  "demo_limits \<equiv> limits_from_runtime default_runtime"

abbreviation demo_policy :: pii_policy where
  "demo_policy \<equiv> make_policy ''db'' demo_pii demo_codec"

definition marker_nonce :: string where
  "marker_nonce = ''0123456789abcdef''"

definition demo_validate :: "node \<Rightarrow> (unit, exn, validated_query) stateful" where
  "demo_validate q = validate_sql (demo_lib q) plain_aead marker_nonce demo_tables demo_columns
     ''SELECT'' ''a'' ''db'' demo_pii demo_codec default_runtime 10 SQLSERVER"

section \<open>The first run\<close>

lemma good_token: "encrypt plain_aead demo_codec demo_nonce (PyStr ''x'') = Inr (Some demo_token)"
  by code_simp

lemma good_parse: "parse_select (demo_lib good_parsed) ''SELECT'' demo_limits SQLSERVER = Inr good_parsed"
  by code_simp

lemma good_resolve:
  "resolve_tables bfs_walk demo_tables demo_columns SQLSERVER good_parsed () =
     (Inr (good_resolved, [demo_table]), ())"
  by code_simp

definition email_source :: source_column where
  "email_source = \<lparr>src_schema = ''dbo'', src_table = ''Users'', src_column = ''Email''\<rparr>"

definition id_source :: source_column where
  "id_source = \<lparr>src_schema = ''dbo'', src_table = ''Users'', src_column = ''Id''\<rparr>"

definition where_operand :: "string \<Rightarrow> pos" where
  "where_operand k = [(''where'', 0), (''this'', 0), (k, 0)]"

definition good_analyzed :: analyzed_query where
  "good_analyzed = \<lparr>an_query = good_tree,
     an_outputs = [\<lparr>oc_label = ''Email'', oc_kind = OutColumn, oc_source = Some email_source, oc_binding = Some ''Users''\<rparr>,
       \<lparr>oc_label = ''Id'', oc_kind = OutColumn, oc_source = Some id_source, oc_binding = Some ''Users''\<rparr>],
     an_references = [\<lparr>cr_node = [(''expressions'', 0)], cr_source = email_source\<rparr>,
       \<lparr>cr_node = [(''expressions'', 1)], cr_source = id_source\<rparr>,
       \<lparr>cr_node = where_operand ''this'', cr_source = email_source\<rparr>]\<rparr>"

lemma good_analyze:
  "analyze_query (demo_lib good_parsed) good_resolved [demo_table] demo_limits SQLSERVER = Inr good_analyzed"
  by code_simp

definition good_decision :: policy_decision where
  "good_decision = \<lparr>pd_protected = [True, False],
     pd_token_sites = [\<lparr>site_literal = where_operand ''expression'', site_value = PyStr ''x''\<rparr>]\<rparr>"

lemma good_evaluate: "evaluate plain_aead bfs_walk demo_policy good_analyzed = Inr good_decision"
  by code_simp

definition good_query :: validated_query where
  "good_query = \<lparr>vq_alias = ''a'', vq_database = ''db'', vq_ast = good_issued, vq_sql = ''SELECT ... ?'',
     vq_parameters = [PyStr ''x''],
     vq_outputs = [\<lparr>op_label = ''Email'', op_kind = OutColumn, op_source = Some email_source, op_protected = True\<rparr>,
       \<lparr>op_label = ''Id'', op_kind = OutColumn, op_source = Some id_source, op_protected = False\<rparr>],
     vq_max_rows = 10\<rparr>"

lemma good_issue:
  "issue_validated_query (demo_lib good_parsed) marker_nonce good_analyzed good_decision ''a'' ''db'' 10
     default_runtime demo_limits SQLSERVER = Inr good_query"
  by code_simp

lemma good_validate: "demo_validate good_parsed () = (Inr good_query, ())"
  by (simp add: demo_validate_def validate_sql_def sbind_def slift_def decide_def Let_def good_parse
      good_resolve good_analyze good_evaluate good_issue)

definition demo_rows :: "pyval list list \<Rightarrow> connection" where
  "demo_rows rows sql params = Inr \<lparr>cur_keys = replicate (length (hd rows)) ''c'',
     cur_fetchmany = (\<lambda>n. Inr (take (nat n) rows))\<rparr>"

definition good_rows :: "pyval list list" where
  "good_rows = [[PyStr ''x'', PyInt 7], [PyNone, PyInt 8]]"

definition good_result :: execution_result where
  "good_result = \<lparr>er_columns = [\<lparr>rc_name = ''Email'', rc_source = Some email_source, rc_protected = True, rc_encoding = EncToken\<rparr>,
       \<lparr>rc_name = ''Id'', rc_source = Some id_source, rc_protected = False, rc_encoding = EncJson\<rparr>],
     er_rows = [[PyStr demo_token, PyInt 7], [PyNone, PyInt 8]], er_truncated = False\<rparr>"

lemma good_execute:
  "execute_validated plain_aead (\<lambda>k. demo_nonce) (demo_rows good_rows) good_query demo_codec = (Inr good_result, True)"
  by code_simp

section \<open>A cipher that binds the associated data\<close>

text \<open>
  Its tag is the end of the associated data: a toy, but one that meets what is relied on, for two
  aliases with one key.
\<close>

definition aad_tag :: "bytes \<Rightarrow> bytes" where
  "aad_tag a = take 16 (rev a @ replicate 16 (CHR ''0''))"

definition tagged_aead :: aead where
  "tagged_aead = \<lparr>ae_encrypt = (\<lambda>k n p a. p @ aad_tag a),
     ae_decrypt = (\<lambda>k n c a. if length c \<ge> 16 \<and> drop (length c - 16) c = aad_tag a
       then Some (take (length c - 16) c) else None)\<rparr>"

definition demo_codecs :: "token_codec set" where
  "demo_codecs = {demo_codec, demo_codec\<lparr>tc_alias := ''b''\<rparr>}"

definition tagged_token :: string where
  "tagged_token = (case encrypt tagged_aead demo_codec demo_nonce (PyStr ''x'') of Inr (Some t) \<Rightarrow> t | _ \<Rightarrow> [])"

lemma length_aad_tag [simp]: "length (aad_tag a) = 16"
  by (simp add: aad_tag_def)

lemma aead_ok_tagged: "aead_ok tagged_aead"
  unfolding aead_ok_def tagged_aead_def by (auto split: if_splits) (metis append_take_drop_id)

lemma tagged_separates: "aead_separates tagged_aead (codec_context ` demo_codecs)"
proof -
  have "aad_tag (tc_aad demo_codec) \<noteq> aad_tag (tc_aad (demo_codec\<lparr>tc_alias := ''b''\<rparr>))" by code_simp
  then show ?thesis
    by (auto simp: aead_separates_def demo_codecs_def codec_context_def tagged_aead_def split: if_splits)
qed

lemma tagged_decrypts: "decrypt tagged_aead demo_codec tagged_token = Inr (PyStr ''x'')"
  by code_simp

section \<open>The second run\<close>

lemma leak_parse: "parse_select (demo_lib leak_parsed) ''SELECT'' demo_limits SQLSERVER = Inr leak_parsed"
  by code_simp

lemma leak_resolve:
  "resolve_tables bfs_walk demo_tables demo_columns SQLSERVER leak_parsed () =
     (Inr (leak_resolved, [demo_table]), ())"
  by code_simp

definition leak_analyzed :: analyzed_query where
  "leak_analyzed = \<lparr>an_query = leak_resolved,
     an_outputs = [\<lparr>oc_label = ''x'', oc_kind = OutLiteral, oc_source = None, oc_binding = None\<rparr>],
     an_references = []\<rparr>"

lemma leak_analyze:
  "analyze_query (demo_lib leak_parsed) leak_resolved [demo_table] demo_limits SQLSERVER = Inr leak_analyzed"
  by code_simp

lemma leak_evaluate: "evaluate plain_aead bfs_walk demo_policy leak_analyzed =
    Inr \<lparr>pd_protected = [False], pd_token_sites = []\<rparr>"
  by code_simp

definition leak_query :: validated_query where
  "leak_query = \<lparr>vq_alias = ''a'', vq_database = ''db'', vq_ast = leak_issued, vq_sql = ''SELECT ... '',
     vq_parameters = [],
     vq_outputs = [\<lparr>op_label = ''x'', op_kind = OutLiteral, op_source = None, op_protected = False\<rparr>],
     vq_max_rows = 10\<rparr>"

lemma leak_issue:
  "issue_validated_query (demo_lib leak_parsed) marker_nonce leak_analyzed
     \<lparr>pd_protected = [False], pd_token_sites = []\<rparr> ''a'' ''db'' 10 default_runtime demo_limits SQLSERVER
     = Inr leak_query"
  by code_simp

lemma leak_validate: "demo_validate leak_parsed () = (Inr leak_query, ())"
  by (simp add: demo_validate_def validate_sql_def sbind_def slift_def decide_def Let_def leak_parse
      leak_resolve leak_analyze leak_evaluate leak_issue)

lemma leak_execute:
  "fst (execute_validated plain_aead (\<lambda>k. demo_nonce) (demo_rows [[PyStr ''x'']]) leak_query demo_codec) =
     Inr \<lparr>er_columns = [\<lparr>rc_name = ''x'', rc_source = None, rc_protected = False, rc_encoding = EncJson\<rparr>],
       er_rows = [[PyStr ''x'']], er_truncated = False\<rparr>"
  by code_simp

end
