(* ===== verification/Registry.thy ===== *)
theory Registry
  imports Config Lru "HOL-Library.Multiset"
begin

text \<open>
  \<open>db/registry.py\<close>: the engine registry, a bounded recency store of SQLAlchemy engines keyed by
  server alias and database.  An engine is an identity with the options it was created with;
  \<open>create_engine\<close> of SQLAlchemy (with \<open>make_url\<close>) is a parameter that may raise.  The
  registry's lock makes each \<open>get\<close> one step.
\<close>

section \<open>Engines\<close>

text \<open>
  The arguments of \<open>create_engine\<close> and the facts its event hooks capture: the statement timeout,
  and whether every new session is put into a mode with backslash escapes.
\<close>

record engine_options =
  eo_url :: string
  eo_database :: "string option"
  eo_connect_args :: "(string \<times> int) list"
  eo_pool_size :: int
  eo_max_overflow :: int
  eo_pool_timeout :: int
  eo_pool_pre_ping :: bool
  eo_pool_use_lifo :: bool
  eo_timeout :: int
  eo_keep_backslash :: bool

record db_engine =
  eg_id :: nat
  eg_options :: engine_options

definition is_mysql :: "engine \<Rightarrow> bool" where
  "is_mysql e \<longleftrightarrow> e = MYSQL_ENGINE \<or> e = MARIADB_ENGINE"

text \<open>The body of \<open>_create_engine\<close> up to the library call.\<close>

definition engine_options_for :: "app_config \<Rightarrow> string \<Rightarrow> string option \<Rightarrow> engine_options result" where
  "engine_options_for cfg alias database = (case map_of (ac_servers cfg) alias of
       None \<Rightarrow> Inl KeyError
     | Some server \<Rightarrow>
         let r = ac_runtime cfg; timeout = statement_timeout_seconds r in
         Inr \<lparr>eo_url = sc_connection_url server, eo_database = database,
           eo_connect_args = (if is_mysql (sc_engine server)
             then [(''connect_timeout'', pool_timeout_seconds r), (''read_timeout'', timeout),
               (''write_timeout'', timeout)] else []),
           eo_pool_size = pool_size r, eo_max_overflow = max_overflow r,
           eo_pool_timeout = pool_timeout_seconds r, eo_pool_pre_ping = True, eo_pool_use_lifo = True,
           eo_timeout = timeout, eo_keep_backslash = is_mysql (sc_engine server)\<rparr>)"

text \<open>
  \<open>_create_engine\<close>; \<open>create\<close> says whether the library accepts the options, \<open>i\<close> is the identity
  of the new object.
\<close>

definition create_engine_for :: "app_config \<Rightarrow> (engine_options \<Rightarrow> unit result) \<Rightarrow> string \<Rightarrow> string option
    \<Rightarrow> nat \<Rightarrow> db_engine result" where
  "create_engine_for cfg create alias database i =
     rbind (engine_options_for cfg alias database) (\<lambda>opts.
     rbind (create opts) (\<lambda>_. Inr \<lparr>eg_id = i, eg_options = opts\<rparr>))"

subsection \<open>The session hook of MySQL and MariaDB\<close>

text \<open>\<open>s.split(c)\<close> for a one-character separator.\<close>

fun split_on :: "char \<Rightarrow> string \<Rightarrow> string list" where
  "split_on c [] = [[]]"
| "split_on c (x # s) = (if x = c then [] # split_on c s
     else (x # hd (split_on c s)) # tl (split_on c s))"

definition NO_BACKSLASH :: string where
  "NO_BACKSLASH = ''NO_BACKSLASH_ESCAPES''"

definition kept_modes :: "string \<Rightarrow> string list" where
  "kept_modes mode = filter (\<lambda>m. m \<noteq> [] \<and> m \<noteq> NO_BACKSLASH) (split_on (CHR '','') mode)"

text \<open>
  The statements that \<open>keep_backslash_escapes\<close> executes on a new session whose \<open>sql_mode\<close> is
  the argument, with their parameters.
\<close>

definition session_setup :: "engine_options \<Rightarrow> string \<Rightarrow> (string \<times> string list) list" where
  "session_setup opts mode = (if eo_keep_backslash opts
     then [(''SELECT @@SESSION.sql_mode'', []),
       (''SET SESSION sql_mode = %s'', [join '','' (kept_modes mode)])]
     else [])"

lemma split_on_neq_Nil [simp]: "split_on c s \<noteq> []"
  by (cases s) auto

lemma split_on_no_sep: "c \<notin> set s \<Longrightarrow> split_on c s = [s]"
  by (induction s) auto

lemma split_on_append: "c \<notin> set s \<Longrightarrow> split_on c (s @ c # t) = s # split_on c t"
  by (induction s) auto

lemma split_on_pieces: "p \<in> set (split_on c s) \<Longrightarrow> c \<notin> set p"
proof (induction s arbitrary: p)
  case (Cons x s)
  have "split_on c s = hd (split_on c s) # tl (split_on c s)" by simp
  then have "hd (split_on c s) \<in> set (split_on c s)" "set (tl (split_on c s)) \<subseteq> set (split_on c s)"
    by (metis list.set_intros(1), metis set_subset_Cons)
  with Cons show ?case by (auto split: if_splits)
qed simp

lemma split_on_join:
  "ms \<noteq> [] \<Longrightarrow> (\<And>m. m \<in> set ms \<Longrightarrow> c \<notin> set m) \<Longrightarrow> split_on c (join [c] ms) = ms"
proof (induction "[c]" ms rule: join.induct)
  case (2 m)
  then show ?case by (simp add: split_on_no_sep)
next
  case (3 m n ms)
  then have "split_on c (join [c] (m # n # ms)) = m # split_on c (join [c] (n # ms))"
    by (simp add: split_on_append)
  with 3 show ?case by simp
qed simp

text \<open>The mode the hook sets, read back.\<close>

lemma kept_modes_set:
  "kept_modes (join '','' (kept_modes mode)) = kept_modes mode"
proof (cases "kept_modes mode = []")
  case True
  then show ?thesis by (simp add: kept_modes_def)
next
  case False
  have "CHR '','' \<notin> set m" if "m \<in> set (kept_modes mode)" for m
    using that split_on_pieces by (auto simp: kept_modes_def)
  from split_on_join [OF False this] show ?thesis
    by (simp add: kept_modes_def)
qed

section \<open>The registry\<close>

type_synonym engine_key = "string \<times> string option"

text \<open>The dictionary of engines, the number of engines created, and those disposed of.\<close>

record engine_registry =
  rg_engines :: "(engine_key, db_engine) odict"
  rg_created :: nat
  rg_disposed :: "nat list"

definition new_registry :: engine_registry where
  "new_registry = \<lparr>rg_engines = [], rg_created = 0, rg_disposed = []\<rparr>"

definition unknown_engine_error :: "string \<Rightarrow> domain_error" where
  "unknown_engine_error alias = make_error UNKNOWN_SERVER
     (''Unknown configured server '' @ py_repr alias @ ''.'') None"

text \<open>\<open>popitem(last=False)\<close> and the disposal of the engine it returns, above the size bound.\<close>

definition evict_engine :: "int \<Rightarrow> engine_registry \<Rightarrow> engine_registry" where
  "evict_engine bound s = (case rg_engines s of
       [] \<Rightarrow> s
     | x # es \<Rightarrow> if int (length (rg_engines s)) > bound
         then s\<lparr>rg_engines := es, rg_disposed := rg_disposed s @ [eg_id (snd x)]\<rparr> else s)"

text \<open>\<open>get\<close>.\<close>

definition registry_get :: "app_config \<Rightarrow> (engine_options \<Rightarrow> unit result) \<Rightarrow> string \<Rightarrow> string option
    \<Rightarrow> (engine_registry, exn, db_engine) stateful" where
  "registry_get cfg create alias database s =
     (if map_of (ac_servers cfg) alias = None then (Inl (Domain (unknown_engine_error alias)), s)
      else (case map_of (rg_engines s) (alias, database) of
          Some e \<Rightarrow> (Inr e, s\<lparr>rg_engines := od_move_to_end (alias, database) (rg_engines s)\<rparr>)
        | None \<Rightarrow> (case create_engine_for cfg create alias database (rg_created s) of
              Inl x \<Rightarrow> (Inl x, s)
            | Inr e \<Rightarrow> (Inr e, evict_engine (engine_cache_size (ac_runtime cfg))
                (s\<lparr>rg_engines := AList.update (alias, database) e (rg_engines s),
                   rg_created := Suc (rg_created s)\<rparr>)))))"

text \<open>\<open>dispose\<close>.\<close>

definition registry_dispose :: "engine_registry \<Rightarrow> engine_registry" where
  "registry_dispose s = s\<lparr>rg_engines := [],
     rg_disposed := rg_disposed s @ map (eg_id \<circ> snd) (rg_engines s)\<rparr>"

text \<open>
  \<open>run\<close>: get the engine, then run the operation on it; the operation works on a state of its
  own beside the registry.
\<close>

definition registry_run :: "app_config \<Rightarrow> (engine_options \<Rightarrow> unit result) \<Rightarrow> string \<Rightarrow> string option
    \<Rightarrow> (db_engine \<Rightarrow> ('s, exn, 'a) stateful) \<Rightarrow> (engine_registry \<times> 's, exn, 'a) stateful" where
  "registry_run cfg create alias database operation st = (case st of (s, w) \<Rightarrow>
     (case registry_get cfg create alias database s of
        (Inl x, s') \<Rightarrow> (Inl x, s', w)
      | (Inr e, s') \<Rightarrow> (case operation e w of (r, w') \<Rightarrow> (r, s', w'))))"

text \<open>\<open>cached_engine_count\<close>.\<close>

definition cached_engine_count :: "engine_registry \<Rightarrow> nat" where
  "cached_engine_count s = length (rg_engines s)"

section \<open>The registry as a bounded recency store\<close>

datatype registry_op = RGet string "string option" | RDispose

fun registry_step :: "app_config \<Rightarrow> (engine_options \<Rightarrow> unit result) \<Rightarrow> registry_op
    \<Rightarrow> engine_registry \<Rightarrow> engine_registry" where
  "registry_step cfg create (RGet alias database) s = snd (registry_get cfg create alias database s)"
| "registry_step cfg create RDispose s = registry_dispose s"

text \<open>A \<open>get\<close> uses its key when it returns an engine; \<open>dispose\<close> drops every key.\<close>

fun registry_used :: "app_config \<Rightarrow> (engine_options \<Rightarrow> unit result) \<Rightarrow> registry_op
    \<Rightarrow> engine_registry \<Rightarrow> engine_key option" where
  "registry_used cfg create (RGet alias database) s =
     (case fst (registry_get cfg create alias database s) of Inl _ \<Rightarrow> None | Inr _ \<Rightarrow> Some (alias, database))"
| "registry_used cfg create RDispose s = None"

fun registry_dropped :: "registry_op \<Rightarrow> engine_registry \<Rightarrow> engine_key set" where
  "registry_dropped (RGet alias database) s = {}"
| "registry_dropped RDispose s = set (keys (rg_engines s))"

lemma keys_update_new: "k \<notin> set (keys d) \<Longrightarrow> keys (AList.update k v d) = keys d @ [k]"
  by (induction d) auto

lemma update_new: "k \<notin> set (keys d) \<Longrightarrow> AList.update k v d = d @ [(k, v)]"
  by (induction d) auto

text \<open>The three ways a \<open>get\<close> goes.\<close>

lemma registry_get_cases:
  obtains (failed) x where "registry_get cfg create a d s = (Inl x, s)"
  | (hit) e where "map_of (rg_engines s) (a, d) = Some e"
      "registry_get cfg create a d s = (Inr e, s\<lparr>rg_engines := od_move_to_end (a, d) (rg_engines s)\<rparr>)"
  | (made) e where "(a, d) \<notin> set (keys (rg_engines s))" "create_engine_for cfg create a d (rg_created s) = Inr e"
      "registry_get cfg create a d s = (Inr e, evict_engine (engine_cache_size (ac_runtime cfg))
         (s\<lparr>rg_engines := rg_engines s @ [((a, d), e)], rg_created := Suc (rg_created s)\<rparr>))"
proof (cases "map_of (ac_servers cfg) a = None")
  case True
  then show ?thesis by (intro failed) (simp add: registry_get_def)
next
  case known: False
  show ?thesis
  proof (cases "map_of (rg_engines s) (a, d)")
    case (Some e)
    with known show ?thesis by (intro hit) (simp_all add: registry_get_def)
  next
    case None
    then have k: "(a, d) \<notin> set (keys (rg_engines s))" by (simp add: map_of_eq_None_iff)
    show ?thesis
    proof (cases "create_engine_for cfg create a d (rg_created s)")
      case (Inl x)
      have "registry_get cfg create a d s = (Inl x, s)"
        using known None Inl by (auto simp: registry_get_def)
      then show ?thesis by (rule failed)
    next
      case (Inr e)
      with known None k show ?thesis by (intro made) (simp_all add: registry_get_def update_new)
    qed
  qed
qed

lemma keys_evict_engine:
  assumes "length (rg_engines s) \<le> Suc (nat bound)"
  shows "keys (rg_engines (evict_engine bound s)) = drop (length (rg_engines s) - nat bound) (keys (rg_engines s))"
proof (cases "rg_engines s")
  case Nil
  then show ?thesis by (simp add: evict_engine_def)
next
  case (Cons x es)
  show ?thesis
  proof (cases "int (length (rg_engines s)) > bound")
    case True
    then have "length (rg_engines s) - nat bound = Suc 0" using assms Cons by (cases "0 \<le> bound") (auto simp: nat_less_iff)
    with True Cons show ?thesis by (simp add: evict_engine_def)
  next
    case False
    then have "length (rg_engines s) - nat bound = 0" by simp
    with False Cons show ?thesis by (simp add: evict_engine_def)
  qed
qed


lemma length_move_end:
  assumes "distinct ks" and "k \<in> set ks"
  shows "length (removeAll k ks @ [k]) = length ks"
proof -
  have "length (removeAll k ks) = length ks - 1"
    using assms by (simp add: distinct_remove1_removeAll [symmetric] length_remove1)
  moreover have "0 < length ks" using assms(2) by (cases ks) auto
  ultimately show ?thesis by simp
qed

lemma registry_get_keys:
  assumes "distinct (keys (rg_engines s))"
    and "length (keys (rg_engines s)) \<le> nat (engine_cache_size (ac_runtime cfg))"
  shows "keys (rg_engines (snd (registry_get cfg create a d s))) =
    (case fst (registry_get cfg create a d s) of Inl _ \<Rightarrow> keys (rg_engines s)
     | Inr _ \<Rightarrow> lru_use (nat (engine_cache_size (ac_runtime cfg))) (a, d) (keys (rg_engines s)))"
proof (cases rule: registry_get_cases [of cfg create a d s])
  case (failed x)
  then show ?thesis by simp
next
  case (hit e)
  let ?ks = "keys (rg_engines s)"
  from hit(1) have k: "(a, d) \<in> set ?ks" by (metis map_of_eq_None_iff option.distinct(1) image_set)
  then have "length (removeAll (a, d) ?ks @ [(a, d)]) = length ?ks"
    by (rule length_move_end [OF assms(1)])
  with assms(2) have "length (removeAll (a, d) ?ks @ [(a, d)]) - nat (engine_cache_size (ac_runtime cfg)) = 0"
    by simp
  with hit(2) k show ?thesis by (simp add: keys_od_move_to_end lru_use_def Let_def)
next
  case (made e)
  with assms(2) show ?thesis
    by (simp add: keys_evict_engine lru_use_def Let_def removeAll_id)
qed

interpretation registry_lru: lru_store
  "\<lambda>s :: engine_registry. keys (rg_engines s)" "\<lambda>s. nat (engine_cache_size (ac_runtime cfg))"
  "registry_step cfg create" registry_dropped "registry_used cfg create" for cfg create
proof unfold_locales
  fix x and s :: engine_registry
  assume wf: "distinct (keys (rg_engines s))"
    "length (keys (rg_engines s)) \<le> nat (engine_cache_size (ac_runtime cfg))"
  show "keys (rg_engines (registry_step cfg create x s)) =
    (let ks = filter (\<lambda>k. k \<notin> registry_dropped x s) (keys (rg_engines s)) in
     case registry_used cfg create x s of None \<Rightarrow> ks
     | Some k \<Rightarrow> lru_use (nat (engine_cache_size (ac_runtime cfg))) k ks)"
  proof (cases x)
    case (RGet a d)
    then show ?thesis using registry_get_keys [OF wf, of create a d]
      by (simp split: sum.splits)
  next
    case RDispose
    have "filter (\<lambda>k. k \<notin> fst ` set es) (map fst es) = []" for es :: "(engine_key, db_engine) odict"
      by (auto simp: filter_empty_conv)
    with RDispose show ?thesis by (simp add: registry_dispose_def)
  qed
qed simp

section \<open>No engine is lost, none serves another key\<close>

text \<open>
  Every engine in the dictionary was created with the options of its key, and every engine ever
  created is either in the dictionary or disposed of, once.
\<close>

definition engines_match :: "app_config \<Rightarrow> engine_registry \<Rightarrow> bool" where
  "engines_match cfg s \<longleftrightarrow>
     (\<forall>((a, d), e) \<in> set (rg_engines s). engine_options_for cfg a d = Inr (eg_options e))"

definition engine_ids :: "engine_registry \<Rightarrow> nat list" where
  "engine_ids s = map (eg_id \<circ> snd) (rg_engines s)"

definition engines_accounted :: "engine_registry \<Rightarrow> bool" where
  "engines_accounted s \<longleftrightarrow> mset (engine_ids s) + mset (rg_disposed s) = mset [0..<rg_created s]"

lemma create_engine_for_Inr:
  "create_engine_for cfg create a d i = Inr e \<Longrightarrow>
     eg_id e = i \<and> engine_options_for cfg a d = Inr (eg_options e)"
  by (auto simp: create_engine_for_def result_simps)

lemma mset_od_delete:
  "distinct (keys es) \<Longrightarrow> map_of es k = Some v \<Longrightarrow> add_mset (k, v) (mset (od_delete k es)) = mset es"
proof (induction es)
  case (Cons x es)
  show ?case
  proof (cases "fst x = k")
    case True
    with Cons.prems have "od_delete k es = es"
      unfolding od_delete_def by (intro filter_True) (auto simp: image_iff)
    with True Cons.prems(2) show ?thesis by (cases x) (simp add: od_delete_def)
  next
    case False
    with Cons show ?thesis by (cases x) (simp add: od_delete_def add_mset_commute)
  qed
qed simp

lemma mset_od_move_to_end: "distinct (keys es) \<Longrightarrow> mset (od_move_to_end k es) = mset es"
  using mset_od_delete [of es k] by (simp add: od_move_to_end_def split: option.split)

lemma evict_engine_ok:
  "engines_match cfg s \<Longrightarrow> engines_match cfg (evict_engine b s)"
  "engines_accounted s \<Longrightarrow> engines_accounted (evict_engine b s)"
  by (auto simp: evict_engine_def engines_match_def engines_accounted_def engine_ids_def
      split: list.splits)

lemma registry_get_ok:
  assumes "engines_match cfg s" and "engines_accounted s" and "distinct (keys (rg_engines s))"
  shows "engines_match cfg (snd (registry_get cfg create a d s)) \<and>
    engines_accounted (snd (registry_get cfg create a d s))"
proof (cases rule: registry_get_cases [of cfg create a d s])
  case (failed x)
  with assms show ?thesis by simp
next
  case (hit e)
  have "mset (od_move_to_end (a, d) (rg_engines s)) = mset (rg_engines s)"
    by (rule mset_od_move_to_end [OF assms(3)])
  then have "set (od_move_to_end (a, d) (rg_engines s)) = set (rg_engines s)"
    "image_mset (eg_id \<circ> snd) (mset (od_move_to_end (a, d) (rg_engines s))) = mset (engine_ids s)"
    by (metis set_mset_mset, simp add: engine_ids_def)
  with hit(2) assms(1,2) show ?thesis
    by (simp add: engines_match_def engines_accounted_def engine_ids_def)
next
  case (made e)
  let ?s = "s\<lparr>rg_engines := rg_engines s @ [((a, d), e)], rg_created := Suc (rg_created s)\<rparr>"
  from create_engine_for_Inr [OF made(2)] assms(1,2)
  have "engines_match cfg ?s" "engines_accounted ?s"
    by (auto simp: engines_match_def engines_accounted_def engine_ids_def)
  with made(3) show ?thesis by (simp add: evict_engine_ok)
qed


lemma registry_step_ok:
  assumes "engines_match cfg s" and "engines_accounted s" and "distinct (keys (rg_engines s))"
  shows "engines_match cfg (registry_step cfg create x s) \<and> engines_accounted (registry_step cfg create x s)"
proof (cases x)
  case (RGet a d)
  with registry_get_ok [OF assms] show ?thesis by simp
next
  case RDispose
  with assms(2) show ?thesis
    by (simp add: registry_dispose_def engines_match_def engines_accounted_def engine_ids_def ac_simps)
qed

lemma wf_new_registry: "registry_lru.wf cfg new_registry"
  by (simp add: registry_lru.wf_def new_registry_def)

lemma registry_run_ok:
  assumes "registry_lru.wf cfg s" and "engines_match cfg s" and "engines_accounted s"
  shows "engines_match cfg (registry_lru.run cfg create xs s) \<and>
    engines_accounted (registry_lru.run cfg create xs s)"
  using assms
proof (induction xs arbitrary: s)
  case (Cons x xs)
  have "distinct (keys (rg_engines s))" using Cons.prems(1) by (simp add: registry_lru.wf_def)
  with Cons registry_step_ok [of cfg s create x] registry_lru.wf_step [OF Cons.prems(1), of create x]
  show ?case by simp
qed simp

text \<open>What \<open>get\<close> returns.\<close>

lemma registry_get_Inr:
  assumes "registry_get cfg create a d s = (Inr e, s')" and "engines_match cfg s"
  shows "engine_options_for cfg a d = Inr (eg_options e)" and "map_of (ac_servers cfg) a \<noteq> None"
proof -
  show "map_of (ac_servers cfg) a \<noteq> None"
    using assms(1) by (cases "map_of (ac_servers cfg) a") (simp_all add: registry_get_def)
  show "engine_options_for cfg a d = Inr (eg_options e)"
  proof (cases rule: registry_get_cases [of cfg create a d s])
    case (failed x)
    with assms(1) show ?thesis by simp
  next
    case (hit e')
    with assms show ?thesis by (auto simp: engines_match_def dest: map_of_SomeD)
  next
    case (made e')
    with assms(1) create_engine_for_Inr [OF made(2)] show ?thesis by simp
  qed
qed

text \<open>An engine stays while its key does: a \<open>get\<close> of a stored key creates nothing.\<close>

lemma registry_get_stored:
  assumes "map_of (rg_engines s) (a, d) = Some e" and "map_of (ac_servers cfg) a \<noteq> None"
  shows "registry_get cfg create a d s =
    (Inr e, s\<lparr>rg_engines := od_move_to_end (a, d) (rg_engines s)\<rparr>)"
  using assms by (simp add: registry_get_def)

section \<open>Properties\<close>

lemma run_is_fold: "registry_lru.run cfg create xs s = fold (registry_step cfg create) xs s"
  by (induction xs arbitrary: s) simp_all

text \<open>What any calls on a new registry leave.\<close>

lemma reachable_registry:
  "registry_lru.wf cfg (fold (registry_step cfg create) ops new_registry)"
  "engines_match cfg (fold (registry_step cfg create) ops new_registry)"
  "engines_accounted (fold (registry_step cfg create) ops new_registry)"
proof -
  have "engines_match cfg new_registry" "engines_accounted new_registry"
    by (simp_all add: engines_match_def engines_accounted_def engine_ids_def new_registry_def)
  from registry_run_ok [OF wf_new_registry this, of create ops]
    registry_lru.wf_run [OF wf_new_registry, of cfg create ops]
  show "registry_lru.wf cfg (fold (registry_step cfg create) ops new_registry)"
    "engines_match cfg (fold (registry_step cfg create) ops new_registry)"
    "engines_accounted (fold (registry_step cfg create) ops new_registry)"
    by (simp_all add: run_is_fold)
qed

text \<open>A configuration with one MySQL server and room for one engine.\<close>

definition one_mysql :: app_config where
  "one_mysql = \<lparr>ac_runtime = default_runtime\<lparr>engine_cache_size := 1\<rparr>, ac_logging = INFO,
     ac_servers = [(''a'', \<lparr>sc_engine = MYSQL_ENGINE, sc_access_level = METADATA,
       sc_connection_url = ''mysql+pymysql://h'', sc_pii_key_env = None, sc_pii_key = None, sc_pii = None\<rparr>)]\<rparr>"

definition one_mysql_options :: engine_options where
  "one_mysql_options = (case engine_options_for one_mysql ''a'' (Some ''d'') of Inr opts \<Rightarrow> opts)"

text \<open>
  C22. The registry is bounded and leaks nothing: after any calls of \<open>get\<close> and \<open>dispose\<close>,
  failing ones included, it holds at most the configured number of engines under distinct keys,
  and every engine ever created is either held or disposed of, and never both or twice.
\<close>

theorem engines_bounded_and_accounted:
  "int (cached_engine_count (fold (registry_step cfg create) ops new_registry)) \<le> max 0 (engine_cache_size (ac_runtime cfg)) \<and>
   distinct (keys (rg_engines (fold (registry_step cfg create) ops new_registry))) \<and>
   mset (engine_ids (fold (registry_step cfg create) ops new_registry)) +
     mset (rg_disposed (fold (registry_step cfg create) ops new_registry)) =
     mset [0..<rg_created (fold (registry_step cfg create) ops new_registry)]"
proof -
  have "distinct (keys (rg_engines (fold (registry_step cfg create) ops new_registry)))"
    "length (keys (rg_engines (fold (registry_step cfg create) ops new_registry))) \<le> nat (engine_cache_size (ac_runtime cfg))"
    using reachable_registry(1) [of cfg create ops] by (simp_all only: registry_lru.wf_def)
  moreover from this(2) have "int (cached_engine_count (fold (registry_step cfg create) ops new_registry))
      \<le> max 0 (engine_cache_size (ac_runtime cfg))"
    by (simp add: cached_engine_count_def)
  ultimately show ?thesis
    using reachable_registry(3) [of cfg create ops] by (simp only: engines_accounted_def simp_thms)
qed

text \<open>
  C21. An engine never serves another server: whatever was asked before, \<open>get\<close> returns an engine
  that was created for exactly the alias and database of the call, with that server's URL.
\<close>

theorem engine_belongs_to_its_key:
  assumes "registry_get cfg create a d (fold (registry_step cfg create) ops new_registry) = (Inr e, s)"
  shows "\<exists>server. map_of (ac_servers cfg) a = Some server \<and> eo_url (eg_options e) = sc_connection_url server \<and>
    eo_database (eg_options e) = d \<and> eo_keep_backslash (eg_options e) = is_mysql (sc_engine server)"
proof -
  have "engine_options_for cfg a d = Inr (eg_options e)"
    by (rule registry_get_Inr(1) [OF assms reachable_registry(2)])
  then obtain server where "map_of (ac_servers cfg) a = Some server"
    and opts: "engine_options_for cfg a d = Inr (eg_options e)"
    by (auto simp: engine_options_for_def split: option.splits)
  then show ?thesis by (auto simp: engine_options_for_def Let_def) (metis engine_options.select_convs)+
qed

theorem engine_belongs_to_its_key_witness:
  "\<exists>server. map_of (ac_servers one_mysql) ''a'' = Some server \<and>
    eo_url (eg_options \<lparr>eg_id = 1, eg_options = one_mysql_options\<rparr>) = sc_connection_url server \<and>
    eo_database (eg_options \<lparr>eg_id = 1, eg_options = one_mysql_options\<rparr>) = Some ''d'' \<and>
    eo_keep_backslash (eg_options \<lparr>eg_id = 1, eg_options = one_mysql_options\<rparr>) = is_mysql (sc_engine server)"
proof (rule engine_belongs_to_its_key)
  show "registry_get one_mysql (\<lambda>_. Inr ()) ''a'' (Some ''d'')
      (fold (registry_step one_mysql (\<lambda>_. Inr ())) [RGet ''a'' None, RDispose, RGet ''b'' None] new_registry) =
    (Inr \<lparr>eg_id = 1, eg_options = one_mysql_options\<rparr>,
     \<lparr>rg_engines = [((''a'', Some ''d''), \<lparr>eg_id = 1, eg_options = one_mysql_options\<rparr>)],
       rg_created = 2, rg_disposed = [0]\<rparr>)" by code_simp
qed

text \<open>
  C24. The registry is the reference store: with configured aliases and a library that accepts
  its options, the keys after any \<open>get\<close> calls are those of a least-recently-used list of the
  configured size on which the same keys are used.
\<close>

theorem registry_refines_lru:
  assumes "\<And>opts. create opts = Inr ()" and "fst ` set calls \<subseteq> dom (map_of (ac_servers cfg))"
  shows "keys (rg_engines (fold (\<lambda>(a, d). registry_step cfg create (RGet a d)) calls new_registry)) =
    fold (lru_use (nat (engine_cache_size (ac_runtime cfg)))) calls []"
proof -
  have get: "\<exists>e. fst (registry_get cfg create a d s) = Inr e" if known: "a \<in> dom (map_of (ac_servers cfg))" for a d s
    using known assms(1)
    by (cases "map_of (rg_engines s) (a, d)")
      (auto simp: registry_get_def create_engine_for_def engine_options_for_def Let_def)
  have "keys (rg_engines (fold (\<lambda>(a, d). registry_step cfg create (RGet a d)) calls s)) =
      fold (lru_use (nat (engine_cache_size (ac_runtime cfg)))) calls (keys (rg_engines s))"
    if "registry_lru.wf cfg s" for s
    using that assms(2)
  proof (induction calls arbitrary: s)
    case (Cons c calls)
    obtain a d where c: "c = (a, d)" by (cases c)
    with Cons.prems(2) get obtain e where e: "fst (registry_get cfg create a d s) = Inr e" by fastforce
    have "keys (rg_engines (registry_step cfg create (RGet a d) s)) =
        lru_use (nat (engine_cache_size (ac_runtime cfg))) (a, d) (keys (rg_engines s))"
      using Cons.prems(1) e registry_get_keys [of s cfg create a d] by (simp add: registry_lru.wf_def)
    with Cons.IH [OF registry_lru.wf_step [OF Cons.prems(1)], of create "RGet a d"] Cons.prems(2) c
    show ?case by simp
  qed simp
  from this [OF wf_new_registry] show ?thesis by (simp add: new_registry_def)
qed

theorem registry_refines_lru_witness:
  "keys (rg_engines (fold (\<lambda>(a, d). registry_step one_mysql (\<lambda>_. Inr ()) (RGet a d))
      [(''a'', None), (''a'', Some ''d'')] new_registry)) =
    fold (lru_use (nat (engine_cache_size (ac_runtime one_mysql)))) [(''a'', None), (''a'', Some ''d'')] []"
  by (rule registry_refines_lru) (simp_all add: one_mysql_def)

text \<open>
  No MySQL session runs without backslash escapes: the mode that a new session is put into
  never has \<open>NO_BACKSLASH_ESCAPES\<close> and has every other mode the session had, in order.
\<close>

theorem session_keeps_escapes:
  assumes "eo_keep_backslash opts"
  shows "\<exists>m. session_setup opts mode =
      [(''SELECT @@SESSION.sql_mode'', []), (''SET SESSION sql_mode = %s'', [m])] \<and>
    NO_BACKSLASH \<notin> set (split_on (CHR '','') m) \<and>
    filter (\<lambda>x. x \<noteq> []) (split_on (CHR '','') m) =
      filter (\<lambda>x. x \<noteq> [] \<and> x \<noteq> NO_BACKSLASH) (split_on (CHR '','') mode)"
proof (intro exI conjI)
  let ?m = "join '','' (kept_modes mode)"
  show "session_setup opts mode =
      [(''SELECT @@SESSION.sql_mode'', []), (''SET SESSION sql_mode = %s'', [?m])]"
    using assms by (simp add: session_setup_def)
  have split: "split_on (CHR '','') ?m = (if kept_modes mode = [] then [[]] else kept_modes mode)"
  proof (cases "kept_modes mode = []")
    case False
    have "CHR '','' \<notin> set x" if "x \<in> set (kept_modes mode)" for x
      using that split_on_pieces by (auto simp: kept_modes_def)
    with split_on_join [OF False this] False show ?thesis by simp
  qed simp
  then show "NO_BACKSLASH \<notin> set (split_on (CHR '','') ?m)"
    by (auto simp: kept_modes_def NO_BACKSLASH_def)
  have "filter (\<lambda>x. x \<noteq> []) (kept_modes mode) = kept_modes mode"
    unfolding kept_modes_def by (intro filter_True) auto
  with split have "filter (\<lambda>x. x \<noteq> []) (split_on (CHR '','') ?m) = kept_modes mode"
    by (cases "kept_modes mode = []") simp_all
  then show "filter (\<lambda>x. x \<noteq> []) (split_on (CHR '','') ?m) =
      filter (\<lambda>x. x \<noteq> [] \<and> x \<noteq> NO_BACKSLASH) (split_on (CHR '','') mode)"
    by (simp add: kept_modes_def)
qed

theorem session_keeps_escapes_witness:
  "\<exists>m. session_setup one_mysql_options ''ANSI,NO_BACKSLASH_ESCAPES'' =
      [(''SELECT @@SESSION.sql_mode'', []), (''SET SESSION sql_mode = %s'', [m])] \<and>
    NO_BACKSLASH \<notin> set (split_on (CHR '','') m) \<and>
    filter (\<lambda>x. x \<noteq> []) (split_on (CHR '','') m) =
      filter (\<lambda>x. x \<noteq> [] \<and> x \<noteq> NO_BACKSLASH) (split_on (CHR '','') ''ANSI,NO_BACKSLASH_ESCAPES'')"
proof (rule session_keeps_escapes)
  show "eo_keep_backslash one_mysql_options" by code_simp
qed

end
