(* ===== verification/Extras.thy ===== *)
theory Extras
  imports Config
begin

text \<open>
  \<open>db/extras.py\<close>, \<open>db/mysql.py\<close> and \<open>db/sqlserver.py\<close>: listing databases and stored
  procedures and reading one procedure, per engine.  A connection is a parameter: what
  \<open>execute\<close> answers to a statement text and its named parameters.
\<close>

section \<open>Data\<close>

record procedure_summary =
  ps_schema :: "string option"
  ps_name :: string

record procedure_definition =
  pd_schema :: "string option"
  pd_name :: string
  pd_definition :: "string option"
  pd_available :: bool

text \<open>
  A row of a text query: the columns by name, a null as \<open>None\<close>.  \<open>str\<close> of a null is the text
  \<open>None\<close>.
\<close>

type_synonym text_row = "(string \<times> string option) list"

type_synonym text_query = "string \<Rightarrow> (string \<times> string) list \<Rightarrow> text_row list result"

definition no_such_column :: exn where
  "no_such_column = OtherError \<lparr>ex_class = ''AttributeError'', ex_args = [], ex_text = ''''\<rparr>"

definition row_value :: "text_row \<Rightarrow> string \<Rightarrow> string option result" where
  "row_value row name = (case map_of row name of None \<Rightarrow> Inl no_such_column | Some v \<Rightarrow> Inr v)"

definition row_str :: "text_row \<Rightarrow> string \<Rightarrow> string result" where
  "row_str row name = rbind (row_value row name) (\<lambda>v. Inr (case v of None \<Rightarrow> ''None'' | Some s \<Rightarrow> s))"

text \<open>The operations of \<open>DatabaseExtras\<close>.\<close>

record database_extras =
  dx_list_databases :: "text_query \<Rightarrow> string list result"
  dx_list_procedures :: "text_query \<Rightarrow> string \<Rightarrow> procedure_summary list result"
  dx_get_procedure :: "text_query \<Rightarrow> string \<Rightarrow> string option \<Rightarrow> string \<Rightarrow> procedure_definition option result"

text \<open>The model of a row's definition column, as both engines build it.\<close>

definition definition_of :: "string option \<Rightarrow> string \<Rightarrow> string option \<Rightarrow> procedure_definition" where
  "definition_of schema name d =
     \<lparr>pd_schema = schema, pd_name = name, pd_definition = d, pd_available = (d \<noteq> None)\<rparr>"

section \<open>MySQL and MariaDB\<close>

definition SYSTEM_DATABASES :: "string list" where
  "SYSTEM_DATABASES = [''information_schema'', ''mysql'', ''performance_schema'', ''sys'']"

definition MYSQL_DATABASES_SQL :: string where
  "MYSQL_DATABASES_SQL = ''SELECT SCHEMA_NAME AS name FROM information_schema.SCHEMATA '' @
     ''WHERE SCHEMA_NAME NOT IN (:s0, :s1, :s2, :s3) ORDER BY SCHEMA_NAME''"

definition mysql_list_databases :: "text_query \<Rightarrow> string list result" where
  "mysql_list_databases execute =
     rbind (execute MYSQL_DATABASES_SQL
       (map (\<lambda>i. (''s'' @ str_nat i, SYSTEM_DATABASES ! i)) [0..<length SYSTEM_DATABASES])) (\<lambda>rows.
     rmap (\<lambda>row. row_str row ''name'') rows)"

definition MYSQL_PROCEDURES_SQL :: string where
  "MYSQL_PROCEDURES_SQL = ''SELECT ROUTINE_NAME AS procedure_name FROM information_schema.ROUTINES '' @
     ''WHERE ROUTINE_SCHEMA = :database AND ROUTINE_TYPE = '' @ py_repr ''PROCEDURE'' @ '' ORDER BY ROUTINE_NAME''"

definition mysql_list_procedures :: "text_query \<Rightarrow> string \<Rightarrow> procedure_summary list result" where
  "mysql_list_procedures execute database =
     rbind (execute MYSQL_PROCEDURES_SQL [(''database'', database)]) (\<lambda>rows.
     rmap (\<lambda>row. rbind (row_str row ''procedure_name'') (\<lambda>n. Inr \<lparr>ps_schema = None, ps_name = n\<rparr>)) rows)"

definition MYSQL_PROCEDURE_SQL :: string where
  "MYSQL_PROCEDURE_SQL = ''SELECT ROUTINE_NAME AS procedure_name, ROUTINE_DEFINITION AS definition '' @
     ''FROM information_schema.ROUTINES '' @
     ''WHERE ROUTINE_SCHEMA = :database AND ROUTINE_NAME = :name '' @
     ''AND ROUTINE_TYPE = '' @ py_repr ''PROCEDURE''"

definition mysql_get_procedure :: "text_query \<Rightarrow> string \<Rightarrow> string option \<Rightarrow> string
    \<Rightarrow> procedure_definition option result" where
  "mysql_get_procedure execute database schema name =
     (if schema \<noteq> None then Inr None
      else rbind (execute MYSQL_PROCEDURE_SQL [(''database'', database), (''name'', name)]) (\<lambda>rows.
        case rows of
          [] \<Rightarrow> Inr None
        | row # _ \<Rightarrow>
            rbind (row_value row ''definition'') (\<lambda>d.
            rbind (row_str row ''procedure_name'') (\<lambda>n.
            Inr (Some (definition_of None n d))))))"

definition mysql_extras :: database_extras where
  "mysql_extras = \<lparr>dx_list_databases = mysql_list_databases, dx_list_procedures = mysql_list_procedures,
     dx_get_procedure = mysql_get_procedure\<rparr>"

section \<open>SQL Server\<close>

definition MSSQL_DATABASES_SQL :: string where
  "MSSQL_DATABASES_SQL = ''SELECT name FROM sys.databases '' @
     ''WHERE state = 0 AND HAS_DBACCESS(name) = 1 ORDER BY name''"

definition mssql_list_databases :: "text_query \<Rightarrow> string list result" where
  "mssql_list_databases execute =
     rbind (execute MSSQL_DATABASES_SQL []) (rmap (\<lambda>row. row_str row ''name''))"

definition MSSQL_PROCEDURES_SQL :: string where
  "MSSQL_PROCEDURES_SQL = ''SELECT s.name AS schema_name, p.name AS procedure_name '' @
     ''FROM sys.procedures AS p '' @
     ''JOIN sys.schemas AS s ON s.schema_id = p.schema_id '' @
     ''WHERE p.is_ms_shipped = 0 '' @
     ''ORDER BY s.name, p.name''"

definition mssql_list_procedures :: "text_query \<Rightarrow> string \<Rightarrow> procedure_summary list result" where
  "mssql_list_procedures execute database =
     rbind (execute MSSQL_PROCEDURES_SQL []) (rmap (\<lambda>row.
       rbind (row_str row ''schema_name'') (\<lambda>s.
       rbind (row_str row ''procedure_name'') (\<lambda>n. Inr \<lparr>ps_schema = Some s, ps_name = n\<rparr>))))"

definition MSSQL_PROCEDURE_SQL :: string where
  "MSSQL_PROCEDURE_SQL = ''SELECT s.name AS schema_name, p.name AS procedure_name, '' @
     ''OBJECT_DEFINITION(p.object_id) AS definition '' @
     ''FROM sys.procedures AS p '' @
     ''JOIN sys.schemas AS s ON s.schema_id = p.schema_id '' @
     ''WHERE s.name = :schema AND p.name = :name AND p.is_ms_shipped = 0''"

definition mssql_get_procedure :: "text_query \<Rightarrow> string \<Rightarrow> string option \<Rightarrow> string
    \<Rightarrow> procedure_definition option result" where
  "mssql_get_procedure execute database schema name = (case schema of
       None \<Rightarrow> Inr None
     | Some s \<Rightarrow>
         rbind (execute MSSQL_PROCEDURE_SQL [(''schema'', s), (''name'', name)]) (\<lambda>rows.
         case rows of
           [] \<Rightarrow> Inr None
         | row # _ \<Rightarrow>
             rbind (row_value row ''definition'') (\<lambda>d.
             rbind (row_str row ''schema_name'') (\<lambda>sn.
             rbind (row_str row ''procedure_name'') (\<lambda>n.
             Inr (Some (definition_of (Some sn) n d)))))))"

definition mssql_extras :: database_extras where
  "mssql_extras = \<lparr>dx_list_databases = mssql_list_databases, dx_list_procedures = mssql_list_procedures,
     dx_get_procedure = mssql_get_procedure\<rparr>"

text \<open>\<open>extras_for\<close>; the configuration admits no other engine.\<close>

primrec extras_for :: "engine \<Rightarrow> database_extras" where
  "extras_for SQLSERVER_ENGINE = mssql_extras"
| "extras_for MYSQL_ENGINE = mysql_extras"
| "extras_for MARIADB_ENGINE = mysql_extras"

section \<open>The contract of \<open>DatabaseExtras\<close>\<close>

text \<open>
  The statement texts are fixed (\<open>statements\<close>); names of the caller are parameters.  The listed
  procedures have the schema level of the engine (\<open>level\<close>), and reading a procedure without
  that level finds nothing without a query.  A definition is available exactly when there is one.
\<close>

definition only_statements :: "string set \<Rightarrow> text_query \<Rightarrow> text_query" where
  "only_statements S ex sql ps = (if sql \<in> S then ex sql ps else Inl no_such_column)"

locale extras_contract =
  fixes extras :: database_extras and statements :: "string set" and level :: "string option \<Rightarrow> bool"
  assumes databases_fixed: "(\<And>sql ps. sql \<in> statements \<Longrightarrow> ex sql ps = ex' sql ps) \<Longrightarrow>
      dx_list_databases extras ex = dx_list_databases extras ex'"
    and procedures_fixed: "(\<And>sql ps. sql \<in> statements \<Longrightarrow> ex sql ps = ex' sql ps) \<Longrightarrow>
      dx_list_procedures extras ex d = dx_list_procedures extras ex' d"
    and procedure_fixed: "(\<And>sql ps. sql \<in> statements \<Longrightarrow> ex sql ps = ex' sql ps) \<Longrightarrow>
      dx_get_procedure extras ex d s n = dx_get_procedure extras ex' d s n"
    and listed_level: "dx_list_procedures extras ex d = Inr ps \<Longrightarrow> p \<in> set ps \<Longrightarrow> level (ps_schema p)"
    and wrong_level: "\<not> level s \<Longrightarrow> dx_get_procedure extras ex d s n = Inr None"
    and got_level: "dx_get_procedure extras ex d s n = Inr (Some q) \<Longrightarrow> level (pd_schema q)"
    and available: "dx_get_procedure extras ex d s n = Inr (Some q) \<Longrightarrow> pd_available q = (pd_definition q \<noteq> None)"
begin

lemma no_injection:
  "dx_list_databases extras (only_statements statements ex) = dx_list_databases extras ex"
  "dx_list_procedures extras (only_statements statements ex) d = dx_list_procedures extras ex d"
  "dx_get_procedure extras (only_statements statements ex) d s n = dx_get_procedure extras ex d s n"
  by (intro databases_fixed procedures_fixed procedure_fixed; simp add: only_statements_def)+

end

lemma row_str_cases: "row_str row n = Inr s \<longleftrightarrow> (\<exists>v. row_value row n = Inr v \<and> s = (case v of None \<Rightarrow> ''None'' | Some t \<Rightarrow> t))"
  by (auto simp: row_str_def result_simps)

lemma first_row_Some:
  "(case rows of [] \<Rightarrow> Inr None | row # rest \<Rightarrow> f row) = Inr (Some q) \<longleftrightarrow>
     (\<exists>row rest. rows = row # rest \<and> f row = Inr (Some q))"
  by (cases rows) simp_all

definition mysql_statements :: "string set" where
  "mysql_statements = {MYSQL_DATABASES_SQL, MYSQL_PROCEDURES_SQL, MYSQL_PROCEDURE_SQL}"

definition mssql_statements :: "string set" where
  "mssql_statements = {MSSQL_DATABASES_SQL, MSSQL_PROCEDURES_SQL, MSSQL_PROCEDURE_SQL}"

interpretation mysql: extras_contract mysql_extras mysql_statements "\<lambda>s. s = None"
proof unfold_locales
  fix ex ex' :: text_query and d s n
  assume eq: "\<And>sql ps. sql \<in> mysql_statements \<Longrightarrow> ex sql ps = ex' sql ps"
  show "dx_list_databases mysql_extras ex = dx_list_databases mysql_extras ex'"
    "dx_list_procedures mysql_extras ex d = dx_list_procedures mysql_extras ex' d"
    "dx_get_procedure mysql_extras ex d s n = dx_get_procedure mysql_extras ex' d s n"
    by (simp_all add: mysql_extras_def mysql_list_databases_def mysql_list_procedures_def
        mysql_get_procedure_def eq mysql_statements_def)
qed (auto simp: mysql_extras_def mysql_list_procedures_def mysql_get_procedure_def definition_of_def
    result_simps first_row_Some split: if_splits dest!: rmap_Inr_set)

interpretation mssql: extras_contract mssql_extras mssql_statements "\<lambda>s. s \<noteq> None"
proof unfold_locales
  fix ex ex' :: text_query and d s n
  assume eq: "\<And>sql ps. sql \<in> mssql_statements \<Longrightarrow> ex sql ps = ex' sql ps"
  show "dx_list_databases mssql_extras ex = dx_list_databases mssql_extras ex'"
    "dx_list_procedures mssql_extras ex d = dx_list_procedures mssql_extras ex' d"
    "dx_get_procedure mssql_extras ex d s n = dx_get_procedure mssql_extras ex' d s n"
    by (simp_all add: mssql_extras_def mssql_list_databases_def mssql_list_procedures_def
        mssql_get_procedure_def eq mssql_statements_def split: option.split)
qed (auto simp: mssql_extras_def mssql_list_procedures_def mssql_get_procedure_def definition_of_def
    result_simps first_row_Some split: option.splits dest!: rmap_Inr_set)

section \<open>Properties\<close>

primrec statements_of :: "engine \<Rightarrow> string set" where
  "statements_of SQLSERVER_ENGINE = mssql_statements"
| "statements_of MYSQL_ENGINE = mysql_statements"
| "statements_of MARIADB_ENGINE = mysql_statements"

text \<open>
  No caller text enters a metadata statement: on a connection that answers the engine's
  three fixed statement texts only, every operation gives what it gives on the full connection,
  whatever database, schema or procedure name it is asked for.
\<close>

theorem metadata_statements_are_fixed:
  "finite (statements_of e) \<and>
   dx_list_databases (extras_for e) (only_statements (statements_of e) ex) = dx_list_databases (extras_for e) ex \<and>
   dx_list_procedures (extras_for e) (only_statements (statements_of e) ex) d = dx_list_procedures (extras_for e) ex d \<and>
   dx_get_procedure (extras_for e) (only_statements (statements_of e) ex) d s n = dx_get_procedure (extras_for e) ex d s n"
  using mysql.no_injection mssql.no_injection
  by (cases e) (simp_all add: mysql_statements_def mssql_statements_def)

text \<open>
  Procedures keep the schema level of their engine: those SQL Server lists have a schema
  and those MySQL and MariaDB list have none, a procedure that is read has it too, its definition is
  available exactly when there is one, and asking with the other level finds nothing.
\<close>

theorem procedures_keep_schema_level:
  assumes "dx_list_procedures (extras_for e) ex d = Inr ps"
    and "dx_get_procedure (extras_for e) ex d s n = Inr (Some p)"
  shows "list_all (\<lambda>x. (ps_schema x \<noteq> None) = (e = SQLSERVER_ENGINE)) ps \<and>
    (s \<noteq> None) = (e = SQLSERVER_ENGINE) \<and> (pd_schema p \<noteq> None) = (e = SQLSERVER_ENGINE) \<and>
    pd_available p = (pd_definition p \<noteq> None)"
proof (cases "e = SQLSERVER_ENGINE")
  case True
  note a = assms [unfolded True extras_for.simps]
  have "s \<noteq> None" using mssql.wrong_level [of s ex d n] a(2) by (cases s) auto
  with True mssql.listed_level [OF a(1)] mssql.got_level [OF a(2)] mssql.available [OF a(2)]
  show ?thesis by (simp add: list_all_iff)
next
  case False
  then have e: "extras_for e = mysql_extras" by (cases e) simp_all
  note a = assms [unfolded e]
  have "s = None" using mysql.wrong_level [of s ex d n] a(2) by (cases s) auto
  with False mysql.listed_level [OF a(1)] mysql.got_level [OF a(2)] mysql.available [OF a(2)]
  show ?thesis by (simp add: list_all_iff)
qed

definition one_procedure :: text_query where
  "one_procedure sql ps = Inr [[(''schema_name'', Some ''dbo''), (''procedure_name'', Some ''p''), (''definition'', None)]]"

theorem procedures_keep_schema_level_witness:
  "list_all (\<lambda>x. (ps_schema x \<noteq> None) = (SQLSERVER_ENGINE = SQLSERVER_ENGINE)) [\<lparr>ps_schema = Some ''dbo'', ps_name = ''p''\<rparr>] \<and>
   (Some ''dbo'' \<noteq> None) = (SQLSERVER_ENGINE = SQLSERVER_ENGINE) \<and>
   (pd_schema (definition_of (Some ''dbo'') ''p'' None) \<noteq> None) = (SQLSERVER_ENGINE = SQLSERVER_ENGINE) \<and>
   pd_available (definition_of (Some ''dbo'') ''p'' None) = (pd_definition (definition_of (Some ''dbo'') ''p'' None) \<noteq> None)"
proof (rule procedures_keep_schema_level)
  show "dx_list_procedures (extras_for SQLSERVER_ENGINE) one_procedure ''d'' = Inr [\<lparr>ps_schema = Some ''dbo'', ps_name = ''p''\<rparr>]"
    by code_simp
  show "dx_get_procedure (extras_for SQLSERVER_ENGINE) one_procedure ''d'' (Some ''dbo'') ''p'' =
      Inr (Some (definition_of (Some ''dbo'') ''p'' None))" by code_simp
qed

end
