(* ===== verification/Driver_Errors.thy ===== *)
theory Driver_Errors
  imports Numerals
begin

text \<open>
  The classification of driver errors of \<open>service.py\<close>: which domain error a SQLAlchemy
  exception becomes.  The fresh correlation id (\<open>uuid4().hex\<close>) is an argument.
\<close>

section \<open>Domain errors of the database\<close>

definition timeout_error :: "string \<Rightarrow> domain_error" where
  "timeout_error ref = \<lparr>de_code = TIMEOUT, de_public_message = ''The database operation timed out.'',
     de_hint = None, de_retryable = True, de_correlation_id = Some ref\<rparr>"

definition connection_error :: "string \<Rightarrow> domain_error" where
  "connection_error ref = \<lparr>de_code = CONNECTION_FAILED,
     de_public_message = ''Could not connect to the configured database server.'',
     de_hint = None, de_retryable = True, de_correlation_id = Some ref\<rparr>"

definition denied_error :: domain_error where
  "denied_error = make_error ACCESS_DENIED ''The database denied this operation.'' None"

section \<open>The codes in a driver exception\<close>

definition TIMEOUT_SQLSTATES :: "string list" where
  "TIMEOUT_SQLSTATES = [''HYT00'', ''HYT01'']"

definition CONNECTION_SQLSTATES :: "string list" where
  "CONNECTION_SQLSTATES = [''08001'', ''08004'']"

definition ACCESS_DENIED_SQLSTATES :: "string list" where
  "ACCESS_DENIED_SQLSTATES = [''28000'']"

definition TIMEOUT_NATIVE_CODES :: "int list" where
  "TIMEOUT_NATIVE_CODES = [-2]"

definition CONNECTION_NATIVE_CODES :: "int list" where
  "CONNECTION_NATIVE_CODES = [1049, 2003, 4060]"

definition ACCESS_DENIED_NATIVE_CODES :: "int list" where
  "ACCESS_DENIED_NATIVE_CODES = [229, 1044, 1045, 18456]"

definition ascii_alnum :: "char \<Rightarrow> bool" where
  "ascii_alnum c \<longleftrightarrow> is_ascii_digit c \<or> 65 \<le> (of_char c :: nat) \<and> (of_char c :: nat) \<le> 90 \<or>
     97 \<le> (of_char c :: nat) \<and> (of_char c :: nat) \<le> 122"

text \<open>\<open>re.fullmatch(r"[A-Za-z0-9]{5}", value)\<close>.\<close>

definition is_sqlstate :: "string \<Rightarrow> bool" where
  "is_sqlstate s \<longleftrightarrow> length s = 5 \<and> list_all ascii_alnum s"

text \<open>
  A match of \<open>\((-?\d+)\)\<close> at the start of a text: its group, the text of a number.
\<close>

definition match_code :: "string \<Rightarrow> string option" where
  "match_code s =
     (let sign = (if prefix ''(-'' s then ''-'' else []); r = drop (Suc (length sign)) s;
          ds = takeWhile is_ascii_digit r in
      if prefix ''('' s \<and> ds \<noteq> [] \<and> prefix '')'' (dropWhile is_ascii_digit r) then Some (sign @ ds) else None)"

text \<open>\<open>re.findall\<close>: the groups of the matches, each search after the match before.\<close>

function code_texts :: "string \<Rightarrow> string list" where
  "code_texts [] = []"
| "code_texts (c # s) = (case match_code (c # s) of
       None \<Rightarrow> code_texts s
     | Some t \<Rightarrow> t # code_texts (drop (Suc (length t)) s))"
  by pat_completeness auto
termination
  by (relation "measure length") auto

text \<open>\<open>int(code)\<close> of every match, which may raise.\<close>

definition native_codes_in :: "string \<Rightarrow> int list result" where
  "native_codes_in s = rmap parse_signed (code_texts s)"

fun arg_codes :: "exc_arg \<Rightarrow> (string list \<times> int list) result" where
  "arg_codes (ArgStr s) = rbind (native_codes_in s) (\<lambda>natives.
     Inr ((if is_sqlstate s then [map upper_char s] else []), natives))"
| "arg_codes (ArgInt i) = Inr ([], [i])"
| "arg_codes (ArgBool b) = Inr ([], [])"
| "arg_codes (ArgOther t) = Inr ([], [])"

definition driver_codes :: "exc_info \<Rightarrow> (string set \<times> int set) result" where
  "driver_codes x = rbind (rmap arg_codes (ex_args x)) (\<lambda>codes.
     Inr (set (concat (map fst codes)), set (concat (map snd codes))))"

section \<open>Classification\<close>

definition mentions :: "string \<Rightarrow> string list \<Rightarrow> bool" where
  "mentions message words \<longleftrightarrow> list_ex (\<lambda>w. is_substr w message) words"

definition has_code :: "string set \<times> int set \<Rightarrow> string list \<Rightarrow> int list \<Rightarrow> bool" where
  "has_code codes states natives \<longleftrightarrow> list_ex (\<lambda>s. s \<in> fst codes) states \<or> list_ex (\<lambda>n. n \<in> snd codes) natives"

text \<open>
  \<open>_classify_dbapi_error\<close> of a \<open>DBAPIError\<close> whose \<open>orig\<close> is \<open>x\<close>; \<open>operational\<close> says that
  it is an \<open>OperationalError\<close>.
\<close>

definition classify_dbapi_error :: "bool \<Rightarrow> exc_info \<Rightarrow> string \<Rightarrow> domain_error option result" where
  "classify_dbapi_error operational x ref =
     rbind (driver_codes x) (\<lambda>codes. let message = casefold (ex_text x) in Inr
     (if has_code codes TIMEOUT_SQLSTATES TIMEOUT_NATIVE_CODES then Some (timeout_error ref)
      else if has_code codes CONNECTION_SQLSTATES CONNECTION_NATIVE_CODES then Some (connection_error ref)
      else if has_code codes ACCESS_DENIED_SQLSTATES ACCESS_DENIED_NATIVE_CODES then Some denied_error
      else if mentions message [''timeout'', ''timed out'', ''hyt00'', ''hyt01''] then Some (timeout_error ref)
      else if mentions message [''permission denied'', ''permission was denied'', ''access denied'',
          ''not authorized''] then Some denied_error
      else if mentions message [''cannot open database'', ''(4060)'', ''08001'', ''08004''] \<or> operational
        then Some (connection_error ref)
      else None))"

text \<open>
  The public texts of the errors made here are fixed: nothing of the exception reaches them.
\<close>

definition fixed_errors :: "string \<Rightarrow> domain_error set" where
  "fixed_errors ref = {timeout_error ref, connection_error ref, denied_error, unexpected_error ref}"

lemma classify_fixed: "classify_dbapi_error op x ref = Inr (Some e) \<Longrightarrow> e \<in> fixed_errors ref"
  by (auto simp: classify_dbapi_error_def result_simps Let_def fixed_errors_def split: if_splits)

text \<open>A retryable error is a timeout or a failed connection, and carries an id.\<close>

lemma fixed_errors_retryable:
  "e \<in> fixed_errors ref \<Longrightarrow> de_retryable e = (de_code e \<in> {TIMEOUT, CONNECTION_FAILED})"
  "e \<in> fixed_errors ref \<Longrightarrow> de_correlation_id e \<in> {None, Some ref}"
  by (auto simp: fixed_errors_def timeout_error_def connection_error_def denied_error_def
      unexpected_error_def make_error_def)

section \<open>When the classification raises\<close>

text \<open>A text with a number of more than 4300 digits in parentheses.\<close>

definition bracketed :: "string \<Rightarrow> string \<Rightarrow> bool" where
  "bracketed t s \<longleftrightarrow> (\<exists>pre post. s = pre @ ''('' @ t @ '')'' @ post)"

definition overlong_text :: "string \<Rightarrow> bool" where
  "overlong_text s \<longleftrightarrow> (\<exists>ds. list_all is_ascii_digit ds \<and> length ds > INT_MAX_STR_DIGITS \<and>
     (bracketed ds s \<or> bracketed (''-'' @ ds) s))"

lemma bracketed_Cons: "bracketed t s \<Longrightarrow> bracketed t (c # s)"
  unfolding bracketed_def by (metis append_Cons)

lemma bracketed_drop: "bracketed t (drop n s) \<Longrightarrow> bracketed t s"
  unfolding bracketed_def by (metis append.assoc append_take_drop_id)

text \<open>The texts of the numbers \<open>\d+\<close> with an optional minus sign.\<close>

definition number_text :: "string \<Rightarrow> bool" where
  "number_text t \<longleftrightarrow> (\<exists>ds. ds \<noteq> [] \<and> list_all is_ascii_digit ds \<and> (t = ds \<or> t = ''-'' @ ds))"

lemma takeWhile_digits: "list_all is_ascii_digit (takeWhile is_ascii_digit s)"
  by (auto simp: list_all_iff dest: set_takeWhileD)

lemma match_code_text:
  assumes "match_code s = Some t"
  shows "number_text t" and "bracketed t s"
proof -
  define sign where "sign = (if prefix ''(-'' s then ''-'' else [])"
  define r where "r = drop (Suc (length sign)) s"
  define ds where "ds = takeWhile is_ascii_digit r"
  have m: "prefix ''('' s" "ds \<noteq> []" "prefix '')'' (dropWhile is_ascii_digit r)" "t = sign @ ds"
    using assms unfolding match_code_def Let_def sign_def [symmetric] r_def [symmetric] ds_def [symmetric]
    by (auto split: if_splits)
  from takeWhile_digits [of r] m(2,4) show "number_text t"
    unfolding number_text_def ds_def [symmetric] by (auto simp: sign_def)
  obtain post where post: "dropWhile is_ascii_digit r = '')'' @ post" using m(3) by (auto simp: prefix_def)
  have "s = ''('' @ sign @ r"
  proof (cases "prefix ''(-'' s")
    case True
    then show ?thesis by (auto simp: sign_def r_def prefix_def)
  next
    case False
    with m(1) show ?thesis by (auto simp: sign_def r_def prefix_def)
  qed
  moreover have "r = ds @ '')'' @ post" using post by (metis ds_def takeWhile_dropWhile_id)
  ultimately have "s = [] @ ''('' @ t @ '')'' @ post" using m(4) by simp
  then show "bracketed t s" unfolding bracketed_def by blast
qed

lemma code_texts_in: "t \<in> set (code_texts s) \<Longrightarrow> number_text t \<and> bracketed t s"
proof (induction s rule: code_texts.induct)
  case (2 c s)
  show ?case
  proof (cases "match_code (c # s)")
    case None
    with 2 show ?thesis by (auto intro: bracketed_Cons)
  next
    case (Some u)
    with 2 match_code_text [OF Some] show ?thesis by (auto intro: bracketed_Cons bracketed_drop)
  qed
qed simp

lemma native_codes_in_Inl:
  assumes "native_codes_in s = Inl e"
  shows "e = digits_error \<and> overlong_text s"
proof -
  from assms obtain t where t: "t \<in> set (code_texts s)" "parse_signed t = Inl e"
    by (auto simp: native_codes_in_def dest: rmap_InlD)
  from code_texts_in [OF t(1)] have brack: "bracketed t s" and "number_text t" by simp_all
  then obtain ds where ds: "ds \<noteq> []" "list_all is_ascii_digit ds" and tds: "t = ds \<or> t = ''-'' @ ds"
    by (auto simp: number_text_def)
  have "\<not> prefix ''-'' ds" using ds by (cases ds) (auto simp: is_ascii_digit_def)
  with tds t(2) have "parse_digits ds = Inl e" by (auto simp: parse_signed_def result_simps)
  from parse_digits_Inl [OF ds(2,1) this] brack tds ds(2) show ?thesis
    unfolding overlong_text_def by blast
qed

lemma arg_codes_Inl: "arg_codes v = Inl e \<Longrightarrow> e = digits_error \<and> (\<exists>s. v = ArgStr s \<and> overlong_text s)"
  by (cases v) (auto simp: result_simps dest: native_codes_in_Inl)

lemma driver_codes_Inl:
  "driver_codes x = Inl e \<Longrightarrow> e = digits_error \<and> (\<exists>s. ArgStr s \<in> set (ex_args x) \<and> overlong_text s)"
  by (auto simp: driver_codes_def result_simps dest!: rmap_InlD dest: arg_codes_Inl)

lemma classify_Inl:
  assumes "classify_dbapi_error op x ref = Inl e"
  shows "e = digits_error \<and> (\<exists>s. ArgStr s \<in> set (ex_args x) \<and> overlong_text s)"
proof (cases "driver_codes x")
  case (Inl e')
  with assms driver_codes_Inl [OF Inl] show ?thesis by (simp add: classify_dbapi_error_def)
next
  case (Inr codes)
  with assms show ?thesis by (simp add: classify_dbapi_error_def Let_def)
qed

text \<open>An error code decides before the text of the message does.\<close>

lemma classify_code_first:
  assumes "ArgInt n \<in> set (ex_args x)" and "driver_codes x = Inr codes"
  shows "n \<in> set TIMEOUT_NATIVE_CODES \<Longrightarrow> classify_dbapi_error op x ref = Inr (Some (timeout_error ref))"
    and "n \<in> set CONNECTION_NATIVE_CODES \<Longrightarrow> \<not> has_code codes TIMEOUT_SQLSTATES TIMEOUT_NATIVE_CODES \<Longrightarrow>
      classify_dbapi_error op x ref = Inr (Some (connection_error ref))"
proof -
  obtain cs where cs: "list_all2 (\<lambda>v c. arg_codes v = Inr c) (ex_args x) cs"
    and codes: "codes = (set (concat (map fst cs)), set (concat (map snd cs)))"
    using assms(2) by (auto simp: driver_codes_def result_simps rmap_eq_Inr_iff)
  obtain i where i: "i < length (ex_args x)" "ex_args x ! i = ArgInt n" using assms(1) by (auto simp: in_set_conv_nth)
  have "arg_codes (ex_args x ! i) = Inr (cs ! i)" using list_all2_nthD [OF cs i(1)] .
  with i have "([], [n]) \<in> set cs" using list_all2_lengthD [OF cs] nth_mem [of i cs] by simp
  then have "n \<in> snd codes" by (force simp: codes)
  then have has: "n \<in> set natives \<Longrightarrow> has_code codes states natives" for states natives
    by (auto simp: has_code_def list_ex_iff)
  show "n \<in> set TIMEOUT_NATIVE_CODES \<Longrightarrow> classify_dbapi_error op x ref = Inr (Some (timeout_error ref))"
    by (simp add: classify_dbapi_error_def Let_def has assms(2))
  show "n \<in> set CONNECTION_NATIVE_CODES \<Longrightarrow> \<not> has_code codes TIMEOUT_SQLSTATES TIMEOUT_NATIVE_CODES \<Longrightarrow>
      classify_dbapi_error op x ref = Inr (Some (connection_error ref))"
    by (simp add: classify_dbapi_error_def Let_def has assms(2))
qed

end
