(* ===== verification/Config_Load.thy ===== *)
theory Config_Load
  imports Tokens Numerals
begin

text \<open>
  The loading half of \<open>config.py\<close>: \<open>${NAME}\<close> placeholders in connection URLs, the PII keys
  from the environment, the resolution of shared rule sets and \<open>load_config\<close> with its error
  handling.  Reading and parsing the YAML file, and pydantic's conversion of a mapping into a
  model, are parameters.  YAML values are trees: a value that an anchor shares between two places
  is a copy at each.
\<close>

section \<open>URL quoting\<close>

definition always_safe :: "char \<Rightarrow> bool" where
  "always_safe c \<longleftrightarrow> is_alnum c \<or> c \<in> set ''_.-~''"

definition upper_hex :: "nat \<Rightarrow> char" where
  "upper_hex d = (if d < 10 then digit_char d else char_of (55 + d))"

definition quote_byte :: "char \<Rightarrow> string" where
  "quote_byte c = (if always_safe c then [c]
     else [CHR ''%'', upper_hex (of_char c div 16), upper_hex (of_char c mod 16)])"

text \<open>\<open>urllib.parse.quote(s, safe="")\<close>.\<close>

definition url_quote :: "string \<Rightarrow> string" where
  "url_quote s = concat (map quote_byte (utf8_encode s))"

text \<open>The characters a quoted text is made of.\<close>

definition url_inert :: "char \<Rightarrow> bool" where
  "url_inert c \<longleftrightarrow> always_safe c \<or> c = CHR ''%''"

lemma upper_hex_safe: "d < 16 \<Longrightarrow> always_safe (upper_hex d)"
proof -
  assume d: "d < 16"
  have "d = 0 \<or> d = 1 \<or> d = 2 \<or> d = 3 \<or> d = 4 \<or> d = 5 \<or> d = 6 \<or> d = 7 \<or> d = 8 \<or> d = 9 \<or>
      d = 10 \<or> d = 11 \<or> d = 12 \<or> d = 13 \<or> d = 14 \<or> d = 15" using d by presburger
  then show ?thesis
    by (elim disjE) (simp_all add: upper_hex_def digit_char_def always_safe_def is_alnum_def is_ascii_digit_def)
qed

lemma quote_byte_inert: "list_all url_inert (quote_byte c)"
proof -
  have "(of_char c :: nat) < 256" by (metis nat_of_char_less_256)
  then have "(of_char c :: nat) div 16 < 16" by simp
  then show ?thesis
    by (simp add: quote_byte_def url_inert_def upper_hex_safe)
qed

lemma url_quote_inert: "list_all url_inert (url_quote s)"
proof -
  have "list_all url_inert (concat (map quote_byte bs))" for bs
    by (induction bs) (simp_all add: quote_byte_inert)
  then show ?thesis by (simp add: url_quote_def)
qed

section \<open>Placeholders\<close>

type_synonym environment = "(string \<times> string) list"

definition env_start :: "char \<Rightarrow> bool" where
  "env_start c \<longleftrightarrow> 65 \<le> ord c \<and> ord c \<le> 90 \<or> c = CHR ''_''"

definition env_char :: "char \<Rightarrow> bool" where
  "env_char c \<longleftrightarrow> env_start c \<or> is_ascii_digit c"

text \<open>A match of \<open>_ENV_PATTERN\<close> at the start of a text: the name and the text after it.\<close>

definition match_env :: "string \<Rightarrow> (string \<times> string) option" where
  "match_env s =
     (let r = drop 2 s; name = takeWhile env_char r; rest = dropWhile env_char r in
      if prefix ''${'' s \<and> name \<noteq> [] \<and> env_start (hd name) \<and> rest \<noteq> [] \<and> hd rest = CHR ''}''
      then Some (name, tl rest) else None)"

lemma match_env_shorter:
  assumes "match_env s = Some (n, r)"
  shows "length r < length s"
proof -
  let ?r = "dropWhile env_char (drop 2 s)"
  from assms have "?r \<noteq> []" "r = tl ?r" by (auto simp: match_env_def Let_def split: if_splits)
  then have "length r < length ?r" by (simp add: length_tl)
  also have "\<dots> \<le> length (drop 2 s)" by (rule length_dropWhile_le)
  also have "\<dots> \<le> length s" by simp
  finally show ?thesis .
qed

definition missing_env :: "string \<Rightarrow> exn" where
  "missing_env name = ValueError (''missing environment variable '' @ name)"

text \<open>\<open>_ENV_PATTERN.sub(replace, template)\<close>.\<close>

function expand_env :: "environment \<Rightarrow> string \<Rightarrow> string result" where
  "expand_env env [] = Inr []"
| "expand_env env (c # s) = (case match_env (c # s) of
       None \<Rightarrow> rbind (expand_env env s) (\<lambda>t. Inr (c # t))
     | Some (name, rest) \<Rightarrow> (case map_of env name of
           None \<Rightarrow> Inl (missing_env name)
         | Some v \<Rightarrow> rbind (expand_env env rest) (\<lambda>t. Inr (url_quote v @ t))))"
  by pat_completeness auto
termination
  by (relation "measure (\<lambda>(env, s). length s)") (auto dest: match_env_shorter)

definition expand_connection_url :: "string \<Rightarrow> environment \<Rightarrow> string result" where
  "expand_connection_url template env = (case match_env template of
       Some (name, []) \<Rightarrow> (case map_of env name of None \<Rightarrow> Inl (missing_env name) | Some v \<Rightarrow> Inr v)
     | _ \<Rightarrow>
         rbind (expand_env env template) (\<lambda>expanded.
         rbind (raise_if (is_substr ''${'' expanded)
           (ValueError ''invalid environment placeholder in connection_url'')) (\<lambda>_. Inr expanded)))"

text \<open>
  The pieces of a template: its own characters, and the names of its placeholders.
\<close>

datatype url_piece = Lit char | Env string

function url_pieces :: "string \<Rightarrow> url_piece list" where
  "url_pieces [] = []"
| "url_pieces (c # s) = (case match_env (c # s) of
       None \<Rightarrow> Lit c # url_pieces s
     | Some (name, rest) \<Rightarrow> Env name # url_pieces rest)"
  by pat_completeness auto
termination
  by (relation "measure length") (auto dest: match_env_shorter)

fun piece_text :: "environment \<Rightarrow> url_piece \<Rightarrow> string" where
  "piece_text env (Lit c) = [c]"
| "piece_text env (Env n) = url_quote (the (map_of env n))"

fun piece_known :: "environment \<Rightarrow> url_piece \<Rightarrow> bool" where
  "piece_known env (Lit c) = True"
| "piece_known env (Env n) = (map_of env n \<noteq> None)"

lemma expand_env_Inr_iff:
  "expand_env env s = Inr t \<longleftrightarrow> list_all (piece_known env) (url_pieces s) \<and>
     t = concat (map (piece_text env) (url_pieces s))"
proof (induction s arbitrary: t rule: url_pieces.induct)
  case 1
  then show ?case by auto
next
  case (2 c s)
  show ?case
  proof (cases "match_env (c # s)")
    case None
    with 2(1) show ?thesis by (auto simp: result_simps)
  next
    case (Some m)
    then obtain n r where m: "match_env (c # s) = Some (n, r)" by (cases m) auto
    with 2(2) [OF m refl] show ?thesis by (auto simp: result_simps split: option.split)
  qed
qed

section \<open>YAML values\<close>

text \<open>
  What \<open>yaml.safe_load\<close> returns.  \<open>YOther\<close> is a scalar of another type (a float, a date), by
  its \<open>repr\<close>; a key that is not a text likewise.
\<close>

datatype yaml_key = YKey string | YOtherKey string

datatype yaml = YNull | YBool bool | YInt int | YText string | YOther string
  | YSeq "yaml list" | YMap "(yaml_key \<times> yaml) list"

fun key_repr :: "yaml_key \<Rightarrow> string" where
  "key_repr (YKey k) = py_repr k"
| "key_repr (YOtherKey r) = r"

fun yaml_repr :: "yaml \<Rightarrow> string" where
  "yaml_repr YNull = ''None''"
| "yaml_repr (YBool b) = (if b then ''True'' else ''False'')"
| "yaml_repr (YInt i) = str_int i"
| "yaml_repr (YText t) = py_repr t"
| "yaml_repr (YOther r) = r"
| "yaml_repr (YSeq xs) = ''['' @ join '', '' (map yaml_repr xs) @ '']''"
| "yaml_repr (YMap d) = ''{'' @ join '', '' (map (\<lambda>(k, v). key_repr k @ '': '' @ yaml_repr v) d) @ ''}''"

text \<open>\<open>repr\<close> raises where there is an integer of too many digits to print.\<close>

fun has_long_int :: "yaml \<Rightarrow> bool" where
  "has_long_int (YInt i) = too_long i"
| "has_long_int (YSeq xs) = (\<exists>x \<in> set xs. has_long_int x)"
| "has_long_int (YMap d) = (\<exists>x \<in> set d. has_long_int (snd x))"
| "has_long_int _ = False"

type_synonym yaml_map = "(yaml_key \<times> yaml) list"

text \<open>\<open>d.get(name)\<close>: an absent key reads as a null.\<close>

definition yget :: "yaml_map \<Rightarrow> string \<Rightarrow> yaml" where
  "yget d name = (case map_of d (YKey name) of None \<Rightarrow> YNull | Some v \<Rightarrow> v)"

definition yset :: "string \<Rightarrow> yaml \<Rightarrow> yaml_map \<Rightarrow> yaml_map" where
  "yset name v d = AList.update (YKey name) v d"

lemma yget_yset: "yget (yset n v d) m = (if m = n then v else yget d m)"
  by (simp add: yget_def yset_def update_conv')

section \<open>Loading one server's secrets\<close>

definition missing_key :: "yaml \<Rightarrow> exn" where
  "missing_key key_env = (if has_long_int key_env then digits_error
     else ValueError (''missing PII key environment variable '' @ yaml_repr key_env))"

definition load_key :: "environment \<Rightarrow> yaml_key \<Rightarrow> yaml \<Rightarrow> yaml_map \<Rightarrow> yaml_map result" where
  "load_key env alias key_env d =
     (if key_env = YNull then Inr d
      else (case key_env of
          YText name \<Rightarrow> (case map_of env name of
              None \<Rightarrow> Inl (missing_key key_env)
            | Some key \<Rightarrow> (case b64decode_strict key of
                  None \<Rightarrow> Inl (ValueError (''PII key for server '' @ key_repr alias @ '' is not valid base64''))
                | Some decoded \<Rightarrow>
                    rbind (raise_if (length decoded \<noteq> 32) (ValueError
                      (''PII key for server '' @ key_repr alias @ '' must decode to 32 bytes''))) (\<lambda>_.
                    Inr (yset ''pii_key'' (YText key) d))))
        | _ \<Rightarrow> Inl (missing_key key_env)))"

text \<open>The round of the loop of \<open>load_config\<close> for one server.\<close>

definition load_server :: "environment \<Rightarrow> yaml_key \<times> yaml \<Rightarrow> (yaml_key \<times> yaml) result" where
  "load_server env entry = (case entry of (alias, value) \<Rightarrow> (case value of
       YMap d \<Rightarrow> (case yget d ''connection_url'' of
           YText template \<Rightarrow>
             rbind (expand_connection_url template env) (\<lambda>url.
             let d1 = yset ''connection_url'' (YText url) d in
             rbind (load_key env alias (yget d1 ''pii_key_env'') d1) (\<lambda>d2. Inr (alias, YMap d2)))
         | _ \<Rightarrow> Inl (ValueError (''server '' @ key_repr alias @ '' requires connection_url'')))
     | _ \<Rightarrow> Inl (ValueError (''server '' @ key_repr alias @ '' must be a mapping''))))"

section \<open>Shared rule sets\<close>

type_synonym named_rules = "(string \<times> pii_rule list) list"

text \<open>The unnamed rules and the named ones, collected from the rule sets.\<close>

definition collect_rule_set :: "pii_rule_set \<Rightarrow> pii_rule list \<times> named_rules
    \<Rightarrow> (pii_rule list \<times> named_rules) result" where
  "collect_rule_set rs st = (case st of (unnamed, named) \<Rightarrow> (case rs_name rs of
       None \<Rightarrow> rbind (raise_if (unnamed \<noteq> []) (ValueError ''at most one unnamed pii rule set is allowed''))
         (\<lambda>_. Inr (rs_rules rs, named))
     | Some n \<Rightarrow> rbind (raise_if (map_of named n \<noteq> None) (ValueError
         (''duplicate pii rule set name '' @ py_repr n))) (\<lambda>_. Inr (unnamed, AList.update n (rs_rules rs) named))))"

text \<open>One included name: its rules join, and it counts as included.\<close>

definition include_rules :: "string \<Rightarrow> named_rules \<Rightarrow> string \<Rightarrow> string list \<times> pii_rule list
    \<Rightarrow> (string list \<times> pii_rule list) result" where
  "include_rules alias named name st = (case st of (included, rules) \<Rightarrow>
     rbind (raise_if (map_of named name = None) (ValueError (''server '' @ py_repr alias @
       '' includes unknown pii rule set '' @ py_repr name))) (\<lambda>_.
     rbind (raise_if (name \<in> set included) (ValueError (''server '' @ py_repr alias @
       '' includes pii rule set '' @ py_repr name @ '' more than once''))) (\<lambda>_.
     Inr (included @ [name], rules @ the (map_of named name)))))"

definition effective_rules :: "pii_rule list \<Rightarrow> named_rules \<Rightarrow> string \<Rightarrow> pii_config_input option
    \<Rightarrow> pii_rule list result" where
  "effective_rules unnamed named alias pii = (case pii of
       None \<Rightarrow> Inr unnamed
     | Some p \<Rightarrow>
         rbind (rfold (include_rules alias named) (pci_include p) ([], unnamed)) (\<lambda>st.
         Inr (snd st @ pci_rules p)))"

text \<open>\<open>rule.model_dump(by_alias=True)\<close>.\<close>

definition dump_rule :: "pii_rule \<Rightarrow> yaml" where
  "dump_rule r = YMap [(YKey ''database'', YText (pr_database r)),
     (YKey ''schema'', case pr_schema r of None \<Rightarrow> YNull | Some s \<Rightarrow> YText s),
     (YKey ''table'', YText (pr_table r)), (YKey ''columns'', YSeq (map YText (pr_columns r)))]"

definition dump_rules :: "pii_rule list \<Rightarrow> yaml" where
  "dump_rules rules = (if rules = [] then YNull
     else YMap [(YKey ''rules'', YSeq (map dump_rule rules))])"

definition assertion_error :: exn where
  "assertion_error = OtherError \<lparr>ex_class = ''AssertionError'', ex_args = [], ex_text = []\<rparr>"

text \<open>The loop body of \<open>_resolve_pii_rules\<close> over the raw servers.\<close>

definition resolve_server :: "pii_rule list \<Rightarrow> named_rules \<Rightarrow> string \<times> server_config_input \<Rightarrow> yaml_map
    \<Rightarrow> yaml_map result" where
  "resolve_server unnamed named s servers = (case map_of servers (YKey (fst s)) of
       None \<Rightarrow> Inl KeyError
     | Some (YMap d) \<Rightarrow>
         if sc_access_level (snd s) \<noteq> ALL_PII_SAFE then
           rbind (raise_if (sc_pii (snd s) \<noteq> None) (ValueError (no_pii_message (sc_access_level (snd s)))))
             (\<lambda>_. Inr servers)
         else
           rbind (effective_rules unnamed named (fst s) (sc_pii (snd s))) (\<lambda>rules.
           Inr (yset (fst s) (YMap (yset ''pii'' (dump_rules rules) d)) servers))
     | Some _ \<Rightarrow> Inl assertion_error)"

definition rule_sets :: "app_config_input \<Rightarrow> (pii_rule list \<times> named_rules) result" where
  "rule_sets config = rfold collect_rule_set
     (case aci_pii_rules config of None \<Rightarrow> [] | Some sets \<Rightarrow> sets) ([], [])"

definition resolve_pii_rules :: "yaml_map \<Rightarrow> app_config_input \<Rightarrow> yaml_map result" where
  "resolve_pii_rules raw config =
     rbind (rule_sets config) (\<lambda>sets.
     let resolved = AList.delete (YKey ''pii_rules'') raw in
     (case map_of resolved (YKey ''servers'') of
        None \<Rightarrow> Inl KeyError
      | Some (YMap servers) \<Rightarrow>
          rbind (rfold (resolve_server (fst sets) (snd sets)) (aci_servers config) servers) (\<lambda>servers'.
          Inr (yset ''servers'' (YMap servers') resolved))
      | Some _ \<Rightarrow> Inl assertion_error))"

section \<open>load_config\<close>

definition validation_summary :: "(string list \<times> string) list \<Rightarrow> string" where
  "validation_summary issues = join ''; '' (map (\<lambda>(loc, msg).
     let location = join ''.'' loc in if location \<noteq> [] then location @ '': '' @ msg else msg) issues)"

text \<open>The body of the \<open>try\<close>, after the file has been read.\<close>

definition load_raw :: "(yaml \<Rightarrow> app_config_input result) \<Rightarrow> (yaml \<Rightarrow> app_config result) \<Rightarrow> environment
    \<Rightarrow> yaml \<Rightarrow> app_config result" where
  "load_raw validate_input validate env raw = (case raw of
       YMap d \<Rightarrow> (case yget d ''servers'' of
           YMap servers \<Rightarrow>
             rbind (rmap (load_server env) servers) (\<lambda>servers'.
             let d' = yset ''servers'' (YMap servers') d in
             rbind (validate_input (YMap d')) (\<lambda>input.
             rbind (resolve_pii_rules d' input) (\<lambda>resolved. validate (YMap resolved))))
         | _ \<Rightarrow> Inl (ValueError ''servers must be a mapping''))
     | _ \<Rightarrow> Inl (ValueError ''configuration root must be a mapping''))"

text \<open>The \<open>except\<close> clauses; an exception of another class passes through.\<close>

fun config_error :: "exn \<Rightarrow> exn" where
  "config_error (ValidationError issues) = Domain (make_error CONFIG_ERROR
     (''Invalid configuration: '' @ validation_summary issues) None)"
| "config_error OSError = Domain (make_error CONFIG_ERROR ''Invalid configuration file.'' None)"
| "config_error YAMLError = Domain (make_error CONFIG_ERROR ''Invalid configuration file.'' None)"
| "config_error (ValueError m) = Domain (make_error CONFIG_ERROR (''Invalid configuration: '' @ m) None)"
| "config_error e = e"

definition load_config :: "(string \<Rightarrow> yaml result) \<Rightarrow> (yaml \<Rightarrow> app_config_input result)
    \<Rightarrow> (yaml \<Rightarrow> app_config result) \<Rightarrow> string \<Rightarrow> environment \<Rightarrow> app_config result" where
  "load_config read_yaml validate_input validate path env =
     (case rbind (read_yaml path) (load_raw validate_input validate env) of
        Inl e \<Rightarrow> Inl (config_error e) | Inr c \<Rightarrow> Inr c)"

section \<open>What loading establishes\<close>

text \<open>The rules a server ends up with: the shared ones, those it includes, its own, in this order.\<close>

lemma include_rules_Inr:
  "rfold (include_rules alias named) names (seen, rules) = Inr st \<longleftrightarrow>
     distinct names \<and> set names \<inter> set seen = {} \<and> set names \<subseteq> dom (map_of named) \<and>
     st = (seen @ names, rules @ concat (map (the \<circ> map_of named) names))"
proof (induction names arbitrary: seen rules)
  case Nil
  then show ?case by auto
next
  case (Cons n names)
  then show ?case by (auto simp: include_rules_def result_simps)
qed

lemma effective_rules_Inr_iff:
  "effective_rules unnamed named alias pii = Inr rules \<longleftrightarrow> (case pii of
     None \<Rightarrow> rules = unnamed
   | Some p \<Rightarrow> distinct (pci_include p) \<and> set (pci_include p) \<subseteq> dom (map_of named) \<and>
       rules = unnamed @ concat (map (the \<circ> map_of named) (pci_include p)) @ pci_rules p)"
  by (auto simp: effective_rules_def result_simps include_rules_Inr split: option.splits)

text \<open>The named sets of a configuration, and its unnamed one.\<close>

lemma collect_rule_sets:
  assumes "rfold collect_rule_set sets (u, named) = Inr (u', named')"
  shows "(map_of named' k = Some rules \<longleftrightarrow>
      map_of named k = Some rules \<or> (\<exists>rs \<in> set sets. rs_name rs = Some k \<and> rs_rules rs = rules))"
    and "u' = u \<and> (\<forall>rs \<in> set sets. rs_name rs = None \<longrightarrow> rs_rules rs = []) \<or>
      (\<exists>rs \<in> set sets. rs_name rs = None \<and> u' = rs_rules rs)"
  using assms
proof (induction sets arbitrary: u named)
  case Nil
  { case 1 then show ?case by simp }
  { case 2 then show ?case by simp }
next
  case (Cons rs sets)
  { case 1
    then obtain u1 n1 where step: "collect_rule_set rs (u, named) = Inr (u1, n1)"
      and rest: "rfold collect_rule_set sets (u1, n1) = Inr (u', named')" by (auto simp: result_simps)
    from step Cons.IH(1) [OF rest] show ?case
      by (auto simp: collect_rule_set_def result_simps update_conv' split: option.splits if_splits) }
  { case 2
    then obtain u1 n1 where step: "collect_rule_set rs (u, named) = Inr (u1, n1)"
      and rest: "rfold collect_rule_set sets (u1, n1) = Inr (u', named')" by (auto simp: result_simps)
    from step Cons.IH(2) [OF rest] show ?case
      by (auto simp: collect_rule_set_def result_simps split: option.splits) }
qed

text \<open>The mapping of one server in a raw configuration.\<close>

definition server_entry :: "yaml_map \<Rightarrow> string \<Rightarrow> yaml_map option" where
  "server_entry raw alias = (case yget raw ''servers'' of
       YMap servers \<Rightarrow> (case yget servers alias of YMap d \<Rightarrow> Some d | _ \<Rightarrow> None)
     | _ \<Rightarrow> None)"

text \<open>What resolving makes of one server's mapping.\<close>

definition resolved_entry :: "pii_rule list \<Rightarrow> named_rules \<Rightarrow> string \<Rightarrow> server_config_input \<Rightarrow> yaml_map
    \<Rightarrow> yaml_map \<Rightarrow> bool" where
  "resolved_entry unnamed named alias s d d' \<longleftrightarrow>
     (if sc_access_level s = ALL_PII_SAFE
      then \<exists>rules. effective_rules unnamed named alias (sc_pii s) = Inr rules \<and> d' = yset ''pii'' (dump_rules rules) d
      else sc_pii s = None \<and> d' = d)"

lemma yget_map_of: "yget d n = YMap m \<Longrightarrow> map_of d (YKey n) = Some (YMap m)"
  by (auto simp: yget_def split: option.splits)

lemma yget_Some: "map_of d (YKey n) = Some v \<Longrightarrow> yget d n = v"
  by (simp add: yget_def)

lemma resolve_server_Inr:
  assumes "resolve_server unnamed named s servers = Inr servers'"
  shows "\<exists>d d'. yget servers (fst s) = YMap d \<and> yget servers' (fst s) = YMap d' \<and>
    resolved_entry unnamed named (fst s) (snd s) d d'"
    and "a \<noteq> fst s \<Longrightarrow> yget servers' a = yget servers a"
proof -
  from assms obtain d where d: "map_of servers (YKey (fst s)) = Some (YMap d)"
    by (auto simp: resolve_server_def split: option.splits yaml.splits)
  from assms d show "\<exists>d d'. yget servers (fst s) = YMap d \<and> yget servers' (fst s) = YMap d' \<and>
    resolved_entry unnamed named (fst s) (snd s) d d'"
    by (auto simp: resolve_server_def result_simps resolved_entry_def yget_yset yget_Some split: if_splits)
  from assms d show "a \<noteq> fst s \<Longrightarrow> yget servers' a = yget servers a"
    by (auto simp: resolve_server_def result_simps yget_yset split: if_splits)
qed

lemma rfold_resolve_server:
  assumes "rfold (resolve_server unnamed named) ss servers = Inr servers'" and "distinct (map fst ss)"
  shows "(alias, s) \<in> set ss \<Longrightarrow> \<exists>d d'. yget servers alias = YMap d \<and> yget servers' alias = YMap d' \<and>
    resolved_entry unnamed named alias s d d'"
    and "alias \<notin> fst ` set ss \<Longrightarrow> yget servers' alias = yget servers alias"
  using assms
proof (induction ss arbitrary: servers)
  case Nil
  { case 1 then show ?case by simp }
  { case 2 then show ?case by simp }
next
  case (Cons x ss)
  { case 1
    then obtain mid where mid: "resolve_server unnamed named x servers = Inr mid"
      and rest: "rfold (resolve_server unnamed named) ss mid = Inr servers'" and d: "distinct (map fst ss)"
      by (auto simp: result_simps)
    note step = resolve_server_Inr [OF mid]
    show ?case
    proof (cases "x = (alias, s)")
      case True
      then have "alias \<notin> fst ` set ss" using 1(3) by simp
      with Cons.IH(2) [OF _ rest d] step(1) True show ?thesis by simp
    next
      case False
      with 1 have "(alias, s) \<in> set ss" "alias \<noteq> fst x" by (auto simp: image_iff)
      with Cons.IH(1) [OF _ rest d] step(2) show ?thesis by metis
    qed }
  { case 2
    then obtain mid where mid: "resolve_server unnamed named x servers = Inr mid"
      and rest: "rfold (resolve_server unnamed named) ss mid = Inr servers'" and d: "distinct (map fst ss)"
      by (auto simp: result_simps)
    from 2(1) Cons.IH(2) [OF _ rest d] resolve_server_Inr(2) [OF mid] show ?case by simp }
qed

lemma map_case_Inr:
  "(case x of None \<Rightarrow> Inl e | Some (YMap m) \<Rightarrow> f m | Some _ \<Rightarrow> Inl e') = Inr r \<longleftrightarrow> (\<exists>m. x = Some (YMap m) \<and> f m = Inr r)"
proof (cases x)
  case (Some v)
  then show ?thesis by (cases v) simp_all
qed simp

lemma resolve_pii_rules_entry:
  assumes "resolve_pii_rules raw config = Inr resolved" and "distinct (map fst (aci_servers config))"
    and "(alias, s) \<in> set (aci_servers config)"
  obtains unnamed named d d' where "rule_sets config = Inr (unnamed, named)"
    "server_entry raw alias = Some d" "server_entry resolved alias = Some d'"
    "resolved_entry unnamed named alias s d d'"
proof -
  let ?raw = "AList.delete (YKey ''pii_rules'') raw"
  from assms(1) obtain unnamed named servers servers' where sets: "rule_sets config = Inr (unnamed, named)"
    and servers: "map_of ?raw (YKey ''servers'') = Some (YMap servers)"
    and fold: "rfold (resolve_server unnamed named) (aci_servers config) servers = Inr servers'"
    and res: "resolved = yset ''servers'' (YMap servers') ?raw"
    unfolding resolve_pii_rules_def Let_def rbind_eq_Inr_iff map_case_Inr by auto
  from rfold_resolve_server(1) [OF fold assms(2,3)] obtain d d' where
    d: "yget servers alias = YMap d" "yget servers' alias = YMap d'" "resolved_entry unnamed named alias s d d'"
    by blast
  have "yget raw ''servers'' = YMap servers"
    using servers by (simp add: yget_def delete_conv')
  with d(1) have "server_entry raw alias = Some d" by (simp add: server_entry_def)
  moreover have "server_entry resolved alias = Some d'"
    using d(2) res by (simp add: server_entry_def yget_yset)
  ultimately show thesis using that sets d(3) by blast
qed

text \<open>The secrets of one server.\<close>

lemma load_key_Inr:
  assumes "load_key env alias key_env d = Inr d'"
  shows "key_env = YNull \<and> d' = d \<or>
    (\<exists>name key bytes. key_env = YText name \<and> map_of env name = Some key \<and> b64decode_strict key = Some bytes \<and>
       length bytes = 32 \<and> d' = yset ''pii_key'' (YText key) d)"
  using assms by (auto simp: load_key_def result_simps split: if_splits yaml.splits option.splits)

lemma load_server_Inr:
  assumes "load_server env (alias, value) = Inr entry"
  shows "\<exists>d template url d'. value = YMap d \<and> yget d ''connection_url'' = YText template \<and>
    expand_connection_url template env = Inr url \<and> entry = (alias, YMap d') \<and>
    yget d' ''connection_url'' = YText url \<and>
    (yget d ''pii_key_env'' = YNull \<and> yget d' ''pii_key'' = yget d ''pii_key'' \<or>
     (\<exists>name key bytes. yget d ''pii_key_env'' = YText name \<and> map_of env name = Some key \<and>
        b64decode_strict key = Some bytes \<and> length bytes = 32 \<and> yget d' ''pii_key'' = YText key))"
  using assms by (auto simp: load_server_def result_simps yget_yset Let_def split: yaml.splits dest!: load_key_Inr)

text \<open>Which errors leave \<open>load_config\<close>.\<close>

definition file_error :: "exn \<Rightarrow> bool" where
  "file_error e \<longleftrightarrow> exn_code (config_error e) = Some CONFIG_ERROR"

lemma file_error_simps [simp]:
  "file_error (ValueError m)" "file_error (ValidationError is)" "file_error OSError" "file_error YAMLError"
  by (simp_all add: file_error_def)

lemma file_error_missing_key [simp]: "file_error (missing_key v)"
  by (simp add: missing_key_def digits_error_def)

lemma expand_connection_url_error:
  "expand_connection_url template env = Inl e \<Longrightarrow> file_error e"
proof -
  have *: "expand_env env s = Inl x \<Longrightarrow> file_error x" for s x
    by (induction s arbitrary: x rule: url_pieces.induct)
      (auto simp: result_simps missing_env_def split: option.splits)
  show "expand_connection_url template env = Inl e \<Longrightarrow> file_error e"
    by (auto simp: expand_connection_url_def result_simps missing_env_def dest: *
        split: option.splits list.splits)
qed

lemma load_key_error:
  assumes "load_key env alias key_env d = Inl e"
  shows "file_error e"
proof (cases key_env)
  case (YText name)
  with assms show ?thesis
    by (cases "map_of env name"; cases "b64decode_strict (the (map_of env name))")
      (auto simp: load_key_def result_simps)
qed (use assms in \<open>auto simp: load_key_def\<close>)

lemma load_server_error:
  assumes "load_server env (alias, value) = Inl e"
  shows "file_error e"
proof (cases "value")
  case (YMap d)
  show ?thesis
  proof (cases "yget d ''connection_url''")
    case (YText template)
    with YMap assms show ?thesis
      by (auto simp: load_server_def result_simps Let_def dest: expand_connection_url_error load_key_error)
  qed (use YMap assms in \<open>auto simp: load_server_def\<close>)
qed (use assms in \<open>auto simp: load_server_def\<close>)

lemma effective_rules_error: "effective_rules unnamed named alias pii = Inl e \<Longrightarrow> file_error e"
  by (auto simp: effective_rules_def include_rules_def result_simps split: option.splits dest!: rfold_InlD)

lemma collect_rule_set_error: "collect_rule_set rs st = Inl e \<Longrightarrow> file_error e"
  by (auto simp: collect_rule_set_def result_simps split: prod.splits option.splits)

lemma resolve_server_mapping:
  assumes "resolve_server unnamed named s servers = Inr servers'" and "yget servers a = YMap d"
  shows "\<exists>d'. yget servers' a = YMap d'"
  using assms resolve_server_Inr [OF assms(1)] by (cases "a = fst s") auto

lemma resolve_server_error:
  assumes "resolve_server unnamed named s servers = Inl e" and "yget servers (fst s) = YMap d"
  shows "file_error e"
  using assms yget_map_of [OF assms(2)]
  by (auto simp: resolve_server_def result_simps dest: effective_rules_error split: if_splits)

lemma rfold_resolve_server_error:
  assumes "rfold (resolve_server unnamed named) ss servers = Inl e"
    and "\<forall>s \<in> set ss. \<exists>d. yget servers (fst s) = YMap d"
  shows "file_error e"
  using assms
proof (induction ss arbitrary: servers)
  case (Cons s ss)
  show ?case
  proof (cases "resolve_server unnamed named s servers")
    case (Inl x)
    with Cons.prems resolve_server_error [of unnamed named s servers x] show ?thesis by auto
  next
    case (Inr servers')
    then have "\<forall>s \<in> set ss. \<exists>d. yget servers' (fst s) = YMap d"
      using Cons.prems(2) resolve_server_mapping [OF Inr] by (metis list.set_intros(2))
    with Cons.IH Cons.prems(1) Inr show ?thesis by simp
  qed
qed simp

lemma resolve_pii_rules_error:
  assumes "resolve_pii_rules raw config = Inl e"
    and "\<forall>s \<in> set (aci_servers config). server_entry raw (fst s) \<noteq> None" and "yget raw ''servers'' = YMap servers"
  shows "file_error e"
proof (cases "rule_sets config")
  case (Inl x)
  then obtain rs st where "collect_rule_set rs st = Inl x"
    unfolding rule_sets_def by (blast dest: rfold_InlD)
  then have "file_error x" by (rule collect_rule_set_error)
  with Inl assms(1) show ?thesis by (simp add: resolve_pii_rules_def)
next
  case (Inr sets)
  have m: "map_of (AList.delete (YKey ''pii_rules'') raw) (YKey ''servers'') = Some (YMap servers)"
    using yget_map_of [OF assms(3)] by (simp add: delete_conv')
  have "\<exists>d. yget servers (fst s) = YMap d" if "s \<in> set (aci_servers config)" for s
  proof -
    have "server_entry raw (fst s) \<noteq> None" using assms(2) that by blast
    with assms(3) show ?thesis
      by (cases "yget servers (fst s)") (auto simp: server_entry_def)
  qed
  then have ok: "\<forall>s \<in> set (aci_servers config). \<exists>d. yget servers (fst s) = YMap d" by blast
  from Inr assms(1) m have "rfold (resolve_server (fst sets) (snd sets)) (aci_servers config) servers = Inl e"
    by (auto simp: resolve_pii_rules_def Let_def result_simps)
  then show ?thesis by (rule rfold_resolve_server_error [OF _ ok])
qed

lemma load_raw_error:
  assumes "load_raw validate_input validate env raw = Inl e"
    and "\<And>y e. validate_input y = Inl e \<Longrightarrow> file_error e" and "\<And>y e. validate y = Inl e \<Longrightarrow> file_error e"
    and "\<And>d c s. validate_input (YMap d) = Inr c \<Longrightarrow> s \<in> set (aci_servers c) \<Longrightarrow> server_entry d (fst s) \<noteq> None"
  shows "file_error e"
proof (cases raw)
  case (YMap d)
  show ?thesis
  proof (cases "yget d ''servers''")
    case (YMap servers)
    show ?thesis
    proof (cases "rmap (load_server env) servers")
      case (Inl x)
      then obtain s where "load_server env s = Inl x" by (blast dest: rmap_InlD)
      then have "file_error x" by (cases s) (auto dest: load_server_error)
      with Inl YMap \<open>raw = YMap d\<close> assms(1) show ?thesis by (simp add: load_raw_def)
    next
      case (Inr servers')
      let ?d = "yset ''servers'' (YMap servers') d"
      have "rbind (validate_input (YMap ?d)) (\<lambda>input. rbind (resolve_pii_rules ?d input) (\<lambda>r. validate (YMap r))) = Inl e"
        using Inr YMap \<open>raw = YMap d\<close> assms(1) by (simp add: load_raw_def Let_def)
      then consider "validate_input (YMap ?d) = Inl e"
        | input where "validate_input (YMap ?d) = Inr input" "resolve_pii_rules ?d input = Inl e"
        | r where "validate (YMap r) = Inl e" by (auto simp: result_simps)
      then show ?thesis
      proof cases
        case (2 input)
        have "\<forall>s \<in> set (aci_servers input). server_entry ?d (fst s) \<noteq> None" using assms(4) 2(1) by blast
        then show ?thesis by (rule resolve_pii_rules_error [OF 2(2)]) (simp add: yget_yset)
      qed (use assms(2,3) in blast)+
    qed
  qed (use YMap assms(1) in \<open>auto simp: load_raw_def\<close>)
qed (use assms(1) in \<open>auto simp: load_raw_def\<close>)

section \<open>Properties\<close>

text \<open>The text a piece of a template was.\<close>

fun piece_source :: "url_piece \<Rightarrow> string" where
  "piece_source (Lit c) = [c]"
| "piece_source (Env n) = ''${'' @ n @ ''}''"

lemma match_env_source: "match_env s = Some (n, r) \<Longrightarrow> s = ''${'' @ n @ ''}'' @ r"
proof -
  let ?t = "drop 2 s"
  assume "match_env s = Some (n, r)"
  then have pre: "prefix ''${'' s" and n: "n = takeWhile env_char ?t"
    and r: "dropWhile env_char ?t \<noteq> []" "hd (dropWhile env_char ?t) = CHR ''}''" "r = tl (dropWhile env_char ?t)"
    by (auto simp: match_env_def Let_def split: if_splits)
  from pre obtain t where "s = ''${'' @ t" by (auto simp: prefix_def)
  moreover have "dropWhile env_char ?t = CHR ''}'' # r" using r by (metis list.collapse)
  then have "?t = n @ CHR ''}'' # r" using n by (metis takeWhile_dropWhile_id)
  ultimately show ?thesis by simp
qed

lemma url_pieces_source: "concat (map piece_source (url_pieces s)) = s"
proof (induction s rule: url_pieces.induct)
  case (2 c s)
  show ?case
  proof (cases "match_env (c # s)")
    case (Some m)
    then obtain n r where m: "match_env (c # s) = Some (n, r)" by (cases m) auto
    with 2(2) [OF m refl] match_env_source [OF m] show ?thesis by simp
  qed (use 2(1) in simp)
qed simp

text \<open>
  C26. An environment value cannot change the shape of a connection URL: unless a template is
  one placeholder and nothing else, the URL is the template with each placeholder replaced by a text
  of inert characters only, none of which ends a URL's user, password, host, port or path;
  every name is set, and no placeholder is left.
\<close>

theorem url_values_stay_inert:
  assumes "expand_connection_url template env = Inr url" and "\<forall>n. match_env template \<noteq> Some (n, [])"
  shows "concat (map piece_source (url_pieces template)) = template \<and>
    url = concat (map (piece_text env) (url_pieces template)) \<and>
    (\<forall>n. Env n \<in> set (url_pieces template) \<longrightarrow> n \<in> dom (map_of env) \<and> list_all url_inert (piece_text env (Env n))) \<and>
    list_all (\<lambda>c. \<not> url_inert c) ''@:/?#[]&= '' \<and> \<not> is_substr ''${'' url"
proof -
  from assms have "rbind (expand_env env template) (\<lambda>expanded.
      rbind (raise_if (is_substr ''${'' expanded)
        (ValueError ''invalid environment placeholder in connection_url'')) (\<lambda>_. Inr expanded)) = Inr url"
    unfolding expand_connection_url_def by (auto split: option.splits list.splits)
  then have url: "expand_env env template = Inr url" and no: "\<not> is_substr ''${'' url"
    by (auto simp: result_simps)
  from url have pieces: "list_all (piece_known env) (url_pieces template)"
    "url = concat (map (piece_text env) (url_pieces template))" by (simp_all add: expand_env_Inr_iff)
  have "n \<in> dom (map_of env) \<and> list_all url_inert (piece_text env (Env n))" if "Env n \<in> set (url_pieces template)" for n
    using pieces(1) that url_quote_inert by (force simp: list_all_iff)
  moreover have "list_all (\<lambda>c. \<not> url_inert c) ''@:/?#[]&= ''" by code_simp
  ultimately show ?thesis using pieces(2) no url_pieces_source by simp
qed

theorem url_values_stay_inert_witness:
  "concat (map piece_source (url_pieces ''a://u:${P}@h'')) = ''a://u:${P}@h'' \<and>
    ''a://u:p%40h@h'' = concat (map (piece_text [(''P'', ''p@h'')]) (url_pieces ''a://u:${P}@h''))"
proof -
  have "expand_connection_url ''a://u:${P}@h'' [(''P'', ''p@h'')] = Inr ''a://u:p%40h@h''" by code_simp
  moreover have "match_env ''a://u:${P}@h'' = None" by code_simp
  ultimately show ?thesis using url_values_stay_inert [of "''a://u:${P}@h''"] by fastforce
qed

text \<open>
  C25. Shared rules reach every server they belong to, and no other: resolving gives an
  \<open>all_pii_safe\<close> server exactly the unnamed rules, then those of the sets it includes in
  its order, then its own, with each included set known and included once; any other server has no
  rules and its mapping is unchanged.
\<close>

theorem shared_rules_resolved:
  assumes "resolve_pii_rules raw config = Inr resolved" and "distinct (map fst (aci_servers config))"
    and "(alias, s) \<in> set (aci_servers config)"
  shows "\<exists>unnamed named d d'. rule_sets config = Inr (unnamed, named) \<and>
    server_entry raw alias = Some d \<and> server_entry resolved alias = Some d' \<and>
    (if sc_access_level s = ALL_PII_SAFE
     then \<exists>own names. (sc_pii s = None \<and> own = [] \<and> names = [] \<or>
           (\<exists>p. sc_pii s = Some p \<and> own = pci_rules p \<and> names = pci_include p)) \<and>
         distinct names \<and> set names \<subseteq> dom (map_of named) \<and>
         d' = yset ''pii'' (dump_rules (unnamed @ concat (map (the \<circ> map_of named) names) @ own)) d
     else sc_pii s = None \<and> d' = d)"
proof -
  obtain unnamed named d d' where e: "rule_sets config = Inr (unnamed, named)"
    "server_entry raw alias = Some d" "server_entry resolved alias = Some d'"
    and r: "resolved_entry unnamed named alias s d d'"
    by (rule resolve_pii_rules_entry [OF assms])
  from r have "if sc_access_level s = ALL_PII_SAFE
     then \<exists>own names. (sc_pii s = None \<and> own = [] \<and> names = [] \<or>
           (\<exists>p. sc_pii s = Some p \<and> own = pci_rules p \<and> names = pci_include p)) \<and>
         distinct names \<and> set names \<subseteq> dom (map_of named) \<and>
         d' = yset ''pii'' (dump_rules (unnamed @ concat (map (the \<circ> map_of named) names) @ own)) d
     else sc_pii s = None \<and> d' = d"
    by (cases "sc_access_level s = ALL_PII_SAFE"; cases "sc_pii s")
      (auto simp: resolved_entry_def effective_rules_Inr_iff)
  with e show ?thesis by blast
qed

definition sample_rule :: "string \<Rightarrow> pii_rule" where
  "sample_rule t = \<lparr>pr_database = ''*'', pr_schema = None, pr_table = t, pr_columns = [''Email'']\<rparr>"

definition sample_server :: server_config_input where
  "sample_server = \<lparr>sc_engine = SQLSERVER_ENGINE, sc_access_level = ALL_PII_SAFE, sc_connection_url = ''u'',
     sc_pii_key_env = Some ''K'', sc_pii_key = None,
     sc_pii = Some \<lparr>pci_include = [''n''], pci_rules = [sample_rule ''c'']\<rparr>\<rparr>"

definition sample_input :: app_config_input where
  "sample_input = \<lparr>aci_runtime = default_runtime, aci_logging = INFO,
     aci_pii_rules = Some [\<lparr>rs_name = None, rs_rules = [sample_rule ''a'']\<rparr>, \<lparr>rs_name = Some ''n'', rs_rules = [sample_rule ''b'']\<rparr>],
     aci_servers = [(''s'', sample_server)]\<rparr>"

definition sample_raw :: yaml_map where
  "sample_raw = [(YKey ''pii_rules'', YNull), (YKey ''servers'', YMap [(YKey ''s'', YMap [])])]"

theorem shared_rules_resolved_witness:
  "\<exists>unnamed named d d'. rule_sets sample_input = Inr (unnamed, named) \<and>
    server_entry sample_raw ''s'' = Some d \<and>
    server_entry [(YKey ''servers'', YMap [(YKey ''s'', YMap [(YKey ''pii'',
      dump_rules [sample_rule ''a'', sample_rule ''b'', sample_rule ''c''])])])] ''s'' = Some d' \<and>
    (if sc_access_level sample_server = ALL_PII_SAFE
     then \<exists>own names. (sc_pii sample_server = None \<and> own = [] \<and> names = [] \<or>
           (\<exists>p. sc_pii sample_server = Some p \<and> own = pci_rules p \<and> names = pci_include p)) \<and>
         distinct names \<and> set names \<subseteq> dom (map_of named) \<and>
         d' = yset ''pii'' (dump_rules (unnamed @ concat (map (the \<circ> map_of named) names) @ own)) d
     else sc_pii sample_server = None \<and> d' = d)"
proof (rule shared_rules_resolved)
  show "resolve_pii_rules sample_raw sample_input = Inr [(YKey ''servers'', YMap [(YKey ''s'', YMap [(YKey ''pii'',
      dump_rules [sample_rule ''a'', sample_rule ''b'', sample_rule ''c''])])])]" by code_simp
qed (simp_all add: sample_input_def)

text \<open>
  Loading fails in one way: when the file reader raises only its own errors, the models'
  validation only validation and value errors, and the validated input names servers of the
  mapping it was read from, every failure of \<open>load_config\<close> is a \<open>CONFIG_ERROR\<close>.
\<close>

theorem loading_fails_with_config_error:
  assumes "load_config read_yaml validate_input validate path env = Inl e"
    and "\<And>e. read_yaml path = Inl e \<Longrightarrow> e = OSError \<or> e = YAMLError \<or> (\<exists>m. e = ValueError m)"
    and "\<And>y e. validate_input y = Inl e \<Longrightarrow> \<exists>i m. e = ValidationError i \<or> e = ValueError m"
    and "\<And>y e. validate y = Inl e \<Longrightarrow> \<exists>i m. e = ValidationError i \<or> e = ValueError m"
    and "\<And>d c s. validate_input (YMap d) = Inr c \<Longrightarrow> s \<in> set (aci_servers c) \<Longrightarrow> server_entry d (fst s) \<noteq> None"
  shows "exn_code e = Some CONFIG_ERROR"
proof -
  from assms(1) obtain x where x: "rbind (read_yaml path) (load_raw validate_input validate env) = Inl x"
    and e: "e = config_error x" by (auto simp: load_config_def split: sum.splits)
  have "file_error x"
  proof (cases "read_yaml path")
    case (Inl y)
    with x assms(2) show ?thesis by fastforce
  next
    case (Inr raw)
    with x have "load_raw validate_input validate env raw = Inl x" by simp
    then show ?thesis by (rule load_raw_error) (use assms(3-5) in fastforce)+
  qed
  with e show ?thesis by (simp add: file_error_def)
qed

theorem loading_fails_with_config_error_witness:
  "exn_code (config_error (ValueError ''servers must be a mapping'')) = Some CONFIG_ERROR"
proof (rule loading_fails_with_config_error)
  show "load_config (\<lambda>p. Inr (YMap [])) (\<lambda>y. Inl (ValidationError [])) (\<lambda>y. Inl (ValidationError [])) ''f'' [] =
    Inl (config_error (ValueError ''servers must be a mapping''))" by code_simp
qed auto

end
