(* ===== verification/Diagnostics.thy ===== *)
theory Diagnostics
  imports Config_Load Numerals
begin

text \<open>
  \<open>diagnostics.py\<close>: what a connection URL keeps secret, and the one-line description of a
  driver error with those secrets redacted.  The regular expressions are written out as scans.
\<close>

section \<open>The secrets of a connection URL\<close>

definition note_secret :: "string option \<times> string \<Rightarrow> (string \<times> string) list \<Rightarrow> (string \<times> string) list" where
  "note_secret entry found = (case entry of (secret, replacement) \<Rightarrow>
     if truthy_text secret
     then AList.update (url_quote (the secret)) replacement (AList.update (the secret) replacement found)
     else found)"

definition secrets_for :: "url_parser \<Rightarrow> string \<Rightarrow> string \<Rightarrow> (string \<times> string) list" where
  "secrets_for make_url url alias = (case make_url url of
       None \<Rightarrow> []
     | Some u \<Rightarrow> fold note_secret
         [(url_password u, ''***''), (url_username u, ''***''), (url_host u, alias)] [])"

section \<open>Redaction\<close>

text \<open>The word characters of \<open>\w\<close> below 256, and lower case as \<open>re.IGNORECASE\<close> has it.\<close>

definition word_char :: "char \<Rightarrow> bool" where
  "word_char c \<longleftrightarrow> is_alnum c \<or> c = CHR ''_'' \<or> ord c \<in> {170, 178, 179, 181, 185, 186, 188, 189, 190} \<or>
     192 \<le> ord c \<and> ord c \<noteq> 215 \<and> ord c \<noteq> 247"

definition lower_char :: "char \<Rightarrow> char" where
  "lower_char c = (if 65 \<le> ord c \<and> ord c \<le> 90 \<or> 192 \<le> ord c \<and> ord c \<le> 222 \<and> ord c \<noteq> 215
     then char_of (ord c + 32) else c)"

definition opt_word :: "char option \<Rightarrow> bool" where
  "opt_word c \<longleftrightarrow> (case c of None \<Rightarrow> False | Some c \<Rightarrow> word_char c)"

definition head_of :: "string \<Rightarrow> char option" where
  "head_of s = (case s of [] \<Rightarrow> None | c # _ \<Rightarrow> Some c)"

text \<open>
  A match of \<open>_secret_pattern(secret)\<close> at the start of a text whose preceding character is
  \<open>prev\<close>: the secret in any case, a whole word at an edge where it has a word character.
\<close>

definition match_secret :: "char option \<Rightarrow> string \<Rightarrow> string \<Rightarrow> bool" where
  "match_secret prev secret s \<longleftrightarrow>
     map lower_char (take (length secret) s) = map lower_char secret \<and>
     (word_char (hd secret) \<longrightarrow> \<not> opt_word prev) \<and>
     (word_char (last secret) \<longrightarrow> \<not> opt_word (head_of (drop (length secret) s)))"

text \<open>\<open>re.sub\<close> with the pattern of one secret.\<close>

function redact :: "string \<Rightarrow> string \<Rightarrow> char option \<Rightarrow> string \<Rightarrow> string" where
  "redact secret rep prev [] = []"
| "redact secret rep prev (c # s) =
     (if secret \<noteq> [] \<and> match_secret prev secret (c # s)
      then rep @ redact secret rep (Some ((c # s) ! (length secret - 1))) (drop (length secret - 1) s)
      else c # redact secret rep (Some c) s)"
  by pat_completeness auto
termination
  by (relation "measure (\<lambda>(x, r, p, s). length s)") auto

text \<open>
  The loop over the redactions, longest secret first.  The argument lists the set of redactions
  in its iteration order, which Python leaves open.
\<close>

definition redact_one :: "string \<times> string \<Rightarrow> string \<Rightarrow> string" where
  "redact_one r message = (if fst r \<noteq> [] then redact (fst r) (snd r) None message else message)"

definition redact_all :: "(string \<times> string) list \<Rightarrow> string \<Rightarrow> string" where
  "redact_all redactions message =
     fold redact_one (sort_key (\<lambda>r. - int (length (fst r))) redactions) message"

section \<open>One line for a driver error\<close>

text \<open>\<open>str(arg)\<close>.\<close>

definition arg_text :: "exc_arg \<Rightarrow> string result" where
  "arg_text a = (case a of ArgStr s \<Rightarrow> Inr s | ArgInt i \<Rightarrow> show_int i
     | ArgBool b \<Rightarrow> Inr (if b then ''True'' else ''False'') | ArgOther t \<Rightarrow> Inr t)"

text \<open>\<open>_driver_parts\<close>, of the driver's exception where the exception wraps one.\<close>

definition code_parts :: "exc_info \<Rightarrow> exc_arg \<Rightarrow> exc_arg \<Rightarrow> (string \<times> string \<times> string) result" where
  "code_parts x code message =
     rbind (arg_text code) (\<lambda>c. rbind (arg_text message) (\<lambda>m. Inr (ex_class x, '' code='' @ c, m)))"

definition driver_parts :: "exc_info \<Rightarrow> (string \<times> string \<times> string) result" where
  "driver_parts x = (case ex_args x of
       ArgInt i # m # _ \<Rightarrow> code_parts x (ArgInt i) m
     | ArgBool b # m # _ \<Rightarrow> code_parts x (ArgBool b) m
     | ArgStr s # ArgStr m # _ \<Rightarrow> Inr (ex_class x, '' sqlstate='' @ s, m)
     | _ \<Rightarrow> Inr (ex_class x, [], ex_text x))"

text \<open>It raises for the numbers whose text Python does not make.\<close>

lemma arg_text_Inl: "arg_text a = Inl e \<Longrightarrow> e = digits_error \<and> (\<exists>i. a = ArgInt i \<and> too_long i)"
  by (auto simp: arg_text_def show_int_Inl split: exc_arg.splits)

lemma code_parts_Inl:
  "code_parts x a b = Inl e \<Longrightarrow> e = digits_error \<and> (\<exists>i. ArgInt i \<in> {a, b} \<and> too_long i)"
  by (auto simp: code_parts_def result_simps dest: arg_text_Inl)

lemma driver_parts_Inl:
  "driver_parts x = Inl e \<Longrightarrow> e = digits_error \<and> (\<exists>i. ArgInt i \<in> set (ex_args x) \<and> too_long i)"
  by (auto simp: driver_parts_def split: list.splits exc_arg.splits dest!: code_parts_Inl)

definition is_control :: "char \<Rightarrow> bool" where
  "is_control c \<longleftrightarrow> ord c < 32 \<or> ord c = 127"

text \<open>\<open>_CONTROL_CHARACTERS.sub(" ", message)\<close>: each run becomes one space.\<close>

fun blank_controls :: "string \<Rightarrow> string" where
  "blank_controls [] = []"
| "blank_controls (c # s) = (if is_control c
     then (if s \<noteq> [] \<and> is_control (hd s) then blank_controls s else CHR '' '' # blank_controls s)
     else c # blank_controls s)"

definition is_space :: "char \<Rightarrow> bool" where
  "is_space c \<longleftrightarrow> 9 \<le> ord c \<and> ord c \<le> 13 \<or> 28 \<le> ord c \<and> ord c \<le> 32 \<or> ord c = 133 \<or> ord c = 160"

definition strip :: "string \<Rightarrow> string" where
  "strip s = rev (dropWhile is_space (rev (dropWhile is_space s)))"

definition MAX_MESSAGE_CHARS :: nat where
  "MAX_MESSAGE_CHARS = 500"

definition log_message :: "(string \<times> string) list \<Rightarrow> string \<Rightarrow> string" where
  "log_message redactions message =
     (let m = strip (blank_controls (redact_all redactions message)) in
      if length m > MAX_MESSAGE_CHARS then take MAX_MESSAGE_CHARS m @ ''...'' else m)"

definition describe_error :: "exc_info \<Rightarrow> (string \<times> string) list \<Rightarrow> string result" where
  "describe_error x redactions = rbind (driver_parts x) (\<lambda>(name, code, message).
     Inr (name @ code @ '' message='' @ log_message redactions message))"

lemma describe_error_Inl: "describe_error x redactions = Inl e \<longleftrightarrow> driver_parts x = Inl e"
  by (auto simp: describe_error_def result_simps)

section \<open>What a log message cannot contain\<close>

lemma is_control_space: "\<not> is_control (CHR '' '')"
  by (simp add: is_control_def)

lemma blank_controls_clean: "list_all (\<lambda>c. \<not> is_control c) (blank_controls s)"
  by (induction s rule: blank_controls.induct) (simp_all add: is_control_space)

lemma set_strip: "set (strip s) \<subseteq> set s"
  unfolding strip_def by (metis set_dropWhileD set_rev subsetI)

lemma log_message_clean:
  "list_all (\<lambda>c. \<not> is_control c) (log_message redactions message) \<and>
     length (log_message redactions message) \<le> MAX_MESSAGE_CHARS + 3"
proof -
  let ?m = "strip (blank_controls (redact_all redactions message))"
  have "list_all (\<lambda>c. \<not> is_control c) ?m"
    using blank_controls_clean [of "redact_all redactions message"] set_strip
    by (auto simp: list_all_iff)
  moreover have "\<not> is_control (CHR ''.'')" by (simp add: is_control_def)
  ultimately show ?thesis
    by (auto simp: log_message_def Let_def list_all_iff dest: in_set_takeD)
qed

text \<open>Somewhere in a text, given the character before it, the secret matches.\<close>

fun occurs :: "char option \<Rightarrow> string \<Rightarrow> string \<Rightarrow> bool" where
  "occurs prev x [] = False"
| "occurs prev x (c # s) = (match_secret prev x (c # s) \<or> occurs (Some c) x s)"

text \<open>No character of a replacement is a character of the secret, in any case.\<close>

definition apart :: "string \<Rightarrow> string \<Rightarrow> bool" where
  "apart x r \<longleftrightarrow> r \<noteq> [] \<and> lower_char ` set x \<inter> lower_char ` set r = {}"

lemma match_secret_take:
  assumes "match_secret prev x s"
  shows "length x \<le> length s" and "c \<in> set (take (length x) s) \<Longrightarrow> lower_char c \<in> lower_char ` set x"
proof -
  have eq: "map lower_char (take (length x) s) = map lower_char x"
    using assms by (simp add: match_secret_def)
  from arg_cong [OF this, of length] show "length x \<le> length s" by simp
  from arg_cong [OF eq, of set] show "c \<in> set (take (length x) s) \<Longrightarrow> lower_char c \<in> lower_char ` set x"
    by auto
qed

text \<open>Whether a character is a word character does not depend on its case.\<close>

lemma word_char_lower: "word_char (lower_char c) = word_char c"
proof -
  have "ord c < 256" by (metis nat_of_char_less_256)
  then have "ord (char_of (ord c + 32)) = ord c + 32" if "ord c \<le> 222"
    using that by (simp add: of_char_of)
  then show ?thesis
    by (auto simp: word_char_def lower_char_def is_alnum_def is_ascii_digit_def)
qed

lemma match_secret_hd:
  assumes "match_secret prev x s" and "x \<noteq> []"
  shows "\<exists>c t. s = c # t \<and> lower_char c = lower_char (hd x)"
    and "lower_char (s ! (length x - 1)) = lower_char (last x)"
proof -
  have eq: "map lower_char (take (length x) s) = map lower_char x" using assms(1) by (simp add: match_secret_def)
  have len: "length x \<le> length s" by (rule match_secret_take [OF assms(1)])
  with assms(2) obtain c t where s: "s = c # t" by (cases s) auto
  with eq assms(2) show "\<exists>c t. s = c # t \<and> lower_char c = lower_char (hd x)" by (cases x) auto
  have "map lower_char (take (length x) s) ! (length x - 1) = map lower_char x ! (length x - 1)"
    using eq by simp
  with assms(2) len show "lower_char (s ! (length x - 1)) = lower_char (last x)"
    by (simp add: last_conv_nth)
qed

lemma word_char_same: "lower_char c = lower_char d \<Longrightarrow> word_char c = word_char d"
  by (metis word_char_lower)

text \<open>
  The character before a place in the redacted text, against the one before it in the original:
  the same, or the original one ended a redacted word.
\<close>

definition compat :: "char option \<Rightarrow> char option \<Rightarrow> string \<Rightarrow> bool" where
  "compat p p' s \<longleftrightarrow> p' = p \<or> (\<exists>c. p = Some c \<and> (word_char c \<longrightarrow> \<not> opt_word (head_of s)))"

lemma compat_after_match:
  assumes "match_secret p y (c # s)" and "y \<noteq> []"
  shows "compat (Some ((c # s) ! (length y - 1))) p' (drop (length y - 1) s)"
proof -
  have "drop (length y - 1) s = drop (length y) (c # s)" using assms(2) by (cases y) auto
  moreover have "word_char ((c # s) ! (length y - 1)) = word_char (last y)"
    using match_secret_hd(2) [OF assms] by (rule word_char_same)
  ultimately show ?thesis using assms(1) by (simp add: compat_def match_secret_def)
qed

text \<open>A stretch of the output without characters of the replacement is copied.\<close>

lemma redact_copied:
  assumes "n \<le> length (redact y r p s)" and "r \<noteq> []"
    and "\<forall>c \<in> set (take n (redact y r p s)). lower_char c \<notin> lower_char ` set r"
  shows "n \<le> length s \<and> take n (redact y r p s) = take n s \<and>
    drop n (redact y r p s) = redact y r (if n = 0 then p else Some (s ! (n - 1))) (drop n s)"
  using assms
proof (induction n arbitrary: p s)
  case (Suc n)
  then obtain c s' where s: "s = c # s'" by (cases s) auto
  have no: "\<not> (y \<noteq> [] \<and> match_secret p y (c # s'))"
  proof
    assume "y \<noteq> [] \<and> match_secret p y (c # s')"
    then have "redact y r p s = r @ redact y r (Some ((c # s') ! (length y - 1))) (drop (length y - 1) s')"
      using s by simp
    with Suc.prems(2,3) show False by (cases r) auto
  qed
  then have out: "redact y r p s = c # redact y r (Some c) s'" using s by auto
  with Suc.prems have "n \<le> length (redact y r (Some c) s')"
    "\<forall>d \<in> set (take n (redact y r (Some c) s')). lower_char d \<notin> lower_char ` set r" by auto
  from Suc.IH [OF this(1) Suc.prems(2) this(2)] out s show ?case
    by (cases n) (auto simp: nth_Cons')
qed simp

lemma match_through:
  assumes m: "match_secret p' x (redact y r p s)" and "apart x r" and "x \<noteq> []" and "compat p p' s"
  shows "match_secret p x s"
proof -
  let ?t = "redact y r p s" and ?n = "length x"
  have "lower_char c \<notin> lower_char ` set r" if "c \<in> set (take ?n ?t)" for c
    using match_secret_take(2) [OF m that] assms(2) by (auto simp: apart_def)
  with redact_copied [OF match_secret_take(1) [OF m]] assms(2,3)
  have len: "?n \<le> length s" and same: "take ?n ?t = take ?n s"
    and rest: "drop ?n ?t = redact y r (Some (s ! (?n - 1))) (drop ?n s)" by (auto simp: apart_def)
  have eq: "map lower_char (take ?n s) = map lower_char x" using m same by (simp add: match_secret_def)
  obtain c t where s: "s = c # t" using len assms(3) by (cases s) auto
  have hd: "word_char c = word_char (hd x)"
    using eq s assms(3) by (intro word_char_same) (cases x; auto)
  have "lower_char (s ! (?n - 1)) = lower_char (last x)"
    using arg_cong [OF eq, of "\<lambda>l. l ! (?n - 1)"] len assms(3) by (simp add: last_conv_nth)
  then have lst: "word_char (s ! (?n - 1)) = word_char (last x)" by (rule word_char_same)
  have before: "\<not> opt_word p" if "word_char (hd x)"
    using m assms(4) that hd s by (auto simp: match_secret_def compat_def opt_word_def head_of_def)
  have after: "\<not> opt_word (head_of (drop ?n s))" if w: "word_char (last x)"
  proof (cases "drop ?n s")
    case Nil
    then show ?thesis by (simp add: head_of_def opt_word_def)
  next
    case (Cons d u)
    show ?thesis
    proof (cases "y \<noteq> [] \<and> match_secret (Some (s ! (?n - 1))) y (d # u)")
      case True
      then have "\<not> word_char (hd y)" using lst w by (auto simp: match_secret_def opt_word_def)
      moreover have "word_char d = word_char (hd y)"
        using match_secret_hd(1) [of "Some (s ! (?n - 1))" y "d # u"] True by (intro word_char_same) auto
      ultimately show ?thesis using Cons by (simp add: head_of_def opt_word_def)
    next
      case False
      with rest Cons have "head_of (drop ?n ?t) = Some d" by (auto simp: head_of_def)
      with m w Cons show ?thesis by (simp add: match_secret_def head_of_def)
    qed
  qed
  from eq before after show ?thesis by (simp add: match_secret_def)
qed

lemma occurs_append_apart:
  assumes "occurs p x (r @ t)" and "apart x r" and "x \<noteq> []"
  shows "occurs (Some (last r)) x t"
proof -
  have "occurs p x (r @ t) \<Longrightarrow> lower_char ` set x \<inter> lower_char ` set r = {} \<Longrightarrow>
      occurs (if r = [] then p else Some (last r)) x t"
  proof (induction r arbitrary: p)
    case (Cons c r)
    have "\<not> match_secret p x (c # r @ t)"
    proof
      assume "match_secret p x (c # r @ t)"
      from match_secret_hd(1) [OF this assms(3)] have "lower_char c \<in> lower_char ` set x"
        using assms(3) by auto
      with Cons.prems(2) show False by auto
    qed
    with Cons show ?case by auto
  qed simp
  with assms(1,2) show ?thesis by (simp add: apart_def)
qed

lemma occurs_drop: "occurs (Some (s ! (k - 1))) x (drop k s) \<Longrightarrow> 0 < k \<Longrightarrow> k \<le> length s \<Longrightarrow> occurs p x s"
proof (induction s arbitrary: k p)
  case (Cons c s)
  then obtain j where k: "k = Suc j" by (cases k) auto
  show ?case
  proof (cases j)
    case 0
    with Cons.prems k show ?thesis by simp
  next
    case (Suc i)
    with Cons.prems k have "occurs (Some (s ! (j - 1))) x (drop j s)" by simp
    from Cons.IH [OF this, of "Some c"] Suc Cons.prems k show ?thesis by simp
  qed
qed simp

text \<open>A pass makes no new occurrence of a secret apart from its replacement.\<close>

lemma occurs_through:
  assumes "occurs p' x (redact y r p s)" and "apart x r" and "x \<noteq> []" and "compat p p' s"
  shows "occurs p x s"
  using assms
proof (induction y r p s arbitrary: p' rule: redact.induct)
  case (2 y r p c s)
  show ?case
  proof (cases "y \<noteq> [] \<and> match_secret p y (c # s)")
    case True
    let ?l = "(c # s) ! (length y - 1)" and ?t = "drop (length y - 1) s"
    from True 2(3) have "occurs p' x (r @ redact y r (Some ?l) ?t)" by simp
    then have "occurs (Some (last r)) x (redact y r (Some ?l) ?t)" by (rule occurs_append_apart [OF _ 2(4,5)])
    then have "occurs (Some ?l) x ?t"
      by (rule 2(1) [OF True _ 2(4,5) compat_after_match]) (use True in auto)
    then have "occurs (Some ?l) x (drop (length y) (c # s))" using True by (cases y) auto
    then show ?thesis by (rule occurs_drop)
      (use True match_secret_take(1) [of p y "c # s"] in auto)
  next
    case False
    with 2(3) consider (here) "match_secret p' x (redact y r p (c # s))" | (later) "occurs (Some c) x (redact y r (Some c) s)"
      by auto
    then show ?thesis
    proof cases
      case here
      then have "match_secret p x (c # s)" by (rule match_through [OF _ 2(4,5,6)])
      then show ?thesis by simp
    next
      case later
      then have "occurs (Some c) x s" by (rule 2(2) [OF False _ \<open>apart x r\<close> \<open>x \<noteq> []\<close>]) (simp add: compat_def)
      then show ?thesis by simp
    qed
  qed
qed simp

text \<open>The pass of the secret itself leaves none.\<close>

lemma redact_removes:
  assumes "apart x r" and "x \<noteq> []" and "compat p p' s"
  shows "\<not> occurs p' x (redact x r p s)"
  using assms
proof (induction x r p s arbitrary: p' rule: redact.induct)
  case (2 x r p c s)
  show ?case
  proof (cases "match_secret p x (c # s)")
    case True
    let ?l = "(c # s) ! (length x - 1)" and ?t = "drop (length x - 1) s"
    have "\<not> occurs (Some (last r)) x (redact x r (Some ?l) ?t)"
      by (rule 2(1) [OF _ 2(3,4) compat_after_match]) (use True 2(4) in auto)
    then have "\<not> occurs p' x (r @ redact x r (Some ?l) ?t)" using occurs_append_apart [OF _ 2(3,4)] by blast
    with True 2(4) show ?thesis by simp
  next
    case False
    have "\<not> match_secret p' x (redact x r p (c # s))"
      using match_through [OF _ 2(3,4,5)] False by blast
    moreover have "\<not> occurs (Some c) x (redact x r (Some c) s)"
      by (rule 2(2) [OF _ 2(3,4)]) (use False in \<open>auto simp: compat_def\<close>)
    ultimately show ?thesis using False by simp
  qed
qed simp

lemma redact_one_keeps:
  "\<not> occurs None x s \<Longrightarrow> apart x (snd r) \<Longrightarrow> x \<noteq> [] \<Longrightarrow> \<not> occurs None x (redact_one r s)"
  using occurs_through [of None x "fst r" "snd r" None s]
  by (auto simp: redact_one_def compat_def)

lemma fold_redact_one_keeps:
  "\<not> occurs None x s \<Longrightarrow> \<forall>r \<in> set rs. apart x (snd r) \<Longrightarrow> x \<noteq> [] \<Longrightarrow> \<not> occurs None x (fold redact_one rs s)"
  by (induction rs arbitrary: s) (auto simp: redact_one_keeps)

text \<open>
  A secret does not occur after the loop if no replacement made at or after its own turn shares a
  character with it: those are the replacements of secrets no longer than it.
\<close>

lemma redact_all_removes:
  assumes "(x, rep) \<in> set redactions" and "x \<noteq> []"
    and "\<forall>(y, r) \<in> set redactions. length y \<le> length x \<longrightarrow> apart x r"
  shows "\<not> occurs None x (redact_all redactions m)"
proof -
  let ?rs = "sort_key (\<lambda>r. - int (length (fst r))) redactions"
  have "(x, rep) \<in> set ?rs" using assms(1) by simp
  then obtain pre post where rs: "?rs = pre @ (x, rep) # post" by (metis split_list)
  have "sorted (map (\<lambda>r. - int (length (fst r))) ?rs)" by simp
  then have later: "length (fst r) \<le> length x" if "r \<in> set post" for r
    using that by (simp only: rs) (auto simp: sorted_append)
  have apart: "apart x (snd r)" if "r \<in> set ((x, rep) # post)" for r
  proof -
    have "r \<in> set ?rs" using that rs by auto
    then have "r \<in> set redactions" by simp
    with assms(3) later that show ?thesis by (cases r) auto
  qed
  have "\<not> occurs None x (redact_one (x, rep) (fold redact_one pre m))"
    using redact_removes [of x rep None None] apart [of "(x, rep)"] assms(2)
    by (simp add: redact_one_def compat_def)
  then have "\<not> occurs None x (fold redact_one post (redact_one (x, rep) (fold redact_one pre m)))"
    using apart assms(2) by (intro fold_redact_one_keeps) auto
  then show ?thesis by (simp add: redact_all_def rs)
qed

text \<open>What \<open>secrets_for\<close> finds: the credentials, as they are and quoted.\<close>

lemma note_secret_keys:
  "fst ` set (note_secret e found) = fst ` set found \<union>
     (if truthy_text (fst e) then {the (fst e), url_quote (the (fst e))} else {})"
  by (cases e) (auto simp: note_secret_def dom_update)

lemma secrets_for_credentials:
  assumes "make_url url = Some u" and "v \<in> {url_password u, url_username u, url_host u}" and "truthy_text v"
  shows "{the v, url_quote (the v)} \<subseteq> fst ` set (secrets_for make_url url alias)"
  using assms by (auto simp: secrets_for_def note_secret_keys)

section \<open>Properties\<close>

text \<open>
  C27. Credentials do not survive redaction: a password or user name of the connection URL, as it
  is or quoted, occurs nowhere in a redacted message, in any case, as a whole word at the edges
  where it is one; provided no replacement made for a secret that is not longer shares a
  character with it.
\<close>

theorem credentials_redacted:
  assumes "make_url url = Some u" and "v \<in> {url_password u, url_username u}" and "truthy_text v"
    and "x \<in> {the v, url_quote (the v)}" and "x \<noteq> []"
    and "\<forall>(y, r) \<in> set (secrets_for make_url url alias). length y \<le> length x \<longrightarrow> apart x r"
  shows "\<not> occurs None x (redact_all (secrets_for make_url url alias) message)"
proof -
  have "x \<in> fst ` set (secrets_for make_url url alias)"
    using secrets_for_credentials [of make_url url u v "alias"] assms(1-4) by blast
  then obtain rep where "(x, rep) \<in> set (secrets_for make_url url alias)" by force
  then show ?thesis by (rule redact_all_removes [OF _ assms(5,6)])
qed

definition sample_url :: url_parser where
  "sample_url s = Some \<lparr>url_drivername = ''mssql+pyodbc'', url_username = Some ''sa'',
     url_password = Some ''pw1'', url_host = Some ''dbhost''\<rparr>"

theorem credentials_redacted_witness:
  "\<not> occurs None ''pw1'' (redact_all (secrets_for sample_url [] ''prod'') ''login sa PW1 failed at dbhost'')"
proof (rule credentials_redacted [where v = "Some ''pw1''" and u = "the (sample_url [])"])
  show "\<forall>(y, r) \<in> set (secrets_for sample_url [] ''prod''). length y \<le> length ''pw1'' \<longrightarrow> apart ''pw1'' r"
  proof -
    have "secrets_for sample_url [] ''prod'' = [(''pw1'', ''***''), (''sa'', ''***''), (''dbhost'', ''prod'')]" by code_simp
    moreover have "apart ''pw1'' ''***''" by code_simp
    ultimately show ?thesis by simp
  qed
qed (simp_all add: sample_url_def truthy_text_def)

text \<open>
  The message of a log line is one line of bounded length: it has no control character and
  at most 500 characters and an ellipsis, whatever the driver said.
\<close>

theorem log_message_is_one_line:
  "list_all (\<lambda>c. \<not> is_control c) (log_message redactions message) \<and>
   length (log_message redactions message) \<le> MAX_MESSAGE_CHARS + 3"
  by (rule log_message_clean)

text \<open>
  The description around the message is not one: where the first two arguments are texts, the first
  is in the line as it is, with its line breaks, at any length and with any of the secrets.
\<close>

theorem log_line_keeps_first_argument:
  assumes "ex_args x = ArgStr s # ArgStr m # rest"
  shows "\<exists>message. describe_error x redactions = Inr (ex_class x @ '' sqlstate='' @ s @ '' message='' @ message) \<and>
    list_all (\<lambda>c. \<not> is_control c) message \<and> length message \<le> MAX_MESSAGE_CHARS + 3"
  using assms log_message_clean [of redactions m] by (simp add: describe_error_def driver_parts_def)

end
