(* ===== verification/Run_Log.thy ===== *)
theory Run_Log
  imports Driver_Errors Diagnostics
begin

text \<open>
  The log records of \<open>service.py\<close>: what \<open>_run\<close>, \<open>_classified\<close> and \<open>_unexpected\<close> hand to
  the logger for each outcome of an operation.  The name of an exception's class and the
  elapsed milliseconds are arguments.
\<close>

section \<open>Records\<close>

datatype log_severity = LogDebug | LogInfo | LogWarning | LogError

record log_line =
  lg_severity :: log_severity
  lg_text :: string

text \<open>\<open>value or "-"\<close>.\<close>

definition or_dash :: "string option \<Rightarrow> string" where
  "or_dash v = (if truthy_text v then the v else ''-'')"

text \<open>What every record names: the server, the database and the operation.\<close>

definition log_place :: "string \<Rightarrow> string option \<Rightarrow> string \<Rightarrow> string" where
  "log_place alias database operation =
     ''server='' @ alias @ '' database='' @ or_dash database @ '' operation='' @ operation"

text \<open>
  \<open>_classified\<close>: the error, logged with the redacted description of its cause; making the
  description may raise.  The outcome is the exception that leaves the handler and the records.
\<close>

definition classified_text :: "string \<Rightarrow> string option \<Rightarrow> string \<Rightarrow> domain_error \<Rightarrow> string \<Rightarrow> string" where
  "classified_text alias database operation error description =
     ''operation failed '' @ log_place alias database operation
       @ '' code='' @ error_code_text (de_code error) @ '' reference='' @ or_dash (de_correlation_id error)
       @ '' error='' @ description"

definition classified :: "(string \<times> string) list \<Rightarrow> string \<Rightarrow> string option \<Rightarrow> string \<Rightarrow> domain_error
    \<Rightarrow> exc_info \<Rightarrow> exn \<times> log_line list" where
  "classified secrets alias database operation error cause = (case describe_error cause secrets of
       Inl v \<Rightarrow> (v, [])
     | Inr description \<Rightarrow> (Domain error, [\<lparr>lg_severity = LogWarning,
         lg_text = classified_text alias database operation error description\<rparr>]))"

text \<open>\<open>_unexpected\<close>: only the class of the cause.\<close>

definition unexpected_log :: "string \<Rightarrow> string \<Rightarrow> string option \<Rightarrow> string \<Rightarrow> string \<Rightarrow> string \<Rightarrow> log_line" where
  "unexpected_log message alias database operation cause_class ref = \<lparr>lg_severity = LogError,
     lg_text = message @ ''; '' @ log_place alias database operation
       @ '' error_class='' @ cause_class @ '' reference='' @ ref\<rparr>"

definition success_log :: "string \<Rightarrow> string option \<Rightarrow> string \<Rightarrow> int \<Rightarrow> log_line" where
  "success_log alias database operation elapsed = \<lparr>lg_severity = LogInfo,
     lg_text = ''operation ok '' @ log_place alias database operation @ '' elapsed_ms='' @ str_int elapsed\<rparr>"

section \<open>The handlers\<close>

text \<open>\<open>_unexpected\<close>: the generic error, logged with the class of its cause.\<close>

definition unexpected :: "string \<Rightarrow> string \<Rightarrow> string option \<Rightarrow> string \<Rightarrow> string \<Rightarrow> string \<Rightarrow> exn \<times> log_line list" where
  "unexpected message alias database operation cause_class ref =
     (Domain (unexpected_error ref), [unexpected_log message alias database operation cause_class ref])"

text \<open>
  The handlers of \<open>_run\<close>, in their order: the exception that leaves them, and their records.
\<close>

fun run_failure :: "(exn \<Rightarrow> string) \<Rightarrow> (string \<times> string) list \<Rightarrow> string \<Rightarrow> string option \<Rightarrow> string \<Rightarrow> string
    \<Rightarrow> exn \<Rightarrow> exn \<times> log_line list" where
  "run_failure class_name secrets alias database operation ref (Domain e) = (Domain e, [])"
| "run_failure class_name secrets alias database operation ref (SqlaTimeout x) =
     classified secrets alias database operation (timeout_error ref) x"
| "run_failure class_name secrets alias database operation ref (Dbapi operational x) =
     (case classify_dbapi_error operational x ref of
        Inl v \<Rightarrow> (v, [])
      | Inr (Some e) \<Rightarrow> classified secrets alias database operation e x
      | Inr None \<Rightarrow> unexpected ''Database operation failed'' alias database operation
          (class_name (Dbapi operational x)) ref)"
| "run_failure class_name secrets alias database operation ref (SqlaError x) =
     unexpected ''SQLAlchemy operation failed'' alias database operation (class_name (SqlaError x)) ref"
| "run_failure class_name secrets alias database operation ref NoSuchTable =
     unexpected ''SQLAlchemy operation failed'' alias database operation (class_name NoSuchTable) ref"
| "run_failure class_name secrets alias database operation ref e =
     unexpected ''Unexpected database operation failure'' alias database operation (class_name e) ref"

section \<open>What the caller gets\<close>

text \<open>The exception that leaves the handlers depends on the exception and the fresh id only.\<close>

definition described_error :: "domain_error \<Rightarrow> exc_info \<Rightarrow> exn" where
  "described_error e x = (case driver_parts x of Inl v \<Rightarrow> v | Inr _ \<Rightarrow> Domain e)"

fun run_error :: "string \<Rightarrow> exn \<Rightarrow> exn" where
  "run_error ref (Domain e) = Domain e"
| "run_error ref (SqlaTimeout x) = described_error (timeout_error ref) x"
| "run_error ref (Dbapi operational x) = (case classify_dbapi_error operational x ref of
       Inl v \<Rightarrow> v
     | Inr (Some e) \<Rightarrow> described_error e x
     | Inr None \<Rightarrow> Domain (unexpected_error ref))"
| "run_error ref e = Domain (unexpected_error ref)"

lemma classified_error: "fst (classified secrets a d op e x) = described_error e x"
  by (auto simp: classified_def described_error_def describe_error_def split: sum.splits)

lemma run_failure_error [simp]: "fst (run_failure class_name secrets a d op ref e) = run_error ref e"
  by (cases e) (auto simp: classified_error unexpected_def split: sum.splits option.splits)

lemma run_failure_raised:
  "run_failure class_name secrets a d op ref e = (raised, lines) \<Longrightarrow> raised = run_error ref e"
  using run_failure_error by (metis fst_conv)

text \<open>An exception raised by the handlers themselves is that of a number of too many digits.\<close>

definition overlong_argument :: "exc_info \<Rightarrow> bool" where
  "overlong_argument x \<longleftrightarrow> (\<exists>s. ArgStr s \<in> set (ex_args x) \<and> overlong_text s) \<or>
     (\<exists>i. ArgInt i \<in> set (ex_args x) \<and> too_long i)"

lemma described_error_cases:
  "described_error e x = Domain e \<or> described_error e x = digits_error \<and> overlong_argument x"
  by (auto simp: described_error_def overlong_argument_def split: sum.splits dest!: driver_parts_Inl)

lemma classify_overlong: "classify_dbapi_error op x ref = Inl v \<Longrightarrow> v = digits_error \<and> overlong_argument x"
  by (auto simp: overlong_argument_def dest!: classify_Inl)

definition overlong_cause :: "exn \<Rightarrow> bool" where
  "overlong_cause e \<longleftrightarrow> (case e of SqlaTimeout x \<Rightarrow> overlong_argument x
     | Dbapi operational x \<Rightarrow> overlong_argument x | _ \<Rightarrow> False)"

lemma run_error_cases:
  assumes "\<not> is_domain e"
  shows "(\<exists>d \<in> fixed_errors ref. run_error ref e = Domain d) \<or>
    run_error ref e = digits_error \<and> overlong_cause e"
proof (cases e)
  case (SqlaTimeout x)
  with described_error_cases [of "timeout_error ref" x] show ?thesis
    by (auto simp: fixed_errors_def overlong_cause_def)
next
  case (Dbapi op x)
  show ?thesis
  proof (cases "classify_dbapi_error op x ref")
    case (Inl v)
    with Dbapi classify_overlong [OF Inl] show ?thesis by (simp add: overlong_cause_def)
  next
    case (Inr c)
    with Dbapi show ?thesis
    proof (cases c)
      case (Some d)
      with Inr have "d \<in> fixed_errors ref" by (simp add: classify_fixed)
      with described_error_cases [of d x] Dbapi Inr Some show ?thesis by (auto simp: overlong_cause_def)
    qed (simp add: fixed_errors_def)
  qed
qed (use assms in \<open>simp_all add: fixed_errors_def\<close>)

lemma run_error_domain_or_digits: "is_domain (run_error ref e) \<or> run_error ref e = digits_error"
  using run_error_cases [of e ref] by (cases e) auto

section \<open>What a record can hold\<close>

text \<open>The errors whose cause is described in the log.\<close>

definition classified_cause :: "string \<Rightarrow> exn \<Rightarrow> (domain_error \<times> exc_info) option" where
  "classified_cause ref e = (case e of
       SqlaTimeout x \<Rightarrow> Some (timeout_error ref, x)
     | Dbapi operational x \<Rightarrow> (case classify_dbapi_error operational x ref of
         Inr (Some d) \<Rightarrow> Some (d, x) | _ \<Rightarrow> None)
     | _ \<Rightarrow> None)"

text \<open>
  The records of a failure: none for a domain error and where the handler itself raised; one with
  the description of the cause for a classified cause; one of a fixed text with the class of the
  cause for every other.
\<close>

definition recorded :: "(exn \<Rightarrow> string) \<Rightarrow> (string \<times> string) list \<Rightarrow> string \<Rightarrow> string option \<Rightarrow> string \<Rightarrow> string
    \<Rightarrow> exn \<Rightarrow> domain_error \<Rightarrow> log_line \<Rightarrow> bool" where
  "recorded class_name secrets alias database operation ref cause error line \<longleftrightarrow>
     (case classified_cause ref cause of
        Some (d, x) \<Rightarrow> error = d \<and> (\<exists>text. describe_error x secrets = Inr text \<and>
          line = \<lparr>lg_severity = LogWarning, lg_text = classified_text alias database operation d text\<rparr>)
      | None \<Rightarrow> error = unexpected_error ref \<and>
          (\<exists>msg \<in> {''Database operation failed'', ''SQLAlchemy operation failed'', ''Unexpected database operation failure''}.
             line = unexpected_log msg alias database operation (class_name cause) ref))"

lemma classified_recorded:
  assumes "classified secrets a d op e x = (out, lines)"
  shows "(\<exists>text line. out = Domain e \<and> lines = [line] \<and> describe_error x secrets = Inr text \<and>
      line = \<lparr>lg_severity = LogWarning, lg_text = classified_text a d op e text\<rparr>) \<or>
    out = digits_error \<and> lines = []"
  using assms
  by (auto simp: classified_def describe_error_Inl split: sum.splits dest: driver_parts_Inl)

lemma run_failure_records:
  assumes "\<not> is_domain cause" and "run_failure class_name secrets a d op ref cause = (out, lines)"
  shows "(\<exists>error line. out = Domain error \<and> lines = [line] \<and>
      recorded class_name secrets a d op ref cause error line) \<or>
    out = digits_error \<and> lines = []"
proof (cases cause)
  case (SqlaTimeout x)
  with assms(2) have "classified secrets a d op (timeout_error ref) x = (out, lines)" by simp
  from classified_recorded [OF this] SqlaTimeout show ?thesis
    by (auto simp: recorded_def classified_cause_def)
next
  case (Dbapi operational x)
  show ?thesis
  proof (cases "classify_dbapi_error operational x ref")
    case (Inl v)
    with Dbapi assms(2) classify_overlong [OF Inl] show ?thesis by simp
  next
    case (Inr c)
    show ?thesis
    proof (cases c)
      case None
      with Dbapi Inr assms(2) show ?thesis by (auto simp: unexpected_def recorded_def classified_cause_def)
    next
      case (Some e)
      with Dbapi Inr assms(2) have "classified secrets a d op e x = (out, lines)" by simp
      from classified_recorded [OF this] Dbapi Inr Some show ?thesis
        by (auto simp: recorded_def classified_cause_def)
    qed
  qed
qed (use assms in \<open>auto simp: unexpected_def recorded_def classified_cause_def\<close>)

text \<open>Every record names the reference of the error that the caller gets.\<close>

definition names_reference :: "log_line \<Rightarrow> string option \<Rightarrow> bool" where
  "names_reference line ref \<longleftrightarrow> (\<exists>pre post. lg_text line = pre @ '' reference='' @ or_dash ref @ post)"

lemma names_referenceI: "lg_text line = pre @ '' reference='' @ or_dash ref @ post \<Longrightarrow> names_reference line ref"
  unfolding names_reference_def by blast

lemma recorded_reference:
  assumes "recorded class_name secrets a d op ref cause error line" and "ref \<noteq> []"
  shows "names_reference line (de_correlation_id error)"
proof (cases "classified_cause ref cause")
  case None
  with assms(1) obtain msg where "error = unexpected_error ref" and "line = unexpected_log msg a d op (class_name cause) ref"
    by (auto simp: recorded_def)
  moreover have "lg_text (unexpected_log msg a d op (class_name cause) ref) =
      (msg @ ''; '' @ log_place a d op @ '' error_class='' @ class_name cause) @ '' reference='' @ ref @ []"
    by (simp add: unexpected_log_def)
  moreover have "or_dash (de_correlation_id (unexpected_error ref)) = ref"
    using assms(2) by (simp add: unexpected_error_def or_dash_def truthy_text_def)
  ultimately show ?thesis by (metis names_referenceI)
next
  case (Some c)
  with assms(1) obtain descr where "lg_text line = classified_text a d op error descr"
    by (auto simp: recorded_def split: prod.splits)
  moreover have "classified_text a d op error descr = (''operation failed '' @ log_place a d op @ '' code='' @
      error_code_text (de_code error)) @ '' reference='' @ or_dash (de_correlation_id error) @ '' error='' @ descr"
    by (simp add: classified_text_def)
  ultimately show ?thesis by (metis names_referenceI)
qed

section \<open>Properties\<close>

text \<open>
  C32. Driver errors are opaque: the exception that a failed run raises is a domain error passed on
  as it is, or one of four fixed errors, whose message has nothing of the driver's exception and
  whose reference is the fresh one, retryable exactly for a timeout or a failed connection.  The one
  exception that is none of these is the \<open>ValueError\<close> of Python for numbers of more than
  4300 digits, and then the driver's exception held such a number in its arguments.
\<close>

theorem driver_errors_are_opaque:
  "case e of Domain d \<Rightarrow> fst (run_failure class_name secrets alias database operation ref e) = Domain d
   | _ \<Rightarrow> (\<exists>d \<in> {timeout_error ref, connection_error ref, denied_error, unexpected_error ref}.
        fst (run_failure class_name secrets alias database operation ref e) = Domain d \<and>
        (de_retryable d \<longleftrightarrow> de_code d \<in> {TIMEOUT, CONNECTION_FAILED}) \<and> de_correlation_id d \<in> {None, Some ref}) \<or>
      fst (run_failure class_name secrets alias database operation ref e) = digits_error \<and> overlong_cause e"
  unfolding run_failure_error
proof (cases "is_domain e")
  case False
  from run_error_cases [OF this, of ref]
  have "(\<exists>d \<in> {timeout_error ref, connection_error ref, denied_error, unexpected_error ref}.
        run_error ref e = Domain d \<and> (de_retryable d \<longleftrightarrow> de_code d \<in> {TIMEOUT, CONNECTION_FAILED}) \<and>
        de_correlation_id d \<in> {None, Some ref}) \<or>
      run_error ref e = digits_error \<and> overlong_cause e"
    using fixed_errors_retryable unfolding fixed_errors_def by blast
  with False show "case e of Domain d \<Rightarrow> run_error ref e = Domain d
   | _ \<Rightarrow> (\<exists>d \<in> {timeout_error ref, connection_error ref, denied_error, unexpected_error ref}.
        run_error ref e = Domain d \<and> (de_retryable d \<longleftrightarrow> de_code d \<in> {TIMEOUT, CONNECTION_FAILED}) \<and>
        de_correlation_id d \<in> {None, Some ref}) \<or>
      run_error ref e = digits_error \<and> overlong_cause e" by (cases e) simp_all
qed (cases e; simp)

text \<open>
  It does happen: a driver error whose text has a number of 4301 digits in parentheses leaves the
  handlers as a \<open>ValueError\<close>.
\<close>

lemma takeWhile_replicate: "P c \<Longrightarrow> \<not> P d \<Longrightarrow> takeWhile P (replicate n c @ d # s) = replicate n c"
  by (induction n) simp_all

lemma dropWhile_replicate: "P c \<Longrightarrow> \<not> P d \<Longrightarrow> dropWhile P (replicate n c @ d # s) = d # s"
  by (induction n) simp_all

theorem long_codes_escape:
  assumes "n > INT_MAX_STR_DIGITS"
  shows "run_failure class_name secrets alias database operation ref (Dbapi operational
    \<lparr>ex_class = name, ex_args = [ArgStr (''('' @ replicate n (CHR ''9'') @ '')'')], ex_text = t\<rparr>) = (digits_error, [])"
proof -
  have dig: "is_ascii_digit (CHR ''9'')" "\<not> is_ascii_digit (CHR '')'')" by (simp_all add: is_ascii_digit_def)
  obtain m where n: "n = Suc m" using assms by (cases n) auto
  have "match_code (''('' @ replicate n (CHR ''9'') @ '')'') = Some (replicate n (CHR ''9''))"
    using takeWhile_replicate [of is_ascii_digit "CHR ''9''" "CHR '')''" m "[]"]
      dropWhile_replicate [of is_ascii_digit "CHR ''9''" "CHR '')''" m "[]"] dig
    by (simp add: match_code_def n Let_def)
  then have "replicate n (CHR ''9'') \<in> set (code_texts (''('' @ replicate n (CHR ''9'') @ '')''))" by simp
  moreover have "parse_signed (replicate n (CHR ''9'')) = Inl digits_error"
    using assms dig(1) by (simp add: n parse_signed_def parse_digits_def int_of_digits_def list_all_iff)
  ultimately have "\<exists>e. native_codes_in (''('' @ replicate n (CHR ''9'') @ '')'') = Inl e"
    by (cases "native_codes_in (''('' @ replicate n (CHR ''9'') @ '')'')")
      (auto simp: native_codes_in_def rmap_eq_Inr_iff list_all2_conv_all_nth in_set_conv_nth)
  with native_codes_in_Inl have "native_codes_in (''('' @ replicate n (CHR ''9'') @ '')'') = Inl digits_error" by blast
  then show ?thesis by (simp add: classify_dbapi_error_def driver_codes_def)
qed

end
