(* ===== verification/Service.thy ===== *)
theory Service
  imports Pipeline Registry Extras Run_Log
begin

text \<open>
  \<open>service.py\<close>: the operations of \<open>DatabaseService\<close>.  Parameters are the connections an engine
  opens, the random nonces, the fresh error ids, the elapsed times and the libraries of the
  pipeline; the state is the engine registry, the schema cache with its clock, how many
  connections and ids have been drawn, and the records of the log.
\<close>

section \<open>Parameters and state\<close>

text \<open>What one connection answers.\<close>

record db_connection =
  dc_inspector :: inspector
  dc_query :: text_query
  dc_driver :: connection

text \<open>
  \<open>sv_connect n e\<close> is the \<open>n\<close>-th connection opened, of engine \<open>e\<close>: databases may change and
  fail from one connection to the next.
\<close>

record service =
  sv_config :: app_config
  sv_codecs :: key_registry
  sv_create :: "engine_options \<Rightarrow> unit result"
  sv_connect :: "nat \<Rightarrow> db_engine \<Rightarrow> db_connection result"
  sv_sqlglot :: sqlglot
  sv_aead :: aead
  sv_nonces :: "nat \<Rightarrow> nat \<Rightarrow> bytes"
  sv_marker_nonce :: "nat \<Rightarrow> string"
  sv_ref :: "nat \<Rightarrow> string"
  sv_make_url :: url_parser
  sv_class_name :: "exn \<Rightarrow> string"
  sv_elapsed :: "nat \<Rightarrow> int"

record service_state =
  ss_registry :: engine_registry
  ss_catalog :: catalog_state
  ss_connects :: nat
  ss_refs :: nat
  ss_log :: "log_line list"

definition SCHEMA_CACHE_ENTRIES :: int where
  "SCHEMA_CACHE_ENTRIES = 1024"

text \<open>The time-to-live of 300 seconds, in microseconds of the clock.\<close>

definition SCHEMA_CACHE_TTL :: int where
  "SCHEMA_CACHE_TTL = 300000000"

text \<open>\<open>__init__\<close>: the codecs of the configuration and empty stores.\<close>

definition new_state :: "(nat \<Rightarrow> int) \<Rightarrow> service_state" where
  "new_state clock = \<lparr>ss_registry = new_registry,
     ss_catalog = \<lparr>cst_cache = \<lparr>sca_max_entries = SCHEMA_CACHE_ENTRIES, sca_ttl = SCHEMA_CACHE_TTL,
       sca_entries = []\<rparr>, cst_clock = clock, cst_reads = 0\<rparr>,
     ss_connects = 0, ss_refs = 0, ss_log = []\<rparr>"

definition codecs_ok :: "service \<Rightarrow> bool" where
  "codecs_ok sv \<longleftrightarrow> registry_from_config (sv_config sv) = Inr (sv_codecs sv)"

section \<open>Servers and access levels\<close>

definition unknown_server_error :: "string \<Rightarrow> domain_error" where
  "unknown_server_error alias = make_error UNKNOWN_SERVER
     (''Unknown configured server '' @ py_repr alias @ ''.'')
     (Some ''Call list_servers to discover configured aliases.'')"

text \<open>\<open>_server\<close>.\<close>

definition server_for :: "service \<Rightarrow> string \<Rightarrow> server_config result" where
  "server_for sv alias = (case map_of (ac_servers (sv_config sv)) alias of
     None \<Rightarrow> Inl (Domain (unknown_server_error alias)) | Some s \<Rightarrow> Inr s)"

definition code_access_error :: domain_error where
  "code_access_error = make_error ACCESS_LEVEL_DENIED
     (''Stored procedure tools are available only for meta_and_code or '' @ ''all_pii_safe servers.'')
     (Some ''Use a server configured with access_level meta_and_code or all_pii_safe.'')"

definition require_meta_and_code_access :: "server_config \<Rightarrow> unit result" where
  "require_meta_and_code_access s = raise_if (sc_access_level s = METADATA) (Domain code_access_error)"

definition sql_access_error :: domain_error where
  "sql_access_error = make_error ACCESS_LEVEL_DENIED
     ''execute_sql is available only for all_pii_safe servers.''
     (Some ''Use a server configured with access_level all_pii_safe.'')"

section \<open>Running an operation\<close>

type_synonym 'a service_call = "(service_state, exn, 'a) stateful"

type_synonym 'a db_operation = "db_connection \<Rightarrow> nat \<Rightarrow> (catalog_state, exn, 'a) stateful"

text \<open>\<open>with engine.connect() as connection\<close>: the operation on the next connection.\<close>

definition with_connection :: "service \<Rightarrow> 'a db_operation \<Rightarrow> db_engine
    \<Rightarrow> (catalog_state \<times> nat, exn, 'a) stateful" where
  "with_connection sv operation e w = (case w of (cat, n) \<Rightarrow>
     (case sv_connect sv n e of
        Inl x \<Rightarrow> (Inl x, cat, Suc n)
      | Inr c \<Rightarrow> (case operation c n cat of (r, cat') \<Rightarrow> (r, cat', Suc n))))"

text \<open>
  \<open>_run\<close>: an exception that is not a domain error is handled as \<open>run_failure\<close> says, with a fresh id,
  and every outcome but a domain error is logged.
\<close>

definition service_run :: "service \<Rightarrow> string \<Rightarrow> string option \<Rightarrow> string \<Rightarrow> 'a db_operation \<Rightarrow> 'a service_call" where
  "service_run sv alias database name operation =
     sbind (slift (server_for sv alias)) (\<lambda>server st.
       case registry_run (sv_config sv) (sv_create sv) alias database (with_connection sv operation)
           (ss_registry st, ss_catalog st, ss_connects st) of
         (r, reg, cat, n) \<Rightarrow>
           let st' = st\<lparr>ss_registry := reg, ss_catalog := cat, ss_connects := n\<rparr> in
           (case r of
              Inr x \<Rightarrow> (Inr x, st'\<lparr>ss_log := ss_log st @
                [success_log alias database name (sv_elapsed sv (length (ss_log st)))]\<rparr>)
            | Inl e \<Rightarrow>
                let ref = sv_ref sv (ss_refs st);
                    secrets = secrets_for (sv_make_url sv) (sc_connection_url server) alias in
                (case run_failure (sv_class_name sv) secrets alias database name ref e of (raised, lines) \<Rightarrow>
                  (Inl raised, st'\<lparr>ss_refs := Suc (ss_refs st), ss_log := ss_log st @ lines\<rparr>))))"

section \<open>Listing\<close>

record server_summary =
  sm_name :: string
  sm_engine :: engine
  sm_access_level :: access_level

definition list_servers :: "service \<Rightarrow> server_summary list" where
  "list_servers sv = map (\<lambda>(alias, s). \<lparr>sm_name = alias, sm_engine = sc_engine s, sm_access_level = sc_access_level s\<rparr>)
     (sort_key (\<lambda>item. casefold (fst item)) (ac_servers (sv_config sv)))"

text \<open>\<open>_contains\<close>, and the filter of a schema name.\<close>

definition contains_text :: "string \<Rightarrow> string option \<Rightarrow> bool" where
  "contains_text v needle \<longleftrightarrow> (case needle of None \<Rightarrow> True | Some n \<Rightarrow> is_substr (casefold n) (casefold v))"

definition folded_schema :: "string option \<Rightarrow> string" where
  "folded_schema s = casefold (case s of None \<Rightarrow> [] | Some t \<Rightarrow> t)"

definition schema_matches :: "string option \<Rightarrow> string option \<Rightarrow> bool" where
  "schema_matches wanted schema \<longleftrightarrow> (case wanted of None \<Rightarrow> True | Some w \<Rightarrow> folded_schema schema = casefold w)"

definition list_databases :: "service \<Rightarrow> string \<Rightarrow> string option \<Rightarrow> string list service_call" where
  "list_databases sv server name_contains =
     sbind (slift (server_for sv server)) (\<lambda>configured.
     sbind (service_run sv server None ''list_databases'' (\<lambda>c n. slift (dx_list_databases (extras_for (sc_engine configured)) (dc_query c))))
       (\<lambda>names. sreturn (filter (\<lambda>name. contains_text name name_contains) (sort_key casefold names))))"

definition select_tables :: "string option \<Rightarrow> string option \<Rightarrow> table_summary list \<Rightarrow> table_summary list" where
  "select_tables schema name_contains tables =
     sort_key (\<lambda>t. (folded_schema (tb_schema t), casefold (tb_name t)))
       (filter (\<lambda>t. schema_matches schema (tb_schema t) \<and> contains_text (tb_name t) name_contains) tables)"

definition list_tables_call :: "service \<Rightarrow> string \<Rightarrow> string \<Rightarrow> string option \<Rightarrow> string option
    \<Rightarrow> table_summary list service_call" where
  "list_tables_call sv server database schema name_contains =
     sbind (slift (server_for sv server)) (\<lambda>_.
     sbind (service_run sv server (Some database) ''list_tables'' (\<lambda>c n. slift (list_tables (dc_inspector c))))
       (\<lambda>tables. sreturn (select_tables schema name_contains tables)))"

section \<open>One table\<close>

definition qualified_name :: "string option \<Rightarrow> string \<Rightarrow> string" where
  "qualified_name schema name = (case schema of None \<Rightarrow> name | Some s \<Rightarrow> s @ ''.'' @ name)"

text \<open>The three outcomes of a lookup by name, shared by tables and procedures.\<close>

definition unique_match :: "string \<Rightarrow> string \<Rightarrow> ('a \<Rightarrow> string) \<Rightarrow> 'a list \<Rightarrow> 'a result" where
  "unique_match what name qualified matches = (case matches of
       [] \<Rightarrow> Inl (Domain (make_error NOT_FOUND (what @ '' '' @ py_repr name @ '' was not found.'') None))
     | [m] \<Rightarrow> Inr m
     | _ \<Rightarrow> Inl (Domain (make_error AMBIGUOUS_OBJECT (what @ '' '' @ py_repr name @ '' is ambiguous.'')
         (Some (''Specify schema; candidates: '' @ join '', '' (map qualified matches) @ ''.'')))))"

text \<open>\<open>_resolve_table\<close>.\<close>

definition resolve_table_name :: "table_summary list \<Rightarrow> string \<Rightarrow> string option \<Rightarrow> table_summary result" where
  "resolve_table_name tables table schema =
     unique_match ''Table'' table (\<lambda>t. qualified_name (tb_schema t) (tb_name t))
       (filter (\<lambda>t. casefold (tb_name t) = casefold table \<and> schema_matches schema (tb_schema t)) tables)"

definition table_definition_call :: "service \<Rightarrow> string \<Rightarrow> string \<Rightarrow> string \<Rightarrow> string option
    \<Rightarrow> table_definition service_call" where
  "table_definition_call sv server database table schema =
     sbind (slift (server_for sv server)) (\<lambda>_.
     service_run sv server (Some database) ''get_table_definition'' (\<lambda>c n. slift (
       rbind (list_tables (dc_inspector c)) (\<lambda>tables.
       rbind (resolve_table_name tables table schema) (\<lambda>selected.
       get_table_definition (dc_inspector c) (tb_schema selected) (tb_name selected))))))"

section \<open>Stored procedures\<close>

definition select_procedures :: "string option \<Rightarrow> string option \<Rightarrow> procedure_summary list \<Rightarrow> procedure_summary list" where
  "select_procedures schema name_contains procedures =
     sort_key (\<lambda>p. (folded_schema (ps_schema p), casefold (ps_name p)))
       (filter (\<lambda>p. schema_matches schema (ps_schema p) \<and> contains_text (ps_name p) name_contains) procedures)"

definition list_procedures_call :: "service \<Rightarrow> string \<Rightarrow> string \<Rightarrow> string option \<Rightarrow> string option
    \<Rightarrow> procedure_summary list service_call" where
  "list_procedures_call sv server database schema name_contains =
     sbind (slift (server_for sv server)) (\<lambda>configured.
     sbind (slift (require_meta_and_code_access configured)) (\<lambda>_.
     sbind (service_run sv server (Some database) ''list_stored_procedures'' (\<lambda>c n. slift
         (dx_list_procedures (extras_for (sc_engine configured)) (dc_query c) database)))
       (\<lambda>procedures. sreturn (select_procedures schema name_contains procedures))))"

definition definition_too_large :: domain_error where
  "definition_too_large = make_error DEFINITION_TOO_LARGE
     ''Stored procedure definition exceeds the configured response limit.'' None"

definition procedure_not_found :: "string \<Rightarrow> domain_error" where
  "procedure_not_found name = make_error NOT_FOUND (''Stored procedure '' @ py_repr name @ '' was not found.'') None"

definition procedure_match :: "procedure_summary list \<Rightarrow> string \<Rightarrow> procedure_summary result" where
  "procedure_match listing name =
     unique_match ''Stored procedure'' name (\<lambda>p. qualified_name (ps_schema p) (ps_name p))
       (filter (\<lambda>p. casefold (ps_name p) = casefold name) listing)"

text \<open>The checks of a definition that was read.\<close>

definition check_definition :: "service \<Rightarrow> string \<Rightarrow> procedure_definition option \<Rightarrow> procedure_definition result" where
  "check_definition sv name found = (case found of
       None \<Rightarrow> Inl (Domain (procedure_not_found name))
     | Some p \<Rightarrow>
         rbind (raise_if (pd_definition p \<noteq> None \<and>
             int (length (the (pd_definition p))) > max_definition_chars (ac_runtime (sv_config sv)))
           (Domain definition_too_large)) (\<lambda>_. Inr p))"

definition procedure_call :: "service \<Rightarrow> string \<Rightarrow> string \<Rightarrow> string \<Rightarrow> string option
    \<Rightarrow> procedure_definition service_call" where
  "procedure_call sv server database name schema =
     sbind (slift (server_for sv server)) (\<lambda>configured.
     sbind (list_procedures_call sv server database schema None) (\<lambda>listing.
     sbind (slift (procedure_match listing name)) (\<lambda>selected.
     sbind (service_run sv server (Some database) ''get_stored_procedure'' (\<lambda>c n. slift
         (dx_get_procedure (extras_for (sc_engine configured)) (dc_query c) database
            (ps_schema selected) (ps_name selected))))
       (\<lambda>found. slift (check_definition sv name found)))))"

section \<open>SQL\<close>

record reported_source =
  rs_schema :: "string option"
  rs_table :: string
  rs_column :: string

record sql_column =
  sq_name :: string
  sq_source :: "reported_source option"
  sq_protected :: bool
  sq_encoding :: result_encoding

record sql_result =
  sr_columns :: "sql_column list"
  sr_rows :: "pyval list list"
  sr_row_count :: nat
  sr_truncated :: bool

definition report_source :: "source_column \<Rightarrow> reported_source" where
  "report_source s = \<lparr>rs_schema = (if src_schema s = [] then None else Some (src_schema s)),
     rs_table = src_table s, rs_column = src_column s\<rparr>"

definition report_column :: "result_column \<Rightarrow> sql_column" where
  "report_column c = \<lparr>sq_name = rc_name c, sq_source = map_option report_source (rc_source c),
     sq_protected = rc_protected c, sq_encoding = rc_encoding c\<rparr>"

definition report_result :: "execution_result \<Rightarrow> sql_result" where
  "report_result r = \<lparr>sr_columns = map report_column (er_columns r), sr_rows = er_rows r,
     sr_row_count = length (er_rows r), sr_truncated = er_truncated r\<rparr>"

text \<open>The operation on the connection: validate, then execute.\<close>

definition sql_operation :: "service \<Rightarrow> string \<Rightarrow> string \<Rightarrow> string \<Rightarrow> pii_config \<Rightarrow> token_codec \<Rightarrow> int \<Rightarrow> dialect
    \<Rightarrow> sql_result db_operation" where
  "sql_operation sv server database sql pii codec rows_limit d c n =
     sbind (validate_sql (sv_sqlglot sv) (sv_aead sv) (sv_marker_nonce sv n)
         (rc_list_tables (dc_inspector c) server database) (rc_columns (dc_inspector c) server database)
         sql server database pii codec (ac_runtime (sv_config sv)) rows_limit d) (\<lambda>validated.
     sbind (slift (fst (execute_validated (sv_aead sv) (sv_nonces sv n) (dc_driver c) validated codec))) (\<lambda>executed.
     sreturn (report_result executed)))"

definition sql_call :: "service \<Rightarrow> string \<Rightarrow> string \<Rightarrow> string \<Rightarrow> int option \<Rightarrow> sql_result service_call" where
  "sql_call sv server database sql max_rows =
     sbind (slift (server_for sv server)) (\<lambda>configured.
     sbind (slift (raise_if (sc_access_level configured \<noteq> ALL_PII_SAFE \<or> sc_pii configured = None)
       (Domain sql_access_error))) (\<lambda>_.
     let runtime = ac_runtime (sv_config sv);
         rows_limit = (case max_rows of None \<Rightarrow> default_max_rows runtime | Some m \<Rightarrow> m) in
     sbind (slift (codec_for (sv_codecs sv) server)) (\<lambda>codec.
     sbind (slift (dialect_for (engine_text (sc_engine configured)))) (\<lambda>d.
     service_run sv server (Some database) ''execute_sql''
       (sql_operation sv server database sql (the (sc_pii configured)) codec rows_limit d)))))"

section \<open>Which exceptions a call raises\<close>

text \<open>Domain errors, and the one exception that the handlers of a run raise themselves.\<close>

definition known_error :: "exn \<Rightarrow> bool" where
  "known_error e \<longleftrightarrow> is_domain e \<or> e = digits_error"

lemma known_run_error [simp]: "known_error (run_error ref e)"
  using run_error_domain_or_digits by (simp add: known_error_def)

lemma known_domain [simp]: "known_error (Domain e)"
  by (simp add: known_error_def)

definition known_errors :: "'a service_call \<Rightarrow> bool" where
  "known_errors m \<longleftrightarrow> (\<forall>st e st'. m st = (Inl e, st') \<longrightarrow> known_error e)"

lemma known_errors_sbind [intro]:
  assumes "known_errors m" and "\<And>x. known_errors (f x)"
  shows "known_errors (sbind m f)"
  unfolding known_errors_def
proof (intro allI impI)
  fix st e st'
  assume run: "sbind m f st = (Inl e, st')"
  obtain r s where m: "m st = (r, s)" by (cases "m st")
  show "known_error e"
  proof (cases r)
    case (Inl x)
    with run m assms(1) show ?thesis by (auto simp: sbind_def known_errors_def)
  next
    case (Inr x)
    with run m assms(2) [of x] show ?thesis by (auto simp: sbind_def known_errors_def)
  qed
qed

lemma known_errors_sreturn [intro]: "known_errors (sreturn x)"
  by (simp add: known_errors_def sreturn_def)

lemma known_errors_slift: "(\<And>e. r = Inl e \<Longrightarrow> known_error e) \<Longrightarrow> known_errors (slift r)"
  by (simp add: known_errors_def slift_def)

lemma known_errors_server [intro]: "known_errors (slift (server_for sv a))"
  by (rule known_errors_slift) (auto simp: server_for_def split: option.splits)

lemma known_errors_raise_if [intro]: "known_errors (slift (raise_if c (Domain e)))"
  by (rule known_errors_slift) (auto simp: raise_if_def split: if_splits)

lemma known_errors_access [intro]: "known_errors (slift (require_meta_and_code_access s))"
  unfolding require_meta_and_code_access_def by (rule known_errors_raise_if)

lemma known_errors_service_run [intro]: "known_errors (service_run sv a d name op)"
  unfolding service_run_def
proof (rule known_errors_sbind [OF known_errors_server])
  show "known_errors (\<lambda>st. case registry_run (sv_config sv) (sv_create sv) a d (with_connection sv op)
           (ss_registry st, ss_catalog st, ss_connects st) of
         (r, reg, cat, n) \<Rightarrow>
           let st' = st\<lparr>ss_registry := reg, ss_catalog := cat, ss_connects := n\<rparr> in
           (case r of
              Inr x \<Rightarrow> (Inr x, st'\<lparr>ss_log := ss_log st @
                [success_log a d name (sv_elapsed sv (length (ss_log st)))]\<rparr>)
            | Inl e \<Rightarrow>
                let ref = sv_ref sv (ss_refs st);
                    secrets = secrets_for (sv_make_url sv) (sc_connection_url server) a in
                (case run_failure (sv_class_name sv) secrets a d name ref e of (raised, lines) \<Rightarrow>
                  (Inl raised, st'\<lparr>ss_refs := Suc (ss_refs st), ss_log := ss_log st @ lines\<rparr>))))" for server
    by (auto simp: known_errors_def Let_def case_prod_beta split: sum.splits)
qed

lemma known_errors_codec [intro]: "known_errors (slift (codec_for codecs a))"
  by (rule known_errors_slift) (auto simp: codec_for_def split: option.splits)

lemma known_errors_dialect [intro]: "known_errors (slift (dialect_for (engine_text e)))"
  by (rule known_errors_slift) (simp add: dialect_for_engine)

lemma unique_match_error: "unique_match what name f ms = Inl e \<Longrightarrow> known_error e"
  by (auto simp: unique_match_def split: list.splits)

lemma known_errors_match [intro]: "known_errors (slift (procedure_match listing name))"
  by (rule known_errors_slift) (auto simp: procedure_match_def dest: unique_match_error)

lemma known_errors_check [intro]: "known_errors (slift (check_definition sv name found))"
  by (rule known_errors_slift) (auto simp: check_definition_def result_simps split: option.splits)

lemma calls_known_errors:
  "known_errors (list_databases sv a nc)" "known_errors (list_tables_call sv a d s nc)"
  "known_errors (table_definition_call sv a d t s)" "known_errors (list_procedures_call sv a d s nc)"
  "known_errors (procedure_call sv a d n s)" "known_errors (sql_call sv a d q m)"
  unfolding list_databases_def list_tables_call_def table_definition_call_def list_procedures_call_def
    procedure_call_def sql_call_def Let_def by blast+

section \<open>Successful runs\<close>

lemma service_run_Inr:
  assumes "service_run sv a d name op st = (Inr x, st')"
  obtains server e c where "server_for sv a = Inr server"
    "registry_get (sv_config sv) (sv_create sv) a d (ss_registry st) = (Inr e, ss_registry st')"
    "sv_connect sv (ss_connects st) e = Inr c" "op c (ss_connects st) (ss_catalog st) = (Inr x, ss_catalog st')"
    "ss_connects st' = Suc (ss_connects st)"
proof -
  obtain server where server: "server_for sv a = Inr server"
    using assms by (auto simp: service_run_def sbind_def slift_def split: sum.splits)
  let ?run = "registry_run (sv_config sv) (sv_create sv) a d (with_connection sv op)
    (ss_registry st, ss_catalog st, ss_connects st)"
  obtain r reg cat n where run: "?run = (r, reg, cat, n)" by (cases ?run) auto
  with assms server have r: "r = Inr x"
    and st': "ss_registry st' = reg" "ss_catalog st' = cat" "ss_connects st' = n"
    by (auto simp: service_run_def sbind_def slift_def Let_def split: sum.splits prod.splits)
  obtain g reg' where get: "registry_get (sv_config sv) (sv_create sv) a d (ss_registry st) = (g, reg')"
    by (cases "registry_get (sv_config sv) (sv_create sv) a d (ss_registry st)")
  with run r obtain e where e: "g = Inr e" "reg' = reg"
    and w: "with_connection sv op e (ss_catalog st, ss_connects st) = (Inr x, cat, n)"
    by (cases g) (auto simp: registry_run_def split: prod.splits)
  from w obtain c where c: "sv_connect sv (ss_connects st) e = Inr c"
    "op c (ss_connects st) (ss_catalog st) = (Inr x, cat)" "n = Suc (ss_connects st)"
    by (auto simp: with_connection_def split: sum.splits prod.splits)
  from that [OF server _ c(1)] get e st' c show thesis by simp
qed

text \<open>What \<open>execute_sql\<close> has done when it returns a result.\<close>

lemma sql_call_Inr:
  assumes "sql_call sv a d q m st = (Inr res, st')"
  obtains server pii codec limit dia e c vq er where "server_for sv a = Inr server"
    "sc_access_level server = ALL_PII_SAFE" "sc_pii server = Some pii" "codec_for (sv_codecs sv) a = Inr codec"
    "limit = (case m of None \<Rightarrow> default_max_rows (ac_runtime (sv_config sv)) | Some k \<Rightarrow> k)"
    "dialect_for (engine_text (sc_engine server)) = Inr dia"
    "registry_get (sv_config sv) (sv_create sv) a (Some d) (ss_registry st) = (Inr e, ss_registry st')"
    "sv_connect sv (ss_connects st) e = Inr c"
    "validate_sql (sv_sqlglot sv) (sv_aead sv) (sv_marker_nonce sv (ss_connects st))
       (rc_list_tables (dc_inspector c) a d) (rc_columns (dc_inspector c) a d) q a d pii codec
       (ac_runtime (sv_config sv)) limit dia (ss_catalog st) = (Inr vq, ss_catalog st')"
    "fst (execute_validated (sv_aead sv) (sv_nonces sv (ss_connects st)) (dc_driver c) vq codec) = Inr er"
    "res = report_result er"
proof -
  from assms obtain server codec dia where s: "server_for sv a = Inr server"
    "sc_access_level server = ALL_PII_SAFE" "sc_pii server \<noteq> None" "codec_for (sv_codecs sv) a = Inr codec"
    "dialect_for (engine_text (sc_engine server)) = Inr dia"
    and run: "service_run sv a (Some d) ''execute_sql'' (sql_operation sv a d q (the (sc_pii server)) codec
      (case m of None \<Rightarrow> default_max_rows (ac_runtime (sv_config sv)) | Some k \<Rightarrow> k) dia) st = (Inr res, st')"
    unfolding sql_call_def Let_def sbind_eq_Inr_iff slift_Inr_iff raise_if_eq_Inr_iff by blast
  from s(3) obtain pii where pii: "sc_pii server = Some pii" by blast
  obtain e c where r: "registry_get (sv_config sv) (sv_create sv) a (Some d) (ss_registry st) = (Inr e, ss_registry st')"
    "sv_connect sv (ss_connects st) e = Inr c"
    and op: "sql_operation sv a d q (the (sc_pii server)) codec
      (case m of None \<Rightarrow> default_max_rows (ac_runtime (sv_config sv)) | Some k \<Rightarrow> k) dia c (ss_connects st)
      (ss_catalog st) = (Inr res, ss_catalog st')"
    by (rule service_run_Inr [OF run])
  from op obtain vq er where "validate_sql (sv_sqlglot sv) (sv_aead sv) (sv_marker_nonce sv (ss_connects st))
       (rc_list_tables (dc_inspector c) a d) (rc_columns (dc_inspector c) a d) q a d pii codec
       (ac_runtime (sv_config sv)) (case m of None \<Rightarrow> default_max_rows (ac_runtime (sv_config sv)) | Some k \<Rightarrow> k)
       dia (ss_catalog st) = (Inr vq, ss_catalog st')"
    "fst (execute_validated (sv_aead sv) (sv_nonces sv (ss_connects st)) (dc_driver c) vq codec) = Inr er"
    "res = report_result er"
    unfolding sql_operation_def sbind_eq_Inr_iff slift_Inr_iff sreturn_Inr_iff pii option.sel by blast
  then show thesis by (rule that [OF s(1,2) pii s(4) refl s(5) r])
qed

section \<open>Access levels\<close>

text \<open>Two servers: one for metadata only, and one whose code may be read too.\<close>

definition levels_server :: "access_level \<Rightarrow> server_config" where
  "levels_server l = \<lparr>sc_engine = MYSQL_ENGINE, sc_access_level = l, sc_connection_url = ''mysql+pymysql://h'',
     sc_pii_key_env = None, sc_pii_key = None, sc_pii = None\<rparr>"

definition levels_config :: app_config where
  "levels_config = \<lparr>ac_runtime = default_runtime, ac_logging = INFO,
     ac_servers = [(''meta'', levels_server METADATA), (''code'', levels_server META_AND_CODE)]\<rparr>"

text \<open>
  C7. Access levels are enforced before anything happens: on a server that is not
  \<open>all_pii_safe\<close> a query is refused, and on a server for metadata only so are both procedure
  tools, with \<open>ACCESS_LEVEL_DENIED\<close> and the state untouched: no engine created or used, no
  connection opened, no cache entry read, whatever the arguments.
\<close>

theorem access_levels_enforced:
  assumes "map_of (ac_servers (sv_config sv)) a = Some server" and "sc_access_level server \<noteq> ALL_PII_SAFE"
  shows "sql_call sv a d q m st = (Inl (Domain sql_access_error), st) \<and>
    de_code sql_access_error = ACCESS_LEVEL_DENIED \<and>
    (sc_access_level server = METADATA \<longrightarrow>
      list_procedures_call sv a d s nc st = (Inl (Domain code_access_error), st) \<and>
      procedure_call sv a d n s st = (Inl (Domain code_access_error), st) \<and>
      de_code code_access_error = ACCESS_LEVEL_DENIED)"
proof -
  have server: "server_for sv a = Inr server" using assms(1) by (simp add: server_for_def)
  have "list_procedures_call sv a d s nc st = (Inl (Domain code_access_error), st)"
    if "sc_access_level server = METADATA" for s nc
    using server that
    by (simp add: list_procedures_call_def sbind_def slift_def require_meta_and_code_access_def raise_if_def)
  with server assms(2) show ?thesis
    by (simp add: sql_call_def procedure_call_def sbind_def slift_def raise_if_def
        sql_access_error_def code_access_error_def make_error_def)
qed

theorem access_levels_enforced_witness:
  "\<forall>sv st. sql_call (sv\<lparr>sv_config := levels_config\<rparr>) ''meta'' ''db'' ''SELECT'' None st =
      (Inl (Domain sql_access_error), st) \<and>
    list_procedures_call (sv\<lparr>sv_config := levels_config\<rparr>) ''meta'' ''db'' None None st =
      (Inl (Domain code_access_error), st) \<and>
    procedure_call (sv\<lparr>sv_config := levels_config\<rparr>) ''meta'' ''db'' ''p'' None st =
      (Inl (Domain code_access_error), st)"
proof (intro allI)
  fix sv :: service and st
  have "map_of (ac_servers (sv_config (sv\<lparr>sv_config := levels_config\<rparr>))) ''meta'' = Some (levels_server METADATA)"
    "sc_access_level (levels_server METADATA) \<noteq> ALL_PII_SAFE" "sc_access_level (levels_server METADATA) = METADATA"
    by (simp_all add: levels_config_def levels_server_def)
  from access_levels_enforced [OF this(1,2)] this(3)
  show "sql_call (sv\<lparr>sv_config := levels_config\<rparr>) ''meta'' ''db'' ''SELECT'' None st =
      (Inl (Domain sql_access_error), st) \<and>
    list_procedures_call (sv\<lparr>sv_config := levels_config\<rparr>) ''meta'' ''db'' None None st =
      (Inl (Domain code_access_error), st) \<and>
    procedure_call (sv\<lparr>sv_config := levels_config\<rparr>) ''meta'' ''db'' ''p'' None st =
      (Inl (Domain code_access_error), st)" by blast
qed

section \<open>What is listed and what is logged\<close>

lemma sbind_InrD: "sbind m f s = (Inr y, t) \<Longrightarrow> \<exists>x s'. m s = (Inr x, s') \<and> f x s' = (Inr y, t)"
  by (simp add: sbind_eq_Inr_iff)

text \<open>
  C34. The list of tables is the whole list of matching tables in order: it has exactly the tables
  of the connection's reflection that match the schema and the name filter, each as often, sorted
  by schema and name without regard to case, and tables whose names differ in case only stay in
  the database's order.
\<close>

theorem listed_tables_are_the_matches:
  assumes "list_tables_call sv a d schema name_contains st = (Inr listed, st')"
  shows "\<exists>e c reflected. sv_connect sv (ss_connects st) e = Inr c \<and> list_tables (dc_inspector c) = Inr reflected \<and>
    mset listed = {#t \<in># mset reflected. schema_matches schema (tb_schema t) \<and> contains_text (tb_name t) name_contains#} \<and>
    sorted (map (\<lambda>t. (folded_schema (tb_schema t), casefold (tb_name t))) listed) \<and>
    (\<forall>k. filter (\<lambda>t. (folded_schema (tb_schema t), casefold (tb_name t)) = k) listed =
      filter (\<lambda>t. (folded_schema (tb_schema t), casefold (tb_name t)) = k)
        (filter (\<lambda>t. schema_matches schema (tb_schema t) \<and> contains_text (tb_name t) name_contains) reflected))"
proof -
  from assms obtain reflected s where
    run: "service_run sv a (Some d) ''list_tables'' (\<lambda>c n. slift (list_tables (dc_inspector c))) st = (Inr reflected, s)"
    and listed: "listed = select_tables schema name_contains reflected"
    unfolding list_tables_call_def sbind_eq_Inr_iff slift_Inr_iff sreturn_Inr_iff by blast
  from run obtain e c where "sv_connect sv (ss_connects st) e = Inr c" "list_tables (dc_inspector c) = Inr reflected"
    by (rule service_run_Inr) (simp add: slift_Inr_iff)
  then show ?thesis by (auto simp: listed select_tables_def sort_key_stable)
qed

text \<open>
  C33. Every run is logged once and as its outcome says: a success adds the one record of success; a
  domain error is passed on and logged nowhere; any other exception that the operation, the
  connect or the creation of the engine raises adds exactly one record, which names the reference of
  the error the caller gets.  For a timeout or a classified driver error that record has the error's code
  and the redacted description of the exception; for every other exception it is a fixed text with the
  server, the database, the operation, the name of the exception's class and the reference, and the caller
  gets the generic error.  Only where a number of more than 4300 digits makes the handler raise
  \<open>ValueError\<close> is a failure not logged.
\<close>

theorem runs_are_logged_once:
  assumes "server_for sv a = Inr server" and "service_run sv a d name op st = (r, st')"
    and "sv_ref sv (ss_refs st) \<noteq> []"
  shows "case fst (registry_run (sv_config sv) (sv_create sv) a d (with_connection sv op)
      (ss_registry st, ss_catalog st, ss_connects st)) of
    Inr x \<Rightarrow> r = Inr x \<and> ss_log st' = ss_log st @ [success_log a d name (sv_elapsed sv (length (ss_log st)))]
  | Inl cause \<Rightarrow>
      if is_domain cause then r = Inl cause \<and> ss_log st' = ss_log st
      else (\<exists>error line. r = Inl (Domain error) \<and> ss_log st' = ss_log st @ [line] \<and>
          names_reference line (de_correlation_id error) \<and>
          (case classified_cause (sv_ref sv (ss_refs st)) cause of
             Some (e, x) \<Rightarrow> error = e \<and> (\<exists>text.
               describe_error x (secrets_for (sv_make_url sv) (sc_connection_url server) a) = Inr text \<and>
               line = \<lparr>lg_severity = LogWarning, lg_text = classified_text a d name e text\<rparr>)
           | None \<Rightarrow> error = unexpected_error (sv_ref sv (ss_refs st)) \<and>
               (\<exists>msg \<in> {''Database operation failed'', ''SQLAlchemy operation failed'', ''Unexpected database operation failure''}.
                  line = unexpected_log msg a d name (sv_class_name sv cause) (sv_ref sv (ss_refs st))))) \<or>
        r = Inl digits_error \<and> overlong_cause cause \<and> ss_log st' = ss_log st"
proof -
  let ?ref = "sv_ref sv (ss_refs st)" and ?secrets = "secrets_for (sv_make_url sv) (sc_connection_url server) a"
  obtain x reg cat n where run: "registry_run (sv_config sv) (sv_create sv) a d (with_connection sv op)
      (ss_registry st, ss_catalog st, ss_connects st) = (x, reg, cat, n)" by (metis prod_cases4)
  show ?thesis
  proof (cases x)
    case (Inl cause)
    obtain out lines where fail: "run_failure (sv_class_name sv) ?secrets a d name ?ref cause = (out, lines)"
      by fastforce
    with Inl assms run have r: "r = Inl out" and log: "ss_log st' = ss_log st @ lines"
      by (auto simp: service_run_def sbind_slift_Inr Let_def)
    show ?thesis
    proof (cases "is_domain cause")
      case True
      with fail r log run Inl show ?thesis by (cases cause) auto
    next
      case False
      have out: "out = run_error ?ref cause" by (rule run_failure_raised [OF fail])
      from run_failure_records [OF False fail] show ?thesis
      proof (elim disjE exE conjE)
        fix error line
        assume "out = Domain error" "lines = [line]"
          and rec: "recorded (sv_class_name sv) ?secrets a d name ?ref cause error line"
        with r log have "r = Inl (Domain error)" "ss_log st' = ss_log st @ [line]" by simp_all
        with recorded_reference [OF rec assms(3)] rec [unfolded recorded_def] run Inl False
        show ?thesis by auto
      next
        assume "out = digits_error" "lines = []"
        moreover from this out run_error_cases [OF False, of ?ref] have "overlong_cause cause" by auto
        ultimately show ?thesis using r log run Inl False by simp
      qed
    qed
  next
    case (Inr v)
    with assms run show ?thesis by (auto simp: service_run_def sbind_slift_Inr Let_def)
  qed
qed

end
