(* ===== verification/Tools.thy ===== *)
theory Tools
  imports Service
begin

text \<open>
  \<open>mcp_server.py\<close>: the tools over the service and the life of a server.  The protocol library is
  outside: a tool's outcome is its value, the text of a \<open>ToolError\<close>, or an exception that
  escapes the tool.
\<close>

section \<open>Tools\<close>

datatype tool_failure = ToolError string | Escaped exn

text \<open>\<open>_domain_call\<close>.\<close>

definition domain_call :: "'a service_call \<Rightarrow> (service_state, tool_failure, 'a) stateful" where
  "domain_call operation st = (case operation st of
       (Inr x, st') \<Rightarrow> (Inr x, st')
     | (Inl (Domain e), st') \<Rightarrow> (Inl (ToolError (domain_error_str e)), st')
     | (Inl e, st') \<Rightarrow> (Inl (Escaped e), st'))"

datatype tool_call =
    ListServers
  | ListDatabases string "string option"
  | ListTables string string "string option" "string option"
  | GetTableDefinition string string string "string option"
  | ListStoredProcedures string string "string option" "string option"
  | GetStoredProcedure string string string "string option"
  | ExecuteSql string string string "int option"

text \<open>The output models with one field are that field.\<close>

type_synonym server_list = "server_summary list"
type_synonym database_summary = string
type_synonym database_list = "database_summary list"
type_synonym table_list = "table_summary list"
type_synonym stored_procedure_list = "procedure_summary list"

datatype tool_value =
    Servers server_list
  | Databases database_list
  | Tables table_list
  | Table table_definition
  | Procedures stored_procedure_list
  | Procedure procedure_definition
  | Sql sql_result

definition smap :: "('a \<Rightarrow> 'b) \<Rightarrow> ('s, 'e, 'a) stateful \<Rightarrow> ('s, 'e, 'b) stateful" where
  "smap f m = sbind m (\<lambda>x. sreturn (f x))"

text \<open>The tools registered by \<open>create_server\<close>.\<close>

fun run_tool :: "service \<Rightarrow> tool_call \<Rightarrow> (service_state, tool_failure, tool_value) stateful" where
  "run_tool sv ListServers = sreturn (Servers (list_servers sv))"
| "run_tool sv (ListDatabases server nc) = smap Databases (domain_call (list_databases sv server nc))"
| "run_tool sv (ListTables server database schema nc) =
     smap Tables (domain_call (list_tables_call sv server database schema nc))"
| "run_tool sv (GetTableDefinition server database table schema) =
     smap Table (domain_call (table_definition_call sv server database table schema))"
| "run_tool sv (ListStoredProcedures server database schema nc) =
     smap Procedures (domain_call (list_procedures_call sv server database schema nc))"
| "run_tool sv (GetStoredProcedure server database name schema) =
     smap Procedure (domain_call (procedure_call sv server database name schema))"
| "run_tool sv (ExecuteSql server database sql max_rows) =
     smap Sql (domain_call (sql_call sv server database sql max_rows))"

text \<open>The calls of one client, in order.\<close>

fun run_tools :: "service \<Rightarrow> tool_call list \<Rightarrow> service_state
    \<Rightarrow> (tool_failure + tool_value) list \<times> service_state" where
  "run_tools sv [] st = ([], st)"
| "run_tools sv (c # cs) st = (case run_tool sv c st of (r, st') \<Rightarrow>
     (case run_tools sv cs st' of (rs, st'') \<Rightarrow> (r # rs, st'')))"

text \<open>\<open>lifespan\<close>: a new registry, the calls, and the disposal of every engine at the end.\<close>

definition serve :: "service \<Rightarrow> (nat \<Rightarrow> int) \<Rightarrow> tool_call list
    \<Rightarrow> (tool_failure + tool_value) list \<times> service_state" where
  "serve sv clock calls = (case run_tools sv calls (new_state clock) of (rs, st) \<Rightarrow>
     (rs, st\<lparr>ss_registry := registry_dispose (ss_registry st)\<rparr>))"

section \<open>What escapes a tool\<close>

text \<open>Only the \<open>ValueError\<close> for a number of too many digits.\<close>

definition no_escape :: "(service_state, tool_failure, 'a) stateful \<Rightarrow> bool" where
  "no_escape m \<longleftrightarrow> (\<forall>st e st'. m st = (Inl (Escaped e), st') \<longrightarrow> e = digits_error)"

lemma no_escape_domain_call:
  assumes "known_errors m"
  shows "no_escape (domain_call m)"
  unfolding no_escape_def
proof (intro allI impI)
  fix st e st'
  assume run: "domain_call m st = (Inl (Escaped e), st')"
  obtain r s where m: "m st = (r, s)" by (cases "m st")
  with run obtain x where r: "r = Inl x" by (cases r) (auto simp: domain_call_def)
  with assms m have "known_error x" by (auto simp: known_errors_def)
  with run m r show "e = digits_error"
    by (cases x) (auto simp: domain_call_def known_error_def)
qed

lemma no_escape_smap: "no_escape m \<Longrightarrow> no_escape (smap f m)"
  by (auto simp: no_escape_def smap_def sbind_def sreturn_def split: prod.splits sum.splits)

lemma no_escape_tool: "no_escape (run_tool sv c)"
  by (cases c) (auto intro!: no_escape_smap no_escape_domain_call calls_known_errors
      simp: no_escape_def [of "sreturn x" for x] sreturn_def)

section \<open>Invariants of the state\<close>

text \<open>
  \<open>kept P m\<close>: the call \<open>m\<close> keeps the property \<open>P\<close> of the service's state, however it ends.
  What every run of an operation keeps is kept by every tool and by every sequence of calls.
\<close>

definition kept :: "(service_state \<Rightarrow> bool) \<Rightarrow> (service_state, 'e, 'a) stateful \<Rightarrow> bool" where
  "kept P m \<longleftrightarrow> (\<forall>st. P st \<longrightarrow> P (snd (m st)))"

lemma kept_sbind [intro]:
  assumes "kept P m" and "\<And>x. kept P (f x)"
  shows "kept P (sbind m f)"
  unfolding kept_def
proof (intro allI impI)
  fix st assume st: "P st"
  obtain r s where m: "m st = (r, s)" by (cases "m st")
  with assms(1) st have "P s" by (auto simp: kept_def dest: spec [of _ st])
  with m assms(2) show "P (snd (sbind m f st))" by (cases r) (simp_all add: sbind_def kept_def)
qed

lemma kept_pure [intro]: "kept P (sreturn x)" "kept P (slift r)"
  by (simp_all add: kept_def sreturn_def slift_def)

lemma snd_domain_call: "snd (domain_call m st) = snd (m st)"
  by (simp add: domain_call_def split: prod.split sum.split exn.split)

lemma kept_domain_call: "kept P m \<Longrightarrow> kept P (domain_call m)"
  by (simp add: kept_def snd_domain_call)

lemma kept_smap: "kept P m \<Longrightarrow> kept P (smap f m)"
  unfolding smap_def by (rule kept_sbind) auto

lemma kept_tool:
  assumes simple: "\<And>a d name f. kept P (service_run sv a d name (\<lambda>c n. slift (f c)) :: string list service_call)"
    "\<And>a d name f. kept P (service_run sv a d name (\<lambda>c n. slift (f c)) :: table_summary list service_call)"
    "\<And>a d name f. kept P (service_run sv a d name (\<lambda>c n. slift (f c)) :: table_definition service_call)"
    "\<And>a d name f. kept P (service_run sv a d name (\<lambda>c n. slift (f c)) :: procedure_summary list service_call)"
    "\<And>a d name f. kept P (service_run sv a d name (\<lambda>c n. slift (f c)) :: procedure_definition option service_call)"
    and sql: "\<And>a d q pii codec m dia. kept P (service_run sv a (Some d) ''execute_sql'' (sql_operation sv a d q pii codec m dia))"
  shows "kept P (run_tool sv c)"
proof -
  have "kept P (list_databases sv a nc)" "kept P (list_tables_call sv a d s nc)"
    "kept P (table_definition_call sv a d t s)" "kept P (list_procedures_call sv a d s nc)"
    "kept P (sql_call sv a d q m)" for a d s t nc q m
    unfolding list_databases_def list_tables_call_def table_definition_call_def list_procedures_call_def
      sql_call_def Let_def by (rule kept_sbind kept_pure simple sql)+
  note kept = this
  have "kept P (procedure_call sv a d n s)" for a d n s
    unfolding procedure_call_def by (rule kept_sbind kept_pure simple kept)+
  with kept show ?thesis by (cases c) (auto intro!: kept_smap kept_domain_call kept_pure)
qed

lemma run_tools_kept:
  assumes "\<And>c. kept P (run_tool sv c)" and "P st"
  shows "P (snd (run_tools sv cs st))"
  using assms(2)
proof (induction cs arbitrary: st)
  case (Cons c cs)
  have "P (snd (run_tool sv c st))" using assms(1) Cons.prems by (simp add: kept_def)
  from Cons.IH [OF this] show ?case by (simp add: case_prod_beta)
qed simp

subsection \<open>The registry\<close>

text \<open>What every \<open>get\<close> keeps of the registry, and so every run.\<close>

definition registry_sound :: "service \<Rightarrow> service_state \<Rightarrow> bool" where
  "registry_sound sv st \<longleftrightarrow> registry_lru.wf (sv_config sv) (ss_registry st) \<and>
     engines_match (sv_config sv) (ss_registry st) \<and> engines_accounted (ss_registry st)"

lemma registry_sound_new: "registry_sound sv (new_state clock)"
  using wf_new_registry
  by (simp add: registry_sound_def new_state_def engines_match_def engines_accounted_def engine_ids_def new_registry_def)

lemma registry_sound_get:
  assumes "registry_sound sv st"
    and "ss_registry st' = snd (registry_get (sv_config sv) (sv_create sv) a d (ss_registry st))"
  shows "registry_sound sv st'"
  using assms registry_get_ok [of "sv_config sv" "ss_registry st" "sv_create sv" a d]
    registry_lru.wf_step [of "sv_config sv" "ss_registry st" "sv_create sv" "RGet a d"]
  by (simp add: registry_sound_def registry_lru.wf_def)

text \<open>What a run leaves, however it ends.\<close>

lemma service_run_state:
  assumes "service_run sv a d name op st = (r, st')"
  obtains (unknown) "st' = st"
  | (no_engine) x where "registry_get (sv_config sv) (sv_create sv) a d (ss_registry st) = (Inl x, ss_registry st')"
      "ss_catalog st' = ss_catalog st"
  | (no_connection) e x where "registry_get (sv_config sv) (sv_create sv) a d (ss_registry st) = (Inr e, ss_registry st')"
      "sv_connect sv (ss_connects st) e = Inl x" "ss_catalog st' = ss_catalog st"
  | (ran) e c where "registry_get (sv_config sv) (sv_create sv) a d (ss_registry st) = (Inr e, ss_registry st')"
      "sv_connect sv (ss_connects st) e = Inr c" "ss_catalog st' = snd (op c (ss_connects st) (ss_catalog st))"
proof (cases "server_for sv a")
  case (Inl x)
  with assms that(1) show thesis by (simp add: service_run_def sbind_def slift_def)
next
  case (Inr server)
  obtain g reg where g: "registry_get (sv_config sv) (sv_create sv) a d (ss_registry st) = (g, reg)"
    by (cases "registry_get (sv_config sv) (sv_create sv) a d (ss_registry st)")
  obtain x reg' cat n where w: "registry_run (sv_config sv) (sv_create sv) a d (with_connection sv op)
      (ss_registry st, ss_catalog st, ss_connects st) = (x, reg', cat, n)" by (metis prod_cases4)
  with g have [simp]: "reg' = reg" by (cases g) (auto simp: registry_run_def split: prod.splits)
  have st': "ss_registry st' = reg" "ss_catalog st' = cat"
    using assms Inr w by (auto simp: service_run_def sbind_slift_Inr Let_def split: sum.splits prod.splits)
  show thesis
  proof (cases g)
    case (Inl y)
    with g w st' that(2) show thesis by (simp add: registry_run_def)
  next
    case (Inr e)
    then have "with_connection sv op e (ss_catalog st, ss_connects st) = (x, cat, n)"
      using g w by (auto simp: registry_run_def split: prod.splits)
    then show thesis
      using that(3,4) g Inr st' by (auto simp: with_connection_def split: sum.splits prod.splits)
  qed
qed

lemma registry_sound_run: "kept (registry_sound sv) (service_run sv a d name op)"
  unfolding kept_def
proof (intro allI impI)
  fix st assume st: "registry_sound sv st"
  obtain r st' where run: "service_run sv a d name op st = (r, st')" by (cases "service_run sv a d name op st")
  from run have "registry_sound sv st'"
    by (cases rule: service_run_state) (use st registry_sound_get [OF st, of st' a d] in auto)
  with run show "registry_sound sv (snd (service_run sv a d name op st))" by simp
qed

text \<open>An engine that is got in a sound state is one of its own server and database.\<close>

lemma sound_engine:
  assumes "registry_sound sv st"
    and "registry_get (sv_config sv) (sv_create sv) a d (ss_registry st) = (Inr e, reg)"
    and "map_of (ac_servers (sv_config sv)) a = Some server"
  shows "eo_url (eg_options e) = sc_connection_url server" and "eo_database (eg_options e) = d"
proof -
  have "engine_options_for (sv_config sv) a d = Inr (eg_options e)"
    by (rule registry_get_Inr(1) [OF assms(2)]) (use assms(1) in \<open>simp add: registry_sound_def\<close>)
  with assms(3) show "eo_url (eg_options e) = sc_connection_url server" and "eo_database (eg_options e) = d"
    by (auto simp: engine_options_for_def Let_def) (metis engine_options.select_convs)+
qed

lemma reachable_registry_sound: "registry_sound sv (snd (run_tools sv calls (new_state clock)))"
  by (rule run_tools_kept [where P = "registry_sound sv", OF _ registry_sound_new])
    (rule kept_tool, (rule registry_sound_run)+)

section \<open>Properties\<close>

text \<open>
  C31. A tool answers or raises a \<open>ToolError\<close>: in any state and for any call, no other exception
  of the libraries, the database or the code escapes a tool, but for one: the \<open>ValueError\<close> that Python
  raises for a number of more than 4300 digits while a driver's error is classified or described.
\<close>

theorem only_tool_errors:
  "(\<exists>v. fst (run_tool sv c st) = Inr v) \<or> (\<exists>msg. fst (run_tool sv c st) = Inl (ToolError msg)) \<or>
   fst (run_tool sv c st) = Inl (Escaped digits_error)"
proof (cases "run_tool sv c st")
  case (Pair r st')
  show ?thesis
  proof (cases r)
    case (Inl f)
    with no_escape_tool [of sv c] Pair show ?thesis by (cases f) (auto simp: no_escape_def)
  qed (use Pair in simp)
qed

text \<open>
  C20. A server leaves no engine behind: whatever the calls, and whether they fail, after its
  life the registry is empty and every engine it created has been disposed of exactly once.
\<close>

theorem serving_disposes_every_engine:
  "rg_engines (ss_registry (snd (serve sv clock calls))) = [] \<and>
   mset (rg_disposed (ss_registry (snd (serve sv clock calls)))) =
     mset [0..<rg_created (ss_registry (snd (serve sv clock calls)))]"
proof -
  from reachable_registry_sound have "engines_accounted (ss_registry (snd (run_tools sv calls (new_state clock))))"
    by (simp only: registry_sound_def simp_thms)
  then show ?thesis
    by (simp add: serve_def engines_accounted_def engine_ids_def registry_dispose_def ac_simps prod.case_eq_if)
qed

end
