(* ===== verification/Sessions.thy ===== *)
theory Sessions
  imports Tools
begin

text \<open>
  The service over many calls: while the databases answer the same on every connection, the
  schema cache of any reachable state holds their answers only, and \<open>execute_sql\<close> returns what it
  would return with no cache at all.
\<close>

section \<open>Databases that do not change\<close>

text \<open>
  \<open>dbs a d\<close> is the Inspector of the database \<open>d\<close> of the server \<open>a\<close>: every connection of an
  engine with the options of that server and database answers with it.
\<close>

definition databases :: "service \<Rightarrow> (string \<Rightarrow> string \<Rightarrow> inspector) \<Rightarrow> bool" where
  "databases sv dbs \<longleftrightarrow> (\<forall>a d n e c. engine_options_for (sv_config sv) a (Some d) = Inr (eg_options e) \<longrightarrow>
     sv_connect sv n e = Inr c \<longrightarrow> dc_inspector c = dbs a d)"

lemma connection_inspector:
  assumes "databases sv dbs" and "registry_sound sv st"
    and "registry_get (sv_config sv) (sv_create sv) a (Some d) (ss_registry st) = (Inr e, reg)"
    and "sv_connect sv n e = Inr c"
  shows "dc_inspector c = dbs a d"
proof -
  have "engine_options_for (sv_config sv) a (Some d) = Inr (eg_options e)"
    by (rule registry_get_Inr(1) [OF assms(3)]) (use assms(2) in \<open>simp add: registry_sound_def\<close>)
  with assms(1,4) show ?thesis by (simp add: databases_def)
qed

definition session_sound :: "service \<Rightarrow> (string \<Rightarrow> string \<Rightarrow> inspector) \<Rightarrow> service_state \<Rightarrow> bool" where
  "session_sound sv dbs st \<longleftrightarrow> registry_sound sv st \<and> catalog_coherent dbs (ss_catalog st)"

lemma session_sound_new: "session_sound sv dbs (new_state clock)"
  by (simp add: session_sound_def registry_sound_new)
    (simp add: catalog_coherent_def new_state_def SCHEMA_CACHE_ENTRIES_def)

section \<open>Every call keeps the cache sound\<close>

lemma session_sound_run:
  assumes "\<And>c n s. (\<And>d'. d = Some d' \<Longrightarrow> dc_inspector c = dbs a d') \<Longrightarrow> catalog_coherent dbs s \<Longrightarrow>
      catalog_coherent dbs (snd (op c n s))"
    and "databases sv dbs"
  shows "kept (session_sound sv dbs) (service_run sv a d name op)"
  unfolding kept_def
proof (intro allI impI)
  fix st assume st: "session_sound sv dbs st"
  obtain r st' where run: "service_run sv a d name op st = (r, st')" by (cases "service_run sv a d name op st")
  have reg: "registry_sound sv st" and cat: "catalog_coherent dbs (ss_catalog st)"
    using st by (simp_all add: session_sound_def)
  have "registry_sound sv st'" using registry_sound_run [of sv a d name op] reg run by (auto simp: kept_def dest: spec [of _ st])
  moreover from run have "catalog_coherent dbs (ss_catalog st')"
  proof (cases rule: service_run_state)
    case (ran e c)
    have "dc_inspector c = dbs a d'" if "d = Some d'" for d'
      using connection_inspector [OF assms(2) reg] ran(1,2) that by blast
    with assms(1) cat ran(3) show ?thesis by simp
  qed (use cat in simp_all)
  ultimately show "session_sound sv dbs (snd (service_run sv a d name op st))"
    using run by (simp add: session_sound_def)
qed

text \<open>The direct validation: the pipeline over the databases themselves.\<close>

definition direct_validate :: "service \<Rightarrow> inspector \<Rightarrow> nat \<Rightarrow> string \<Rightarrow> string \<Rightarrow> string \<Rightarrow> pii_config \<Rightarrow> token_codec
    \<Rightarrow> int \<Rightarrow> dialect \<Rightarrow> validated_query result" where
  "direct_validate sv ins n a d sql pii codec limit dia =
     fst (validate_sql (sv_sqlglot sv) (sv_aead sv) (sv_marker_nonce sv n) (slift (tables_view ins))
       (\<lambda>s t. slift (columns_view ins s t)) sql a d pii codec (ac_runtime (sv_config sv)) limit dia ())"

lemma sql_operation_direct:
  assumes "catalog_coherent dbs s" and "dc_inspector c = dbs a d"
  shows "fst (sql_operation sv a d sql pii codec limit dia c n s) =
      rbind (direct_validate sv (dbs a d) n a d sql pii codec limit dia) (\<lambda>vq.
      rbind (fst (execute_validated (sv_aead sv) (sv_nonces sv n) (dc_driver c) vq codec)) (\<lambda>er. Inr (report_result er)))"
    and "catalog_coherent dbs (snd (sql_operation sv a d sql pii codec limit dia c n s))"
proof -
  obtain s' where "validate_sql (sv_sqlglot sv) (sv_aead sv) (sv_marker_nonce sv n)
      (rc_list_tables (dbs a d) a d) (rc_columns (dbs a d) a d) sql a d pii codec (ac_runtime (sv_config sv))
      limit dia s = (direct_validate sv (dbs a d) n a d sql pii codec limit dia, s')"
    and s': "catalog_coherent dbs s'"
    unfolding direct_validate_def using runs_toD [OF reflected.validate_sql_runs assms(1)] by metis
  then show "fst (sql_operation sv a d sql pii codec limit dia c n s) =
      rbind (direct_validate sv (dbs a d) n a d sql pii codec limit dia) (\<lambda>vq.
      rbind (fst (execute_validated (sv_aead sv) (sv_nonces sv n) (dc_driver c) vq codec)) (\<lambda>er. Inr (report_result er)))"
    and "catalog_coherent dbs (snd (sql_operation sv a d sql pii codec limit dia c n s))"
    by (auto simp: sql_operation_def assms(2) sbind_def slift_def sreturn_def rbind_def split: sum.splits)
qed

lemma session_sound_tool:
  assumes "databases sv dbs"
  shows "kept (session_sound sv dbs) (run_tool sv c)"
proof (rule kept_tool)
  show "kept (session_sound sv dbs) (service_run sv a (Some d) ''execute_sql'' (sql_operation sv a d q pii codec m dia))"
    for a d q pii codec m dia
    by (rule session_sound_run [OF _ assms]) (simp add: sql_operation_direct(2))
qed (rule session_sound_run [OF _ assms], simp add: slift_def)+

lemma reachable_session:
  assumes "databases sv dbs"
  shows "session_sound sv dbs (snd (run_tools sv calls (new_state clock)))"
  by (rule run_tools_kept [where P = "session_sound sv dbs", OF session_sound_tool [OF assms] session_sound_new])

section \<open>Property\<close>

text \<open>
  C13. The schema cache is invisible to callers.  While the databases do not change, after any
  calls of any tools, on any servers, with any errors, expiries and evictions in between, an
  \<open>execute_sql\<close> that gets a connection ends as it would with no cache: with the error of
  validating against the database itself, or of executing, or with the report of executing the
  query validated that way; and the state it leaves is one in which the same holds.
\<close>

theorem cache_is_invisible:
  assumes "databases sv dbs" and "st = snd (run_tools sv calls (new_state clock))"
    and "server_for sv a = Inr server" and "sc_access_level server = ALL_PII_SAFE" and "sc_pii server = Some pii"
    and "codec_for (sv_codecs sv) a = Inr codec" and "dialect_for (engine_text (sc_engine server)) = Inr dia"
    and "registry_get (sv_config sv) (sv_create sv) a (Some d) (ss_registry st) = (Inr e, reg)"
    and "sv_connect sv (ss_connects st) e = Inr c"
  shows "fst (sql_call sv a d sql (Some m) st) =
    (case rbind (direct_validate sv (dbs a d) (ss_connects st) a d sql pii codec m dia) (\<lambda>vq.
        fst (execute_validated (sv_aead sv) (sv_nonces sv (ss_connects st)) (dc_driver c) vq codec)) of
      Inr er \<Rightarrow> Inr (report_result er)
    | Inl x \<Rightarrow> Inl (run_error (sv_ref sv (ss_refs st)) x))"
proof -
  have sound: "session_sound sv dbs st" unfolding assms(2) by (rule reachable_session [OF assms(1)])
  then have ins: "dc_inspector c = dbs a d" and coh: "catalog_coherent dbs (ss_catalog st)"
    using connection_inspector [OF assms(1) _ assms(8,9)] by (simp_all add: session_sound_def)
  let ?op = "sql_operation sv a d sql pii codec m dia"
  have call: "sql_call sv a d sql (Some m) st = service_run sv a (Some d) ''execute_sql'' ?op st"
    using assms(3-7) by (simp add: sql_call_def sbind_def slift_def raise_if_def Let_def)
  obtain x cat where op: "?op c (ss_connects st) (ss_catalog st) = (x, cat)"
    by (cases "?op c (ss_connects st) (ss_catalog st)")
  have "fst (service_run sv a (Some d) ''execute_sql'' ?op st) =
      (case x of Inr y \<Rightarrow> Inr y | Inl x \<Rightarrow> Inl (run_error (sv_ref sv (ss_refs st)) x))"
    using op assms(3,8,9)
    by (simp add: service_run_def sbind_def slift_def registry_run_def with_connection_def Let_def case_prod_beta
        split: sum.split)
  moreover have "x = fst (?op c (ss_connects st) (ss_catalog st))" by (simp add: op)
  ultimately show ?thesis
    unfolding call by (simp add: sql_operation_direct(1) [OF coh ins] rbind_def split: sum.split)
qed

end
