(* ===== verification/Service_Examples.thy ===== *)
theory Service_Examples
  imports Examples Sessions
begin

text \<open>
  The first run of \<open>Examples\<close> as a call of the \<open>execute_sql\<close> tool: the service with the
  example configuration, an engine registry and a schema cache that start empty, and a database
  that holds one table.
\<close>

section \<open>The database\<close>

definition demo_column :: "string \<Rightarrow> column_info" where
  "demo_column c = \<lparr>ci_name = c, ci_type = \<lparr>ty_compiled = ''TEXT'', ty_length = None, ty_precision = None,
     ty_scale = None\<rparr>, ci_nullable = None, ci_autoincrement = None, ci_identity = None, ci_computed = None,
     ci_default = None\<rparr>"

definition demo_inspector :: inspector where
  "demo_inspector = \<lparr>in_dialect_name = ''mssql'', in_schema_names = Inr [''dbo'', ''sys''],
     in_table_names = (\<lambda>s. Inr [''Users'']), in_columns = (\<lambda>s t. Inr [demo_column ''Id'', demo_column ''Email'']),
     in_pk = (\<lambda>s t. Inr \<lparr>ki_name = None, ki_columns = None\<rparr>), in_fks = (\<lambda>s t. Inr []),
     in_indexes = (\<lambda>s t. Inr []), in_uniques = (\<lambda>s t. Inr [])\<rparr>"

definition demo_connection :: db_connection where
  "demo_connection = \<lparr>dc_inspector = demo_inspector, dc_query = (\<lambda>s ps. Inr []),
     dc_driver = demo_rows good_rows\<rparr>"

definition demo_service :: service where
  "demo_service = \<lparr>sv_config = demo_config, sv_codecs = demo_registry, sv_create = (\<lambda>opts. Inr ()),
     sv_connect = (\<lambda>n e. Inr demo_connection), sv_sqlglot = demo_lib good_parsed, sv_aead = plain_aead,
     sv_nonces = (\<lambda>n k. demo_nonce), sv_marker_nonce = (\<lambda>n. marker_nonce), sv_ref = (\<lambda>n. ''id''),
     sv_make_url = demo_url, sv_class_name = (\<lambda>e. ''Error''), sv_elapsed = (\<lambda>n. 1)\<rparr>"

lemma demo_service_codecs: "codecs_ok demo_service"
  by (simp add: codecs_ok_def demo_service_def demo_registry_built)

lemma demo_views:
  "tables_view demo_inspector = Inr [(''dbo'', ''Users'')]"
  "columns_view demo_inspector s t = Inr [''Id'', ''Email'']"
  by code_simp (simp add: columns_view_def demo_inspector_def demo_column_def)

lemma new_state_coherent: "catalog_coherent dbs (ss_catalog (new_state clock))"
  by (simp add: catalog_coherent_def new_state_def SCHEMA_CACHE_ENTRIES_def)

section \<open>The call\<close>

text \<open>Validation through the empty cache.\<close>

lemma demo_validates:
  "\<exists>s'. validate_sql (demo_lib good_parsed) plain_aead marker_nonce (rc_list_tables demo_inspector ''a'' ''db'')
      (rc_columns demo_inspector ''a'' ''db'') ''SELECT'' ''a'' ''db'' demo_pii demo_codec default_runtime 10
      SQLSERVER (ss_catalog (new_state clock)) = (Inr good_query, s')"
proof -
  have "fst (validate_sql (demo_lib good_parsed) plain_aead marker_nonce (slift (tables_view demo_inspector))
      (\<lambda>s t. slift (columns_view demo_inspector s t)) ''SELECT'' ''a'' ''db'' demo_pii demo_codec
      default_runtime 10 SQLSERVER ()) = Inr good_query"
    using good_validate by (simp add: demo_validate_def demo_views demo_tables_def demo_columns_def [abs_def])
  with runs_toD [OF reflected.validate_sql_runs [where dbs = "\<lambda>a d. demo_inspector"] new_state_coherent]
  show ?thesis by metis
qed

definition good_report :: sql_result where
  "good_report = report_result good_result"

lemma demo_server_for:
  "server_for demo_service ''a'' = Inr (demo_server ''a2tra2tra2tra2tra2tra2tra2tra2tra2tra2tra2s='')"
  by (simp add: server_for_def demo_service_def demo_config_def)

text \<open>An operation on the first connection.\<close>

lemma demo_run:
  assumes "op demo_connection 0 (ss_catalog (new_state clock)) = (Inr x, cat)"
  shows "\<exists>st'. service_run demo_service ''a'' (Some ''db'') name op (new_state clock) = (Inr x, st')"
proof -
  obtain e reg where "registry_get (sv_config demo_service) (sv_create demo_service) ''a'' (Some ''db'')
      (ss_registry (new_state clock)) = (Inr e, reg)"
    by (simp add: registry_get_def demo_service_def demo_config_def new_state_def new_registry_def
        create_engine_for_def engine_options_for_def Let_def)
  with assms show ?thesis
    unfolding service_run_def demo_server_for sbind_slift_Inr registry_run_def with_connection_def
    by simp (simp add: demo_service_def new_state_def Let_def)
qed

lemma demo_sql_call:
  "\<exists>st'. sql_call demo_service ''a'' ''db'' ''SELECT'' (Some 10) (new_state clock) = (Inr good_report, st')"
proof -
  have codec: "codec_for (sv_codecs demo_service) ''a'' = Inr demo_codec"
    by (simp add: codec_for_def demo_service_def demo_registry_def demo_codec_def)
  have dia: "dialect_for (engine_text (sc_engine (demo_server k))) = Inr SQLSERVER" for k
    unfolding dialect_for_engine by (simp add: demo_server_def)
  obtain s' where "validate_sql (demo_lib good_parsed) plain_aead marker_nonce (rc_list_tables demo_inspector ''a'' ''db'')
      (rc_columns demo_inspector ''a'' ''db'') ''SELECT'' ''a'' ''db'' demo_pii demo_codec default_runtime 10
      SQLSERVER (ss_catalog (new_state clock)) = (Inr good_query, s')"
    using demo_validates by blast
  then have op: "sql_operation demo_service ''a'' ''db'' ''SELECT'' demo_pii demo_codec 10 SQLSERVER demo_connection 0
      (ss_catalog (new_state clock)) = (Inr good_report, s')"
    by (simp add: sql_operation_def sbind_def slift_def sreturn_def demo_service_def demo_connection_def
        good_execute good_report_def demo_config_def)
  have access: "raise_if (sc_access_level (demo_server k) \<noteq> ALL_PII_SAFE \<or> sc_pii (demo_server k) = None) x = Inr ()"
    "the (sc_pii (demo_server k)) = demo_pii" for k x
    by (simp_all add: demo_server_def raise_if_def)
  show ?thesis
    unfolding sql_call_def demo_server_for codec dia access sbind_slift_Inr Let_def option.case 
    by (rule demo_run [where op = "sql_operation demo_service ''a'' ''db'' ''SELECT'' demo_pii demo_codec 10 SQLSERVER", OF op])
qed

section \<open>Other calls\<close>

abbreviation demo_start :: service_state where
  "demo_start \<equiv> new_state (\<lambda>i. 0)"

definition users_summary :: table_summary where
  "users_summary = \<lparr>tb_schema = Some ''dbo'', tb_name = ''Users''\<rparr>"

lemma demo_listing: "list_tables demo_inspector = Inr [users_summary]"
  by code_simp

lemma demo_list_tables:
  "\<exists>st'. list_tables_call demo_service ''a'' ''db'' (Some ''DBO'') None demo_start = (Inr [users_summary], st')"
proof -
  obtain st' where run: "service_run demo_service ''a'' (Some ''db'') ''list_tables''
      (\<lambda>c n. slift (list_tables (dc_inspector c))) demo_start = (Inr [users_summary], st')"
    using demo_run [where op = "\<lambda>c n. slift (list_tables (dc_inspector c))" and x = "[users_summary]"
        and name = "''list_tables''" and clock = "\<lambda>i. 0"]
    by (auto simp: slift_def demo_connection_def demo_listing)
  have "select_tables (Some ''DBO'') None [users_summary] = [users_summary]" by code_simp
  then show ?thesis
    unfolding list_tables_call_def demo_server_for sbind_slift_Inr by (simp add: sbind_def run sreturn_def)
qed

text \<open>The witnesses of properties of \<open>Service\<close> and \<open>Sessions\<close>.\<close>

theorem listed_tables_are_the_matches_witness:
  "\<exists>e c reflected. sv_connect demo_service (ss_connects demo_start) e = Inr c \<and> list_tables (dc_inspector c) = Inr reflected \<and>
    mset [users_summary] = {#t \<in># mset reflected. schema_matches (Some ''DBO'') (tb_schema t) \<and> contains_text (tb_name t) None#} \<and>
    sorted (map (\<lambda>t. (folded_schema (tb_schema t), casefold (tb_name t))) [users_summary]) \<and>
    (\<forall>k. filter (\<lambda>t. (folded_schema (tb_schema t), casefold (tb_name t)) = k) [users_summary] =
      filter (\<lambda>t. (folded_schema (tb_schema t), casefold (tb_name t)) = k)
        (filter (\<lambda>t. schema_matches (Some ''DBO'') (tb_schema t) \<and> contains_text (tb_name t) None) reflected))"
proof -
  obtain st' where "list_tables_call demo_service ''a'' ''db'' (Some ''DBO'') None demo_start = (Inr [users_summary], st')"
    using demo_list_tables by blast
  then show ?thesis by (rule listed_tables_are_the_matches)
qed

definition failing_run :: "(exn + unit) \<times> service_state" where
  "failing_run = service_run demo_service ''a'' None ''list_databases'' (\<lambda>c n. slift (Inl KeyError)) demo_start"

lemma failing_registry_run:
  "fst (registry_run (sv_config demo_service) (sv_create demo_service) ''a'' None
      (with_connection demo_service (\<lambda>c n. slift (Inl KeyError) :: (catalog_state, exn, unit) stateful))
      (ss_registry demo_start, ss_catalog demo_start, ss_connects demo_start)) = Inl KeyError"
  by (simp add: registry_run_def registry_get_def demo_service_def demo_config_def new_state_def new_registry_def
      create_engine_for_def engine_options_for_def Let_def with_connection_def slift_def demo_server_def
      is_mysql_def)

theorem runs_are_logged_once_witness:
  "\<exists>msg \<in> {''Database operation failed'', ''SQLAlchemy operation failed'', ''Unexpected database operation failure''}.
    fst failing_run = Inl (Domain (unexpected_error ''id'')) \<and> ss_log demo_start = [] \<and>
    ss_log (snd failing_run) =
      [unexpected_log msg ''a'' None ''list_databases'' (sv_class_name demo_service KeyError) ''id'']"
proof -
  have ref: "sv_ref demo_service (ss_refs demo_start) = ''id''" by (simp add: demo_service_def)
  have log: "ss_log demo_start = []" by (simp add: new_state_def)
  from runs_are_logged_once [OF demo_server_for, of None "''list_databases''" "\<lambda>c n. slift (Inl KeyError)"
      demo_start "fst failing_run" "snd failing_run"]
  show ?thesis
    unfolding failing_registry_run ref log by (auto simp: failing_run_def classified_cause_def overlong_cause_def)
qed

definition demo_after :: service_state where
  "demo_after = snd (run_tools demo_service [ListTables ''a'' ''db'' None None,
     ExecuteSql ''a'' ''db'' ''SELECT'' None, ExecuteSql ''b'' ''db'' ''SELECT'' (Some 0)] demo_start)"

theorem cache_is_invisible_witness:
  "fst (sql_call demo_service ''a'' ''db'' ''SELECT'' (Some 10) demo_after) =
    (case rbind (direct_validate demo_service demo_inspector (ss_connects demo_after) ''a'' ''db'' ''SELECT''
          demo_pii demo_codec 10 SQLSERVER) (\<lambda>vq.
        fst (execute_validated (sv_aead demo_service) (sv_nonces demo_service (ss_connects demo_after))
          (dc_driver demo_connection) vq demo_codec)) of
      Inr er \<Rightarrow> Inr (report_result er)
    | Inl x \<Rightarrow> Inl (run_error (sv_ref demo_service (ss_refs demo_after)) x))"
proof -
  have stable: "databases demo_service (\<lambda>a d. demo_inspector)"
    by (simp add: databases_def demo_service_def demo_connection_def)
  obtain e reg where get: "registry_get (sv_config demo_service) (sv_create demo_service) ''a'' (Some ''db'')
      (ss_registry demo_after) = (Inr e, reg)"
    by (cases "map_of (rg_engines (ss_registry demo_after)) (''a'', Some ''db'')")
      (simp_all add: registry_get_def demo_service_def demo_config_def create_engine_for_def engine_options_for_def Let_def)
  show ?thesis
  proof (rule cache_is_invisible [OF stable demo_after_def demo_server_for _ _ _ _ get])
    show "dialect_for (engine_text (sc_engine (demo_server k))) = Inr SQLSERVER" for k
      unfolding dialect_for_engine by (simp add: demo_server_def)
  qed (simp_all add: demo_server_def demo_service_def demo_registry_def codec_for_def demo_codec_def)
qed

end
