(* ===== verification/Entry.thy ===== *)
theory Entry
  imports Diagnostics
begin

text \<open>
  \<open>__main__.py\<close>, the command line of the server, and \<open>tools/check_precommit_snapshot.py\<close>, the
  check of the repository's commit hook.  Recognising the options among the words of the command
  line (argparse), the operating system's random bytes, the server loop and the git commands are
  outside.
\<close>

section \<open>The command line\<close>

text \<open>\<open>_positive_int\<close>, of the number the text denotes.\<close>

definition positive_int :: "int \<Rightarrow> int result" where
  "positive_int n = rbind (raise_if (n < 1)
     (OtherError \<lparr>ex_class = ''ArgumentTypeError'', ex_args = [ArgStr ''must be a positive integer''],
       ex_text = ''must be a positive integer''\<rparr>)) (\<lambda>_. Inr n)"

text \<open>The parsed arguments; \<open>--check-config\<close> and \<open>--gen-pii-key\<close> exclude each other.\<close>

record cli_args =
  ca_config :: string
  ca_check_config :: bool
  ca_gen_pii_key :: "int option"

text \<open>
  How \<open>main\<close> ends: lines on the standard output, an error line and an exit code, a running
  server, or an exception that escapes.
\<close>

datatype main_outcome = Printed "string list" | Exit string int | Serving app_config | Raised exn

text \<open>
  \<open>main\<close> on parsed arguments; \<open>token_bytes k n\<close> is the answer to the call number \<open>k\<close> of
  \<open>secrets.token_bytes(n)\<close>.
\<close>

definition main :: "(string \<Rightarrow> app_config result) \<Rightarrow> (nat \<Rightarrow> nat \<Rightarrow> bytes) \<Rightarrow> cli_args \<Rightarrow> main_outcome" where
  "main load token_bytes args = (case ca_gen_pii_key args of
       Some n \<Rightarrow> Printed (map (\<lambda>k. b64encode (token_bytes k 32)) [0..<nat n])
     | None \<Rightarrow> (case load (ca_config args) of
           Inl (Domain e) \<Rightarrow> Exit (domain_error_str e) 2
         | Inl e \<Rightarrow> Raised e
         | Inr config \<Rightarrow>
             if ca_check_config args
             then Printed [''Configuration valid: '' @ str_nat (length (ac_servers config)) @ '' server alias(es).'']
             else Serving config))"

subsection \<open>The parser\<close>

text \<open>
  \<open>int(value)\<close> of a text: blanks around it, a sign, and digits with single underscores between
  them, at most 4300.
\<close>

definition digits_of :: "string \<Rightarrow> string" where
  "digits_of s = filter (\<lambda>c. c \<noteq> CHR ''_'') s"

fun underscores_ok :: "string \<Rightarrow> bool" where
  "underscores_ok [] \<longleftrightarrow> False"
| "underscores_ok [c] \<longleftrightarrow> is_ascii_digit c"
| "underscores_ok (c # d # s) \<longleftrightarrow> is_ascii_digit c \<and> underscores_ok (if d = CHR ''_'' then s else d # s)"

definition unsigned_int :: "string \<Rightarrow> int option" where
  "unsigned_int s = (if underscores_ok s \<and> length (digits_of s) \<le> INT_MAX_STR_DIGITS then int_of_digits (digits_of s) else None)"

definition py_int :: "string \<Rightarrow> int option" where
  "py_int value = (case strip value of
       [] \<Rightarrow> None
     | c # s \<Rightarrow> if c = CHR ''-'' then map_option uminus (unsigned_int s)
         else unsigned_int (if c = CHR ''+'' then s else c # s))"

definition positive_int_text :: "string \<Rightarrow> int result" where
  "positive_int_text value = (case py_int value of
     None \<Rightarrow> Inl literal_error | Some n \<Rightarrow> positive_int n)"

text \<open>
  The options \<open>_parser\<close> adds: how many words an option takes and what becomes of them, and whether
  it is in the mutually exclusive group.
\<close>

datatype cli_action = StorePath | StoreTrue | StoreCount int

record cli_option =
  co_flag :: string
  co_action :: cli_action
  co_exclusive :: bool

definition cli_options :: "cli_option list" where
  "cli_options =
     [\<lparr>co_flag = ''--config'', co_action = StorePath, co_exclusive = False\<rparr>,
      \<lparr>co_flag = ''--check-config'', co_action = StoreTrue, co_exclusive = True\<rparr>,
      \<lparr>co_flag = ''--gen-pii-key'', co_action = StoreCount 1, co_exclusive = True\<rparr>]"

text \<open>The arguments when no option is given.\<close>

definition default_args :: "(string \<times> string) list \<Rightarrow> cli_args" where
  "default_args env = \<lparr>ca_config = (case map_of env ''SQL_SAFE_MCP_CONFIG'' of
       None \<Rightarrow> ''sql-safe-mcp.yaml'' | Some path \<Rightarrow> path),
     ca_check_config = False, ca_gen_pii_key = None\<rparr>"

text \<open>
  One occurrence of an option with the word it takes, if it takes one: the conversion of the word,
  the test for another option of the group, and the action.  The state has the flags of the group
  seen so far.
\<close>

datatype cli_stop = HelpShown | UsageError string

definition store_option :: "cli_option \<Rightarrow> string option \<Rightarrow> cli_args \<Rightarrow> cli_stop + cli_args" where
  "store_option opt word args = (case (co_action opt, word) of
       (StorePath, Some path) \<Rightarrow> Inr (args\<lparr>ca_config := path\<rparr>)
     | (StoreTrue, None) \<Rightarrow> Inr (args\<lparr>ca_check_config := True\<rparr>)
     | (StoreCount const, None) \<Rightarrow> Inr (args\<lparr>ca_gen_pii_key := Some const\<rparr>)
     | (StoreCount const, Some count) \<Rightarrow> (case positive_int_text count of
           Inl e \<Rightarrow> Inl (UsageError (co_flag opt))
         | Inr n \<Rightarrow> Inr (args\<lparr>ca_gen_pii_key := Some n\<rparr>))
     | _ \<Rightarrow> Inl (UsageError (co_flag opt)))"

definition take_option :: "cli_option \<times> string option \<Rightarrow> string list \<times> cli_args \<Rightarrow> cli_stop + string list \<times> cli_args" where
  "take_option occurrence st = (case (occurrence, st) of ((opt, word), (seen, args)) \<Rightarrow>
     rbind (store_option opt word args) (\<lambda>args'.
     if co_exclusive opt \<and> list_ex (\<lambda>flag. flag \<noteq> co_flag opt) seen then Inl (UsageError (co_flag opt))
     else Inr (if co_exclusive opt then co_flag opt # seen else seen, args')))"

text \<open>
  \<open>parse_args\<close>: argparse recognises the occurrences of the options in the words, in order, or stops
  with the help text or an error of usage.
\<close>

type_synonym recogniser = "cli_option list \<Rightarrow> string list \<Rightarrow> cli_stop + (cli_option \<times> string option) list"

definition parse_args :: "recogniser \<Rightarrow> (string \<times> string) list \<Rightarrow> string list \<Rightarrow> cli_stop + cli_args" where
  "parse_args recognise env words =
     rbind (recognise cli_options words) (\<lambda>occurrences.
     rbind (rfold take_option occurrences ([], default_args env)) (\<lambda>st. Inr (snd st)))"

text \<open>The program: \<open>main\<close> on the parsed arguments.\<close>

definition run_main :: "recogniser \<Rightarrow> (string \<times> string) list \<Rightarrow> string list
    \<Rightarrow> (string \<Rightarrow> app_config result) \<Rightarrow> (nat \<Rightarrow> nat \<Rightarrow> bytes) \<Rightarrow> main_outcome" where
  "run_main recognise env words load token_bytes = (case parse_args recognise env words of
       Inl HelpShown \<Rightarrow> Exit [] 0
     | Inl (UsageError flag) \<Rightarrow> Exit flag 2
     | Inr args \<Rightarrow> main load token_bytes args)"

text \<open>What parsed arguments satisfy.\<close>

definition args_ok :: "cli_args \<Rightarrow> bool" where
  "args_ok args \<longleftrightarrow> \<not> (ca_check_config args \<and> ca_gen_pii_key args \<noteq> None) \<and>
     (\<forall>n. ca_gen_pii_key args = Some n \<longrightarrow> 1 \<le> n)"

definition seen_ok :: "string list \<times> cli_args \<Rightarrow> bool" where
  "seen_ok st \<longleftrightarrow> args_ok (snd st) \<and> (ca_check_config (snd st) \<longrightarrow> ''--check-config'' \<in> set (fst st)) \<and>
     (ca_gen_pii_key (snd st) \<noteq> None \<longrightarrow> ''--gen-pii-key'' \<in> set (fst st))"

lemma positive_int_text_ge: "positive_int_text value = Inr n \<Longrightarrow> 1 \<le> n"
  by (auto simp: positive_int_text_def positive_int_def raise_if_def rbind_def split: option.splits if_splits)

lemma take_option_Inr:
  assumes "take_option (opt, word) (seen, args) = Inr st'"
  obtains args' where "store_option opt word args = Inr args'"
    and "st' = (if co_exclusive opt then co_flag opt # seen else seen, args')"
    and "co_exclusive opt \<longrightarrow> set seen \<subseteq> {co_flag opt}"
  using assms unfolding take_option_def prod.case rbind_eq_Inr_iff
  by (auto simp: list_ex_iff split: if_splits)

lemma store_option_Inr:
  assumes "store_option opt word args = Inr args'" and "opt \<in> set cli_options"
  obtains (config) path where "\<not> co_exclusive opt" "args' = args\<lparr>ca_config := path\<rparr>"
  | (check) "co_exclusive opt" "co_flag opt = ''--check-config''" "args' = args\<lparr>ca_check_config := True\<rparr>"
  | (gen) n where "co_exclusive opt" "co_flag opt = ''--gen-pii-key''" "1 \<le> n" "args' = args\<lparr>ca_gen_pii_key := Some n\<rparr>"
proof -
  from assms(2) consider "opt = cli_options ! 0" | "opt = cli_options ! 1" | "opt = cli_options ! 2"
    by (auto simp: cli_options_def)
  then show thesis
  proof cases
    case 1
    with assms(1) config show thesis
      by (cases word) (auto simp: cli_options_def store_option_def)
  next
    case 2
    with assms(1) check show thesis
      by (cases word) (auto simp: cli_options_def store_option_def)
  next
    case 3
    then have opt: "co_exclusive opt" "co_flag opt = ''--gen-pii-key''" "co_action opt = StoreCount 1"
      by (simp_all add: cli_options_def)
    show thesis
    proof (cases word)
      case None
      with assms(1) opt(3) have "args' = args\<lparr>ca_gen_pii_key := Some 1\<rparr>" by (simp add: store_option_def)
      with gen [OF opt(1,2), of 1] show thesis by simp
    next
      case (Some count)
      with assms(1) opt(3) obtain n where "positive_int_text count = Inr n" "args' = args\<lparr>ca_gen_pii_key := Some n\<rparr>"
        by (auto simp: store_option_def split: sum.splits)
      with gen [OF opt(1,2)] positive_int_text_ge show thesis by blast
    qed
  qed
qed

text \<open>The flags of the group, apart.\<close>

lemma flags_differ: "''--check-config'' \<noteq> ''--gen-pii-key''"
  by simp

lemma take_option_ok:
  assumes "take_option (opt, word) st = Inr st'" and "opt \<in> set cli_options" and "seen_ok st"
  shows "seen_ok st'"
proof -
  obtain seen args where st: "st = (seen, args)" by (cases st)
  from assms(1) [unfolded st] obtain args' where store: "store_option opt word args = Inr args'"
    and st': "st' = (if co_exclusive opt then co_flag opt # seen else seen, args')"
    and only: "co_exclusive opt \<longrightarrow> set seen \<subseteq> {co_flag opt}" by (rule take_option_Inr)
  note ok = assms(3) [unfolded st seen_ok_def args_ok_def fst_conv snd_conv]
  from store assms(2) show ?thesis
  proof (cases rule: store_option_Inr)
    case (config path)
    with ok show ?thesis by (simp add: st' seen_ok_def args_ok_def)
  next
    case check
    with only flags_differ have "''--gen-pii-key'' \<notin> set seen" by auto
    with ok have "ca_gen_pii_key args = None" by blast
    with check show ?thesis by (simp add: st' seen_ok_def args_ok_def)
  next
    case (gen n)
    with only flags_differ have "''--check-config'' \<notin> set seen" by auto
    with ok have "\<not> ca_check_config args" by blast
    with gen show ?thesis by (simp add: st' seen_ok_def args_ok_def)
  qed
qed

lemma parse_args_ok:
  assumes "parse_args recognise env words = Inr args"
    and "\<And>os. recognise cli_options words = Inr os \<Longrightarrow> fst ` set os \<subseteq> set cli_options"
  shows "args_ok args"
proof -
  from assms(1) obtain os st where os: "recognise cli_options words = Inr os"
    and run: "rfold take_option os ([], default_args env) = Inr st" and args: "args = snd st"
    by (auto simp: parse_args_def result_simps)
  have "seen_ok ([], default_args env)" by (simp add: seen_ok_def args_ok_def default_args_def)
  with run have "seen_ok st"
  proof (rule rfold_invariant)
    fix x u v assume "x \<in> set os" "seen_ok u" "take_option x u = Inr v"
    with assms(2) [OF os] take_option_ok [of "fst x" "snd x" u v] show "seen_ok v" by auto
  qed
  with args show ?thesis by (simp add: seen_ok_def)
qed

section \<open>The snapshot check\<close>

text \<open>\<open>problems\<close>.\<close>

definition problems :: "string list \<Rightarrow> string list \<Rightarrow> string list \<Rightarrow> string list" where
  "problems staged_tests unstaged_implementation untracked_files =
     (let messages = (if untracked_files \<noteq> [] then
            [''Untracked code or test files are not part of the staged snapshot:''] @
            map (\<lambda>path. ''  - '' @ path) untracked_files @
            [''Stage or remove these files before committing.'']
          else []) in
      if staged_tests \<noteq> [] \<and> unstaged_implementation \<noteq> [] then
        messages @ (if messages \<noteq> [] then [[]] else []) @
        [''Staged tests may depend on unstaged implementation files:''] @
        map (\<lambda>path. ''  staged test: '' @ path) staged_tests @
        map (\<lambda>path. ''  unstaged implementation: '' @ path) unstaged_implementation @
        [''Stage related files together, or unstage the tests before committing.'']
      else messages)"

text \<open>
  \<open>main\<close> of the check, over the three answers of git (\<open>None\<close>: git failed): the exit code and
  the lines on the standard error.
\<close>

definition snapshot_main :: "(string list \<times> string list \<times> string list) option \<Rightarrow> int \<times> string list" where
  "snapshot_main paths = (case paths of
       None \<Rightarrow> (1, [''index-consistency: unable to inspect Git state.''])
     | Some (staged, unstaged, untracked) \<Rightarrow>
         let messages = problems staged unstaged untracked in
         if messages = [] then (0, [])
         else (1, ''index-consistency: pre-commit tests the staged snapshot.'' # messages))"

text \<open>\<open>s.splitlines()\<close>: the line breaks of Python among the characters of the model.\<close>

definition is_line_break :: "char \<Rightarrow> bool" where
  "is_line_break c \<longleftrightarrow> 10 \<le> ord c \<and> ord c \<le> 13 \<or> 28 \<le> ord c \<and> ord c \<le> 30 \<or> ord c = 133"

text \<open>What follows a line break; a carriage return takes the newline after it along.\<close>

fun after_break :: "string \<Rightarrow> string" where
  "after_break [] = []"
| "after_break [c] = []"
| "after_break (c # d # s) = (if ord c = 13 \<and> ord d = 10 then s else d # s)"

lemma length_after_break [simp]: "s \<noteq> [] \<Longrightarrow> length (after_break s) < length s"
  by (induction s rule: after_break.induct) auto

function splitlines :: "string \<Rightarrow> string list" where
  "splitlines s = (if s = [] then []
     else takeWhile (\<lambda>c. \<not> is_line_break c) s # splitlines (after_break (dropWhile (\<lambda>c. \<not> is_line_break c) s)))"
  by pat_completeness auto
termination
proof (relation "measure length", simp)
  fix s :: string assume s: "s \<noteq> []"
  let ?r = "dropWhile (\<lambda>c. \<not> is_line_break c) s"
  have "length (after_break ?r) < length s"
  proof (cases "?r = []")
    case True
    from s show ?thesis unfolding True by simp
  next
    case False
    show ?thesis by (rule less_le_trans [OF length_after_break [OF False] length_dropWhile_le])
  qed
  then show "(after_break ?r, s) \<in> measure length" by simp
qed

declare splitlines.simps [simp del]

text \<open>
  A git command: its standard output, the exit code of a failure, or the exception of not being able
  to start it.
\<close>

datatype git_outcome = GitOutput string | GitFailed int | GitError exn

definition called_process_error :: "int \<Rightarrow> exn" where
  "called_process_error code = OtherError \<lparr>ex_class = ''CalledProcessError'', ex_args = [ArgInt code], ex_text = []\<rparr>"

definition is_called_process_error :: "exn \<Rightarrow> bool" where
  "is_called_process_error e \<longleftrightarrow> (case e of OtherError x \<Rightarrow> ex_class x = ''CalledProcessError'' | _ \<Rightarrow> False)"

definition git_paths :: "(string list \<Rightarrow> git_outcome) \<Rightarrow> string list \<Rightarrow> string list result" where
  "git_paths git arguments = (case git arguments of
       GitOutput stdout \<Rightarrow> Inr (filter (\<lambda>path. path \<noteq> []) (splitlines stdout))
     | GitFailed code \<Rightarrow> Inl (called_process_error code)
     | GitError e \<Rightarrow> Inl e)"

text \<open>The three commands in their order, and \<open>main\<close> with its handler.\<close>

definition snapshot_paths :: "(string list \<Rightarrow> git_outcome) \<Rightarrow> (string list \<times> string list \<times> string list) result" where
  "snapshot_paths git =
     rbind (git_paths git [''diff'', ''--cached'', ''--name-only'', ''--'', ''tests'']) (\<lambda>staged.
     rbind (git_paths git [''diff'', ''--name-only'', ''--'', ''src'', ''scripts'']) (\<lambda>unstaged.
     rbind (git_paths git [''ls-files'', ''--others'', ''--exclude-standard'', ''--'', ''tests'', ''src'', ''scripts''])
       (\<lambda>untracked. Inr (staged, unstaged, untracked))))"

definition snapshot_check :: "(string list \<Rightarrow> git_outcome) \<Rightarrow> (int \<times> string list) result" where
  "snapshot_check git = (case snapshot_paths git of
       Inr paths \<Rightarrow> Inr (snapshot_main (Some paths))
     | Inl e \<Rightarrow> if is_called_process_error e then Inr (snapshot_main None) else Inl e)"

text \<open>The lines of a text of lines, and the paths git names.\<close>

lemma splitlines_line:
  assumes "list_all (\<lambda>c. \<not> is_line_break c) l"
  shows "splitlines (l @ [CHR 0x0A] @ s) = l # splitlines s"
proof -
  have nl: "is_line_break (CHR 0x0A)" by (simp add: is_line_break_def)
  have "takeWhile (\<lambda>c. \<not> is_line_break c) (l @ CHR 0x0A # s) = l"
    "dropWhile (\<lambda>c. \<not> is_line_break c) (l @ CHR 0x0A # s) = CHR 0x0A # s"
    using assms nl by (simp_all add: list_all_iff takeWhile_append2 dropWhile_append2)
  moreover have "after_break (CHR 0x0A # s) = s" by (cases s) auto
  ultimately show ?thesis by (subst splitlines.simps) simp
qed

lemma splitlines_lines:
  "list_all (list_all (\<lambda>c. \<not> is_line_break c)) ls \<Longrightarrow> splitlines (concat (map (\<lambda>l. l @ [CHR 0x0A]) ls)) = ls"
proof (induction ls)
  case Nil
  show ?case by (simp add: splitlines.simps [of "[]"])
next
  case (Cons l ls)
  then show ?case using splitlines_line [of l "concat (map (\<lambda>l. l @ [CHR 0x0A]) ls)"] by simp
qed

lemma git_paths_lines:
  assumes "git arguments = GitOutput (concat (map (\<lambda>l. l @ [CHR 0x0A]) ls))"
    and "list_all (\<lambda>l. l \<noteq> [] \<and> list_all (\<lambda>c. \<not> is_line_break c) l) ls"
  shows "git_paths git arguments = Inr ls"
  using assms splitlines_lines [of ls]
  by (simp add: git_paths_def list_all_iff filter_id_conv)

section \<open>Property\<close>

text \<open>
  C38. The keys \<open>--gen-pii-key\<close> prints are keys a configuration accepts.  With a source of random
  bytes that gives as many as it is asked for, each of the lines printed, one for each key asked for, is
  loaded as the key of a server that names a variable with it, and decodes to the random bytes it was
  made of.
\<close>

theorem generated_keys_are_accepted:
  assumes "main load token_bytes \<lparr>ca_config = path, ca_check_config = check, ca_gen_pii_key = Some n\<rparr> = Printed keys"
    and "\<And>k nbytes. length (token_bytes k nbytes) = nbytes" and "map_of env name = Some (keys ! k)" and "k < length keys"
  shows "load_key env alias (YText name) d = Inr (yset ''pii_key'' (YText (keys ! k)) d) \<and>
    (\<exists>nbytes. b64decode_strict (keys ! k) = Some (token_bytes k nbytes)) \<and> length keys = nat n"
proof -
  from assms(1) have keys: "keys = map (\<lambda>k. b64encode (token_bytes k 32)) [0..<nat n]" by (simp add: main_def)
  with assms(4) have key: "keys ! k = b64encode (token_bytes k 32)" "length keys = nat n" by simp_all
  with assms(2,3) have "load_key env alias (YText name) d = Inr (yset ''pii_key'' (YText (keys ! k)) d)"
    by (simp add: load_key_def b64decode_b64encode)
  with key b64decode_b64encode show ?thesis by metis
qed

definition sample_random :: "nat \<Rightarrow> nat \<Rightarrow> bytes" where
  "sample_random k nbytes = replicate nbytes (CHR ''k'')"

theorem generated_keys_are_accepted_witness:
  "load_key [(''K'', [b64encode (replicate 32 (CHR ''k''))] ! 0)] (YKey ''s'') (YText ''K'') [] =
     Inr (yset ''pii_key'' (YText ([b64encode (replicate 32 (CHR ''k''))] ! 0)) []) \<and>
   (\<exists>nbytes. b64decode_strict ([b64encode (replicate 32 (CHR ''k''))] ! 0) = Some (sample_random 0 nbytes)) \<and>
   length [b64encode (replicate 32 (CHR ''k''))] = nat 1"
proof (rule generated_keys_are_accepted)
  show "main (\<lambda>p. Inl OSError) sample_random \<lparr>ca_config = [], ca_check_config = False, ca_gen_pii_key = Some 1\<rparr> =
    Printed [b64encode (replicate 32 (CHR ''k''))]" by (simp add: main_def sample_random_def)
qed (simp_all add: sample_random_def)

lemma snapshot_exit:
  "fst (snapshot_main (Some (staged, unstaged, untracked))) =
     (if untracked = [] \<and> (staged = [] \<or> unstaged = []) then 0 else 1)"
  by (simp add: snapshot_main_def problems_def Let_def)

text \<open>
  The snapshot check passes exactly when it should: its exit code is 0 when git answers and there is
  neither an untracked file nor a staged test beside an unstaged implementation file, and otherwise 1;
  every path it objects to is in what it prints.
\<close>

theorem snapshot_check_reports_all:
  "fst (snapshot_main (Some (staged, unstaged, untracked))) =
     (if untracked = [] \<and> (staged = [] \<or> unstaged = []) then 0 else 1) \<and>
   set (map (\<lambda>p. ''  - '' @ p) untracked) \<subseteq> set (snd (snapshot_main (Some (staged, unstaged, untracked)))) \<and>
   (staged = [] \<or> unstaged = [] \<or>
      set (map (\<lambda>p. ''  staged test: '' @ p) staged @ map (\<lambda>p. ''  unstaged implementation: '' @ p) unstaged)
        \<subseteq> set (snd (snapshot_main (Some (staged, unstaged, untracked)))))"
proof -
  show ?thesis
    by (cases "untracked = []"; cases "staged = []"; cases "unstaged = []")
      (simp_all add: snapshot_main_def problems_def Let_def subset_insertI2 le_supI1 le_supI2 del: append_Cons)
qed

text \<open>
  With git: the check passes when git names no untracked file and not both a staged test and an
  unstaged implementation file, fails when git does or cannot say, and raises nothing but what
  starting git raises.
\<close>

theorem snapshot_check_passes:
  assumes "snapshot_check git = Inr (code, lines)"
  shows "code = 0 \<longleftrightarrow>
    (\<exists>staged unstaged. snapshot_paths git = Inr (staged, unstaged, []) \<and> (staged = [] \<or> unstaged = []))"
proof (cases "snapshot_paths git")
  case (Inl e)
  with assms show ?thesis by (auto simp: snapshot_check_def snapshot_main_def split: if_splits)
next
  case (Inr paths)
  obtain staged unstaged untracked where paths: "paths = (staged, unstaged, untracked)" by (cases paths)
  with assms Inr have "code = fst (snapshot_main (Some (staged, unstaged, untracked)))"
    by (simp add: snapshot_check_def)
  with snapshot_exit [of staged unstaged untracked] Inr paths show ?thesis by auto
qed

lemma git_paths_Inl: "git_paths git arguments = Inl e \<Longrightarrow> is_called_process_error e \<or> git arguments = GitError e"
  by (cases "git arguments") (auto simp: git_paths_def is_called_process_error_def called_process_error_def)

lemma snapshot_check_raises:
  assumes "snapshot_check git = Inl e"
  shows "\<exists>arguments. git arguments = GitError e"
proof -
  from assms have "snapshot_paths git = Inl e" "\<not> is_called_process_error e"
    by (auto simp: snapshot_check_def split: sum.splits if_splits)
  then show ?thesis
    unfolding snapshot_paths_def rbind_eq_Inl_iff using git_paths_Inl by blast
qed

end
