(* ===== verification/Programs.thy ===== *)
theory Programs
  imports Sessions
begin

text \<open>
  \<open>execute_sql\<close> at the grain of the schema cache's lock.  \<open>SchemaCache.get\<close> and \<open>put\<close> each take
  the lock for themselves, so between two of them the operations of other threads may run.  A
  program is what one operation still has to do: it has ended, or it is about to call \<open>get\<close> or
  \<open>put\<close> and goes on with the answer.  Run without interruption the programs are the operations of
  the sequential model.
\<close>

section \<open>Programs over the cache\<close>

datatype 'a prog =
    Done "exn + 'a"
  | Get cache_key "cache_value option \<Rightarrow> 'a prog"
  | Put cache_key cache_value "exn + unit \<Rightarrow> 'a prog"

primrec pbind :: "'a prog \<Rightarrow> ('a \<Rightarrow> 'b prog) \<Rightarrow> 'b prog" where
  "pbind (Done r) g = (case r of Inl e \<Rightarrow> Done (Inl e) | Inr x \<Rightarrow> g x)"
| "pbind (Get k f) g = Get k (\<lambda>v. pbind (f v) g)"
| "pbind (Put k v f) g = Put k v (\<lambda>r. pbind (f r) g)"

text \<open>A loop body over a list, in order.\<close>

primrec pfold :: "('a \<Rightarrow> 'b \<Rightarrow> 'b prog) \<Rightarrow> 'a list \<Rightarrow> 'b \<Rightarrow> 'b prog" where
  "pfold f [] b = Done (Inr b)"
| "pfold f (x # xs) b = pbind (f x b) (pfold f xs)"

text \<open>The program run with no other thread in between.\<close>

primrec run_prog :: "'a prog \<Rightarrow> (catalog_state, exn, 'a) stateful" where
  "run_prog (Done r) s = (r, s)"
| "run_prog (Get k f) s = (case catalog_get k s of
     (Inl e, s') \<Rightarrow> (Inl e, s') | (Inr v, s') \<Rightarrow> run_prog (f v) s')"
| "run_prog (Put k v f) s = (case catalog_put k v s of (r, s') \<Rightarrow> run_prog (f r) s')"

section \<open>The operations\<close>

text \<open>\<open>ReflectedCatalog.list_tables\<close> and \<open>.columns\<close>.\<close>

definition p_list_tables :: "inspector \<Rightarrow> string \<Rightarrow> string \<Rightarrow> (string \<times> string) list prog" where
  "p_list_tables ins alias database = Get (tables_key alias database) (\<lambda>cached. case cached of
       Some (TableTuple ts) \<Rightarrow> Done (Inr ts)
     | Some (ColumnTuple _) \<Rightarrow> Done (Inl (TypeError ''not a tuple of pairs''))
     | None \<Rightarrow> pbind (Done (tables_view ins)) (\<lambda>ts.
         Put (tables_key alias database) (TableTuple ts) (\<lambda>r. Done (rbind r (\<lambda>_. Inr ts)))))"

definition p_columns :: "inspector \<Rightarrow> string \<Rightarrow> string \<Rightarrow> string \<Rightarrow> string \<Rightarrow> string list prog" where
  "p_columns ins alias database schema table = Get (columns_key alias database schema table) (\<lambda>cached. case cached of
       Some (ColumnTuple cs) \<Rightarrow> Done (Inr cs)
     | Some (TableTuple _) \<Rightarrow> Done (Inl (TypeError ''not a tuple of names''))
     | None \<Rightarrow> pbind (Done (columns_view ins schema table)) (\<lambda>cs.
         Put (columns_key alias database schema table) (ColumnTuple cs) (\<lambda>r. Done (rbind r (\<lambda>_. Inr cs)))))"

text \<open>\<open>resolve_tables\<close>, one table and all of them.\<close>

definition p_resolve_table :: "dialect \<Rightarrow> (string \<times> string) list \<Rightarrow> (string \<Rightarrow> string \<Rightarrow> string list prog) \<Rightarrow> pos
    \<Rightarrow> node \<times> table_schema list \<Rightarrow> (node \<times> table_schema list) prog" where
  "p_resolve_table d available columns p st = (case sub (fst st) p of
       None \<Rightarrow> Done (Inr st)
     | Some t \<Rightarrow>
         if nkind t \<noteq> KTable then Done (Inr st)
         else
           pbind (Done (raise_if (truthy_arg (arg t ''catalog'') \<or>
               \<not> is_kind (arg t ''this'') [KIdentifier]) (reject TABLE_SCOPE))) (\<lambda>_.
           pbind (Done (raise_if (\<not> d_has_schema d \<and> table_db t \<noteq> []) (reject TABLE_SCOPE))) (\<lambda>_.
           pbind (Done (match_table available
               (if table_db t = [] then None else Some (table_db t)) (node_name t))) (\<lambda>m.
           pbind (columns (fst m) (snd m)) (\<lambda>cols.
           Done (Inr (upd p (rewrite_table d (fst m) (snd m)) (fst st),
             snd st @ [\<lparr>ts_schema = fst m, ts_name = snd m, ts_columns = cols\<rparr>])))))))"

definition p_resolve_tables :: "walker \<Rightarrow> (string \<times> string) list prog \<Rightarrow> (string \<Rightarrow> string \<Rightarrow> string list prog)
    \<Rightarrow> dialect \<Rightarrow> node \<Rightarrow> (node \<times> table_schema list) prog" where
  "p_resolve_tables walk tables columns d q =
     pbind tables (\<lambda>available. pfold (p_resolve_table d available columns) (find_all walk [KTable] q) (q, []))"

text \<open>\<open>validate_sql\<close> and the operation of \<open>execute_sql\<close>.\<close>

definition p_validate :: "service \<Rightarrow> inspector \<Rightarrow> nat \<Rightarrow> string \<Rightarrow> string \<Rightarrow> string \<Rightarrow> pii_config \<Rightarrow> token_codec
    \<Rightarrow> int \<Rightarrow> dialect \<Rightarrow> validated_query prog" where
  "p_validate sv ins n a database sql pii codec m d =
     pbind (Done (parse_select (sv_sqlglot sv) sql (limits_from_runtime (ac_runtime (sv_config sv))) d)) (\<lambda>q.
     pbind (p_resolve_tables (sg_walk (sv_sqlglot sv)) (p_list_tables ins a database) (p_columns ins a database) d q)
       (\<lambda>resolved. Done (decide (sv_sqlglot sv) (sv_aead sv) (sv_marker_nonce sv n) a database pii codec
         (ac_runtime (sv_config sv)) m d resolved)))"

definition p_sql_operation :: "service \<Rightarrow> string \<Rightarrow> string \<Rightarrow> string \<Rightarrow> pii_config \<Rightarrow> token_codec \<Rightarrow> int \<Rightarrow> dialect
    \<Rightarrow> db_connection \<Rightarrow> nat \<Rightarrow> sql_result prog" where
  "p_sql_operation sv a database sql pii codec m d c n =
     pbind (p_validate sv (dc_inspector c) n a database sql pii codec m d) (\<lambda>validated.
     Done (rbind (fst (execute_validated (sv_aead sv) (sv_nonces sv n) (dc_driver c) validated codec)) (\<lambda>executed.
       Inr (report_result executed))))"

section \<open>Uninterrupted programs are the sequential operations\<close>

lemma run_pbind: "run_prog (pbind m g) = sbind (run_prog m) (\<lambda>x. run_prog (g x))"
proof (rule ext)
  show "run_prog (pbind m g) s = sbind (run_prog m) (\<lambda>x. run_prog (g x)) s" for s
    by (induction m arbitrary: s) (auto simp: sbind_def pbind.simps split: sum.splits prod.splits)
qed

lemma run_Done: "run_prog (Done r) = slift r"
  by (rule ext) (simp add: slift_def)

lemma slift_Inr_sreturn: "slift (Inr x) = sreturn x"
  by (rule ext) (simp add: slift_def sreturn_def)

lemma run_pfold: "run_prog (pfold f xs b) = sfold (\<lambda>x b. run_prog (f x b)) xs b"
  by (induction xs arbitrary: b) (simp_all add: run_pbind run_Done slift_Inr_sreturn)

lemmas run_simps = run_pbind run_Done slift_Inr_sreturn run_pfold

text \<open>\<open>pbind\<close> stays folded, so that \<open>run_pbind\<close> meets it.\<close>

declare pbind.simps [simp del]

lemma run_p_list_tables: "run_prog (p_list_tables ins a d) = rc_list_tables ins a d"
  by (rule ext) (auto simp: p_list_tables_def pbind.simps rc_list_tables_def sbind_def sreturn_def slift_def rbind_def
      split: sum.splits prod.splits option.splits cache_value.splits)

lemma run_p_columns: "run_prog (p_columns ins a d sn tn) = rc_columns ins a d sn tn"
  by (rule ext) (auto simp: p_columns_def pbind.simps rc_columns_def sbind_def sreturn_def slift_def rbind_def
      split: sum.splits prod.splits option.splits cache_value.splits)

lemma run_p_resolve_table:
  assumes "\<And>s t. run_prog (columns s t) = columns' s t"
  shows "run_prog (p_resolve_table d available columns p st) = resolve_table d available columns' p st"
  by (simp add: p_resolve_table_def resolve_table_def run_simps assms split: option.split)

lemma run_p_resolve_tables:
  assumes "run_prog tables = tables'" and "\<And>s t. run_prog (columns s t) = columns' s t"
  shows "run_prog (p_resolve_tables walk tables columns d q) = resolve_tables walk tables' columns' d q"
  by (simp add: p_resolve_tables_def resolve_tables_def run_simps run_p_resolve_table [OF assms(2)] assms(1))

lemma run_p_validate:
  "run_prog (p_validate sv ins n a database sql pii codec m d) =
     validate_sql (sv_sqlglot sv) (sv_aead sv) (sv_marker_nonce sv n) (rc_list_tables ins a database)
       (rc_columns ins a database) sql a database pii codec (ac_runtime (sv_config sv)) m d"
  by (simp add: p_validate_def validate_sql_def run_simps
      run_p_resolve_tables [OF run_p_list_tables run_p_columns])

lemma run_p_sql_operation:
  "run_prog (p_sql_operation sv a database sql pii codec m d c n) =
     sql_operation sv a database sql pii codec m d c n"
  by (rule ext) (auto simp: p_sql_operation_def sql_operation_def run_simps run_p_validate sbind_def slift_def
      sreturn_def rbind_def split: sum.splits prod.splits)

section \<open>Programs whose answer the cache cannot change\<close>

text \<open>
  \<open>answers dbs p r\<close>: whatever coherent entries \<open>get\<close> finds, and whether it finds any, the
  program ends with \<open>r\<close>, and it puts coherent entries only.
\<close>

primrec answers :: "(string \<Rightarrow> string \<Rightarrow> inspector) \<Rightarrow> 'a prog \<Rightarrow> exn + 'a \<Rightarrow> bool" where
  "answers dbs (Done x) r \<longleftrightarrow> x = r"
| "answers dbs (Get k f) r \<longleftrightarrow> answers dbs (f None) r \<and>
     (\<forall>v. entry_coherent dbs k v \<longrightarrow> answers dbs (f (Some v)) r)"
| "answers dbs (Put k v f) r \<longleftrightarrow> entry_coherent dbs k v \<and> answers dbs (f (Inr ())) r"

lemma answers_pbind:
  assumes "answers dbs m r" and "\<And>x. r = Inr x \<Longrightarrow> answers dbs (g x) (h x)"
  shows "answers dbs (pbind m g) (rbind r h)"
  using assms by (induction m) (auto simp: pbind.simps split: sum.split)

lemma answers_Done: "answers dbs (Done r) r"
  by simp

lemma answers_pfold:
  "(\<And>x b. x \<in> set xs \<Longrightarrow> answers dbs (f x b) (h x b)) \<Longrightarrow> answers dbs (pfold f xs b) (rfold h xs b)"
  by (induction xs arbitrary: b) (auto intro!: answers_pbind)

lemma answers_p_list_tables: "answers dbs (p_list_tables (dbs a d) a d) (tables_view (dbs a d))"
  by (auto simp: p_list_tables_def pbind.simps entry_coherent_tables split: sum.split option.split cache_value.split)

lemma answers_p_columns: "answers dbs (p_columns (dbs a d) a d sn tn) (columns_view (dbs a d) sn tn)"
  by (auto simp: p_columns_def pbind.simps entry_coherent_columns split: sum.split option.split cache_value.split)

text \<open>Against the code without state, step by step.\<close>

lemma answers_stateless:
  "answers dbs m (fst (n ())) \<Longrightarrow> (\<And>x. fst (n ()) = Inr x \<Longrightarrow> answers dbs (g x) (fst (h x ()))) \<Longrightarrow>
     answers dbs (pbind m g) (fst (sbind n h ()))"
  unfolding fst_sbind_unit by (rule answers_pbind)

lemma answers_slift: "answers dbs (Done r) (fst (slift r ()))"
  by (simp add: slift_def)

lemma answers_sreturn: "answers dbs (Done (Inr x)) (fst (sreturn x ()))"
  by (simp add: sreturn_def)

lemmas answers_intros = answers_stateless answers_slift answers_sreturn

lemma answers_p_resolve_table:
  assumes "\<And>sn tn. answers dbs (columns sn tn) (view sn tn)"
  shows "answers dbs (p_resolve_table d available columns p st)
    (fst (resolve_table d available (\<lambda>sn tn. slift (view sn tn)) p st ()))"
proof -
  have "answers dbs (columns sn tn) (fst (slift (view sn tn) ()))" for sn tn
    using assms by (simp add: slift_def)
  then show ?thesis
    unfolding p_resolve_table_def resolve_table_def
    by (auto split: option.split intro!: answers_intros simp del: answers.simps)
qed

lemma answers_p_validate:
  "answers dbs (p_validate sv (dbs a d) n a d sql pii codec m dia)
     (direct_validate sv (dbs a d) n a d sql pii codec m dia)"
  unfolding p_validate_def direct_validate_def validate_sql_def p_resolve_tables_def resolve_tables_def
proof (intro answers_stateless answers_slift)
  show "answers dbs (p_list_tables (dbs a d) a d) (fst (slift (tables_view (dbs a d)) ()))"
    using answers_p_list_tables by (simp add: slift_def)
  show "answers dbs (pfold (p_resolve_table dia available (p_columns (dbs a d) a d)) ps b)
      (fst (sfold (resolve_table dia available (\<lambda>s t. slift (columns_view (dbs a d) s t))) ps b ()))" for available ps b
    unfolding fst_sfold_unit by (intro answers_pfold answers_p_resolve_table answers_p_columns)
qed

text \<open>What \<open>execute_sql\<close> returns from the database itself.\<close>

definition direct_sql :: "service \<Rightarrow> inspector \<Rightarrow> string \<Rightarrow> string \<Rightarrow> string \<Rightarrow> pii_config \<Rightarrow> token_codec \<Rightarrow> int \<Rightarrow> dialect
    \<Rightarrow> db_connection \<Rightarrow> nat \<Rightarrow> sql_result result" where
  "direct_sql sv ins a d sql pii codec m dia c n =
     rbind (direct_validate sv ins n a d sql pii codec m dia) (\<lambda>vq.
     rbind (fst (execute_validated (sv_aead sv) (sv_nonces sv n) (dc_driver c) vq codec)) (\<lambda>er.
       Inr (report_result er)))"

lemma answers_p_sql_operation:
  assumes "dc_inspector c = dbs a d"
  shows "answers dbs (p_sql_operation sv a d sql pii codec m dia c n) (direct_sql sv (dbs a d) a d sql pii codec m dia c n)"
  unfolding p_sql_operation_def direct_sql_def assms
  by (intro answers_pbind answers_p_validate answers_Done)

end
