(* ===== verification/Concurrency.thy ===== *)
theory Concurrency
  imports Programs
begin

text \<open>
  Many calls at once.  Calls arrive on the event loop, where \<open>EngineRegistry.run\<close> gets the engine
  and hands the operation to a worker thread as soon as the limiter has a token for it.  A worker
  holds its token until its operation has ended; the workers' operations interleave at the schema
  cache's lock.  Back on the event loop \<open>_run\<close> turns the outcome into the call's.  The theory has
  the steps of this server, and what every schedule of them keeps.
\<close>

section \<open>Runs\<close>

text \<open>What the operations of the service return.\<close>

datatype run_value =
    RunNames "string list"
  | RunTables "table_summary list"
  | RunTable table_definition
  | RunProcedures "procedure_summary list"
  | RunProcedure "procedure_definition option"
  | RunSql sql_result

text \<open>
  One call of \<open>DatabaseService._run\<close>: that of \<open>execute_sql\<close>, or one of the others, whose
  operation is a function of the connection and touches no state of the service.
\<close>

datatype run_request =
    SqlRun string string string pii_config token_codec int dialect
  | ReadRun string "string option" string "db_connection \<Rightarrow> run_value result"

primrec rq_alias :: "run_request \<Rightarrow> string" where
  "rq_alias (SqlRun a d sql pii codec limit dia) = a"
| "rq_alias (ReadRun a d name f) = a"

primrec rq_database :: "run_request \<Rightarrow> string option" where
  "rq_database (SqlRun a d sql pii codec limit dia) = Some d"
| "rq_database (ReadRun a d name f) = d"

primrec rq_name :: "run_request \<Rightarrow> string" where
  "rq_name (SqlRun a d sql pii codec limit dia) = ''execute_sql''"
| "rq_name (ReadRun a d name f) = name"

text \<open>The operation as a program, in the sequential model, and with no cache.\<close>

primrec rq_program :: "service \<Rightarrow> run_request \<Rightarrow> db_connection \<Rightarrow> nat \<Rightarrow> run_value prog" where
  "rq_program sv (SqlRun a d sql pii codec limit dia) c n =
     pbind (p_sql_operation sv a d sql pii codec limit dia c n) (\<lambda>r. Done (Inr (RunSql r)))"
| "rq_program sv (ReadRun a d name f) c n = Done (f c)"

primrec rq_operation :: "service \<Rightarrow> run_request \<Rightarrow> run_value db_operation" where
  "rq_operation sv (SqlRun a d sql pii codec limit dia) c n =
     sbind (sql_operation sv a d sql pii codec limit dia c n) (\<lambda>r. sreturn (RunSql r))"
| "rq_operation sv (ReadRun a d name f) c n = slift (f c)"

primrec rq_direct :: "service \<Rightarrow> (string \<Rightarrow> string \<Rightarrow> inspector) \<Rightarrow> run_request \<Rightarrow> db_connection \<Rightarrow> nat \<Rightarrow> run_value result" where
  "rq_direct sv dbs (SqlRun a d sql pii codec limit dia) c n =
     rbind (direct_sql sv (dbs a d) a d sql pii codec limit dia c n) (\<lambda>r. Inr (RunSql r))"
| "rq_direct sv dbs (ReadRun a d name f) c n = f c"

lemma run_rq_program: "run_prog (rq_program sv q c n) = rq_operation sv q c n"
  by (cases q) (simp_all add: run_simps run_p_sql_operation)

section \<open>The server\<close>

text \<open>
  A run waits for the limiter with its engine, has a worker with the rest of its program, or has
  ended with what \<open>_run\<close> returned or raised.
\<close>

datatype job =
    Waiting run_request db_engine
  | Working run_request "run_value prog"
  | Ended run_request "run_value result"

primrec job_request :: "job \<Rightarrow> run_request" where
  "job_request (Waiting q e) = q"
| "job_request (Working q p) = q"
| "job_request (Ended q r) = q"

fun is_working :: "job \<Rightarrow> bool" where
  "is_working (Working q p) \<longleftrightarrow> True"
| "is_working _ \<longleftrightarrow> False"

fun is_ended :: "job \<Rightarrow> bool" where
  "is_ended (Ended q r) \<longleftrightarrow> True"
| "is_ended _ \<longleftrightarrow> False"

record server =
  sd_state :: service_state
  sd_jobs :: "job list"

definition new_server :: "(nat \<Rightarrow> int) \<Rightarrow> server" where
  "new_server clock = \<lparr>sd_state = new_state clock, sd_jobs = []\<rparr>"

text \<open>
  \<open>anyio.CapacityLimiter\<close> is a library: \<open>admit t n\<close> says whether it grants a token when \<open>n\<close>
  of \<open>t\<close> are borrowed.  It never grants more than it has, and grants one while none is borrowed.
\<close>

type_synonym limiter = "int \<Rightarrow> nat \<Rightarrow> bool"

definition limits :: "limiter \<Rightarrow> bool" where
  "limits admit \<longleftrightarrow> (\<forall>t n. admit t n \<longrightarrow> int n < t) \<and> (\<forall>t. 0 < t \<longrightarrow> admit t 0)"

definition borrowed :: "server \<Rightarrow> nat" where
  "borrowed s = length (filter is_working (sd_jobs s))"

definition grants :: "service \<Rightarrow> limiter \<Rightarrow> server \<Rightarrow> bool" where
  "grants sv admit s \<longleftrightarrow> admit (max_concurrent_db_operations (ac_runtime (sv_config sv))) (borrowed s)"

text \<open>What \<open>_run\<close> makes of an outcome on the event loop.\<close>

definition end_run :: "service \<Rightarrow> server_config \<Rightarrow> run_request \<Rightarrow> run_value result \<Rightarrow> service_state
    \<Rightarrow> run_value result \<times> service_state" where
  "end_run sv server q r st = (case r of
     Inr x \<Rightarrow> (Inr x, st\<lparr>ss_log := ss_log st @
       [success_log (rq_alias q) (rq_database q) (rq_name q) (sv_elapsed sv (length (ss_log st)))]\<rparr>)
   | Inl e \<Rightarrow>
       let ref = sv_ref sv (ss_refs st);
           secrets = secrets_for (sv_make_url sv) (sc_connection_url server) (rq_alias q) in
       (case run_failure (sv_class_name sv) secrets (rq_alias q) (rq_database q) (rq_name q) ref e of
          (raised, lines) \<Rightarrow> (Inl raised, st\<lparr>ss_refs := Suc (ss_refs st), ss_log := ss_log st @ lines\<rparr>)))"

text \<open>
  A run arrives: on an unknown server it ends at once, without an engine it ends with the error of
  \<open>get\<close>, and otherwise it waits.
\<close>

inductive arrive_step :: "service \<Rightarrow> server \<Rightarrow> server \<Rightarrow> bool" for sv where
  unknown: "server_for sv (rq_alias q) = Inl x \<Longrightarrow>
     arrive_step sv \<lparr>sd_state = st, sd_jobs = js\<rparr> \<lparr>sd_state = st, sd_jobs = js @ [Ended q (Inl x)]\<rparr>"
| refused: "server_for sv (rq_alias q) = Inr server \<Longrightarrow>
     registry_get (sv_config sv) (sv_create sv) (rq_alias q) (rq_database q) (ss_registry st) = (Inl x, reg) \<Longrightarrow>
     end_run sv server q (Inl x) (st\<lparr>ss_registry := reg\<rparr>) = (r, st') \<Longrightarrow>
     arrive_step sv \<lparr>sd_state = st, sd_jobs = js\<rparr> \<lparr>sd_state = st', sd_jobs = js @ [Ended q r]\<rparr>"
| accepted: "server_for sv (rq_alias q) = Inr server \<Longrightarrow>
     registry_get (sv_config sv) (sv_create sv) (rq_alias q) (rq_database q) (ss_registry st) = (Inr e, reg) \<Longrightarrow>
     arrive_step sv \<lparr>sd_state = st, sd_jobs = js\<rparr>
       \<lparr>sd_state = st\<lparr>ss_registry := reg\<rparr>, sd_jobs = js @ [Waiting q e]\<rparr>"

text \<open>The program of a worker on the connection it opens, if it opens one.\<close>

definition on_connection :: "service \<Rightarrow> run_request \<Rightarrow> nat \<Rightarrow> db_engine \<Rightarrow> run_value prog" where
  "on_connection sv q n e = (case sv_connect sv n e of Inl x \<Rightarrow> Done (Inl x) | Inr c \<Rightarrow> rq_program sv q c n)"

text \<open>
  One run goes on: its worker starts, gets or puts an entry of the cache, or has ended; any of the
  runs may be the next.
\<close>

inductive work_step :: "service \<Rightarrow> limiter \<Rightarrow> server \<Rightarrow> server \<Rightarrow> bool" for sv admit where
  started: "i < length js \<Longrightarrow> js ! i = Waiting q e \<Longrightarrow> grants sv admit \<lparr>sd_state = st, sd_jobs = js\<rparr> \<Longrightarrow>
     work_step sv admit \<lparr>sd_state = st, sd_jobs = js\<rparr>
       \<lparr>sd_state = st\<lparr>ss_connects := Suc (ss_connects st)\<rparr>,
        sd_jobs = js[i := Working q (on_connection sv q (ss_connects st) e)]\<rparr>"
| got: "i < length js \<Longrightarrow> js ! i = Working q (Get k f) \<Longrightarrow> catalog_get k (ss_catalog st) = (r, cat) \<Longrightarrow>
     work_step sv admit \<lparr>sd_state = st, sd_jobs = js\<rparr>
       \<lparr>sd_state = st\<lparr>ss_catalog := cat\<rparr>,
        sd_jobs = js[i := Working q (case r of Inl x \<Rightarrow> Done (Inl x) | Inr v \<Rightarrow> f v)]\<rparr>"
| put: "i < length js \<Longrightarrow> js ! i = Working q (Put k v f) \<Longrightarrow> catalog_put k v (ss_catalog st) = (r, cat) \<Longrightarrow>
     work_step sv admit \<lparr>sd_state = st, sd_jobs = js\<rparr>
       \<lparr>sd_state = st\<lparr>ss_catalog := cat\<rparr>, sd_jobs = js[i := Working q (f r)]\<rparr>"
| ended: "i < length js \<Longrightarrow> js ! i = Working q (Done r) \<Longrightarrow> server_for sv (rq_alias q) = Inr server \<Longrightarrow>
     end_run sv server q r st = (r', st') \<Longrightarrow>
     work_step sv admit \<lparr>sd_state = st, sd_jobs = js\<rparr> \<lparr>sd_state = st', sd_jobs = js[i := Ended q r']\<rparr>"

inductive_cases arrive_stepE: "arrive_step sv s s'"
inductive_cases work_stepE: "work_step sv admit s s'"

definition server_step :: "service \<Rightarrow> limiter \<Rightarrow> server \<Rightarrow> server \<Rightarrow> bool" where
  "server_step sv admit s s' \<longleftrightarrow> arrive_step sv s s' \<or> work_step sv admit s s'"

section \<open>What every step keeps\<close>

text \<open>What \<open>_run\<close> makes of an outcome, without the log.\<close>

definition run_outcome :: "string \<Rightarrow> 'a result \<Rightarrow> 'a result" where
  "run_outcome ref r = (case r of Inr x \<Rightarrow> Inr x | Inl e \<Rightarrow> Inl (run_error ref e))"

lemma end_run_outcome: "end_run sv server q r st = (r', st') \<Longrightarrow> r' = run_outcome (sv_ref sv (ss_refs st)) r"
  by (auto simp: end_run_def run_outcome_def Let_def run_failure_raised split: sum.splits prod.splits)

lemma end_run_state:
  assumes "end_run sv server q r st = (r', st')"
  shows "ss_registry st' = ss_registry st" "ss_catalog st' = ss_catalog st" "ss_connects st' = ss_connects st"
  using assms by (auto simp: end_run_def Let_def split: sum.splits prod.splits)

text \<open>
  The outcome of a run that has the databases to itself: of its connection, should it get one, with
  no cache and no other run.
\<close>

definition direct_on :: "service \<Rightarrow> (string \<Rightarrow> string \<Rightarrow> inspector) \<Rightarrow> run_request \<Rightarrow> nat \<Rightarrow> db_engine \<Rightarrow> run_value result" where
  "direct_on sv dbs q n e = (case sv_connect sv n e of Inl x \<Rightarrow> Inl x | Inr c \<Rightarrow> rq_direct sv dbs q c n)"

definition own_engine :: "service \<Rightarrow> run_request \<Rightarrow> db_engine \<Rightarrow> bool" where
  "own_engine sv q e \<longleftrightarrow> engine_options_for (sv_config sv) (rq_alias q) (rq_database q) = Inr (eg_options e)"

text \<open>
  How a run may end: the server is unknown, the library refuses the engine's options, or the run
  went to a connection of an engine of its own server and database.
\<close>

definition answered :: "service \<Rightarrow> (string \<Rightarrow> string \<Rightarrow> inspector) \<Rightarrow> run_request \<Rightarrow> run_value result \<Rightarrow> bool" where
  "answered sv dbs q r \<longleftrightarrow>
     (\<exists>x. server_for sv (rq_alias q) = Inl x \<and> r = Inl x) \<or>
     (\<exists>i k x. create_engine_for (sv_config sv) (sv_create sv) (rq_alias q) (rq_database q) k = Inl x \<and>
        r = run_outcome (sv_ref sv i) (Inl x)) \<or>
     (\<exists>i n e. own_engine sv q e \<and> r = run_outcome (sv_ref sv i) (direct_on sv dbs q n e))"

lemma answered_own: "own_engine sv q e \<Longrightarrow> answered sv dbs q (run_outcome (sv_ref sv i) (direct_on sv dbs q n e))"
  unfolding answered_def by blast

fun job_sound :: "service \<Rightarrow> (string \<Rightarrow> string \<Rightarrow> inspector) \<Rightarrow> job \<Rightarrow> bool" where
  "job_sound sv dbs (Waiting q e) \<longleftrightarrow> (\<exists>server. server_for sv (rq_alias q) = Inr server) \<and> own_engine sv q e"
| "job_sound sv dbs (Working q p) \<longleftrightarrow> (\<exists>server. server_for sv (rq_alias q) = Inr server) \<and>
     (\<exists>n e. own_engine sv q e \<and> answers dbs p (direct_on sv dbs q n e))"
| "job_sound sv dbs (Ended q r) \<longleftrightarrow> answered sv dbs q r"

definition server_sound :: "service \<Rightarrow> (string \<Rightarrow> string \<Rightarrow> inspector) \<Rightarrow> server \<Rightarrow> bool" where
  "server_sound sv dbs s \<longleftrightarrow> session_sound sv dbs (sd_state s) \<and> (\<forall>j \<in> set (sd_jobs s). job_sound sv dbs j)"

lemma server_sound_new: "server_sound sv dbs (new_server clock)"
  by (simp add: server_sound_def new_server_def session_sound_new)

lemma server_sound_update:
  assumes "server_sound sv dbs \<lparr>sd_state = st, sd_jobs = js\<rparr>" and "session_sound sv dbs st'" and "job_sound sv dbs j"
  shows "server_sound sv dbs \<lparr>sd_state = st', sd_jobs = js[i := j]\<rparr>"
    and "server_sound sv dbs \<lparr>sd_state = st', sd_jobs = js @ [j]\<rparr>"
  using assms set_update_subset_insert [of js i j] by (auto simp: server_sound_def)

lemma server_sound_job:
  assumes "server_sound sv dbs \<lparr>sd_state = st, sd_jobs = js\<rparr>" and "i < length js" and "js ! i = j"
  shows "session_sound sv dbs st" and "job_sound sv dbs j"
  using assms by (auto simp: server_sound_def)

text \<open>The session depends on the registry and the cache only.\<close>

lemma session_sound_cong:
  "ss_registry st' = ss_registry st \<Longrightarrow> ss_catalog st' = ss_catalog st \<Longrightarrow>
     session_sound sv dbs st' \<longleftrightarrow> session_sound sv dbs st"
  by (simp add: session_sound_def registry_sound_def)

lemma session_sound_got:
  assumes "session_sound sv dbs st" and "registry_get (sv_config sv) (sv_create sv) a d (ss_registry st) = (r, reg)"
  shows "session_sound sv dbs (st\<lparr>ss_registry := reg\<rparr>)"
  using assms registry_sound_get [of sv st "st\<lparr>ss_registry := reg\<rparr>" a d] by (simp add: session_sound_def)

lemma session_sound_catalog:
  "session_sound sv dbs st \<Longrightarrow> catalog_coherent dbs cat \<Longrightarrow> session_sound sv dbs (st\<lparr>ss_catalog := cat\<rparr>)"
  by (simp add: session_sound_def registry_sound_def)

lemma registry_get_Inl:
  assumes "registry_get (sv_config sv) create a d s = (Inl x, s')" and "server_for sv a = Inr server"
  shows "create_engine_for (sv_config sv) create a d (rg_created s) = Inl x"
  using assms by (auto simp: registry_get_def server_for_def split: option.splits sum.splits)

lemma arrive_step_sound:
  assumes "arrive_step sv s s'" and "server_sound sv dbs s"
  shows "server_sound sv dbs s'"
  using assms(1)
proof cases
  case (unknown q x st js)
  have "session_sound sv dbs st" using assms(2) unknown(1) by (simp add: server_sound_def)
  moreover have "job_sound sv dbs (Ended q (Inl x))" using unknown(3) by (auto simp: answered_def)
  ultimately show ?thesis
    using server_sound_update(2) assms(2) unknown(1,2) by blast
next
  case (refused q server st x reg r st' js)
  have "session_sound sv dbs st" using assms(2) refused(1) by (simp add: server_sound_def)
  then have "session_sound sv dbs st'"
    using session_sound_got [OF _ refused(4)] session_sound_cong end_run_state [OF refused(5)] by metis
  moreover have "job_sound sv dbs (Ended q r)"
    using registry_get_Inl [OF refused(4,3)] end_run_outcome [OF refused(5)] by (auto simp: answered_def)
  ultimately show ?thesis
    using server_sound_update(2) assms(2) refused(1,2) by blast
next
  case (accepted q server st e reg js)
  have st: "session_sound sv dbs st" using assms(2) accepted(1) by (simp add: server_sound_def)
  then have "own_engine sv q e"
    using registry_get_Inr(1) [OF accepted(4)] by (simp add: own_engine_def session_sound_def registry_sound_def)
  then show ?thesis
    using server_sound_update(2) [OF _ session_sound_got [OF st accepted(4)]] assms(2) accepted(1-3) by auto
qed

lemma answers_on_connection:
  assumes "databases sv dbs" and "own_engine sv q e"
  shows "answers dbs (on_connection sv q n e) (direct_on sv dbs q n e)"
proof (cases "sv_connect sv n e")
  case (Inl x)
  then show ?thesis by (simp add: on_connection_def direct_on_def)
next
  case (Inr c)
  have "answers dbs (rq_program sv q c n) (rq_direct sv dbs q c n)"
  proof (cases q)
    case (SqlRun a d sql pii codec limit dia)
    with assms Inr have "dc_inspector c = dbs a d"
      by (auto simp: databases_def own_engine_def)
    from answers_p_sql_operation [of c dbs a d, OF this] show ?thesis
      unfolding SqlRun rq_program.simps rq_direct.simps by (rule answers_pbind) (rule answers_Done)
  qed simp
  with Inr show ?thesis by (simp add: on_connection_def direct_on_def)
qed

lemma work_step_sound:
  assumes "work_step sv admit s s'" and "server_sound sv dbs s" and "databases sv dbs"
  shows "server_sound sv dbs s'"
  using assms(1)
proof cases
  case (started i js q e st)
  have st: "session_sound sv dbs st" and job: "job_sound sv dbs (Waiting q e)"
    using server_sound_job [OF assms(2) [unfolded started(1)] started(3,4)] by simp_all
  have "session_sound sv dbs (st\<lparr>ss_connects := Suc (ss_connects st)\<rparr>)"
    using st session_sound_cong [of "st\<lparr>ss_connects := Suc (ss_connects st)\<rparr>" st] by simp
  moreover have "job_sound sv dbs (Working q (on_connection sv q (ss_connects st) e))"
    using job answers_on_connection [OF assms(3), of q e] by simp blast
  ultimately show ?thesis
    using server_sound_update(1) assms(2) started(1,2) by blast
next
  case (got i js q k f st r cat)
  have st: "session_sound sv dbs st" and job: "job_sound sv dbs (Working q (Get k f))"
    using server_sound_job [OF assms(2) [unfolded got(1)] got(3,4)] by simp_all
  from st obtain v where v: "r = Inr v" "catalog_coherent dbs cat" "\<And>x. v = Some x \<Longrightarrow> entry_coherent dbs k x"
    using catalog_get_coherent [of dbs "ss_catalog st" k] got(5) by (auto simp: session_sound_def)
  then have "job_sound sv dbs (Working q (f v))" using job by (cases v) auto
  then show ?thesis
    using server_sound_update(1) [OF _ session_sound_catalog [OF st v(2)]] assms(2) got(1,2) v(1) by simp
next
  case (put i js q k v f st r cat)
  have st: "session_sound sv dbs st" and job: "job_sound sv dbs (Working q (Put k v f))"
    using server_sound_job [OF assms(2) [unfolded put(1)] put(3,4)] by simp_all
  then have "r = Inr ()" "catalog_coherent dbs cat"
    using catalog_put_coherent [of dbs "ss_catalog st" k v] put(5) by (auto simp: session_sound_def)
  moreover from this job have "job_sound sv dbs (Working q (f r))" by auto
  ultimately show ?thesis
    using server_sound_update(1) [OF _ session_sound_catalog [OF st]] assms(2) put(1,2) by simp
next
  case (ended i js q r server st r' st')
  have st: "session_sound sv dbs st" and job: "job_sound sv dbs (Working q (Done r))"
    using server_sound_job [OF assms(2) [unfolded ended(1)] ended(3,4)] by simp_all
  have "session_sound sv dbs st'"
    using st session_sound_cong end_run_state [OF ended(6)] by metis
  moreover have "job_sound sv dbs (Ended q r')"
    using job end_run_outcome [OF ended(6)] by (auto intro: answered_own)
  ultimately show ?thesis
    using server_sound_update(1) assms(2) ended(1,2) by blast
qed

lemma reachable_sound:
  assumes "databases sv dbs" and "(server_step sv admit)\<^sup>*\<^sup>* (new_server clock) s"
  shows "server_sound sv dbs s"
  using assms(2)
proof (induction rule: rtranclp_induct)
  case (step s s')
  with arrive_step_sound work_step_sound [OF _ _ assms(1)] show ?case by (auto simp: server_step_def)
qed (rule server_sound_new)

section \<open>Bounds\<close>

lemma filter_update:
  "i < length xs \<Longrightarrow> length (filter P (xs[i := x])) + of_bool (P (xs ! i)) = length (filter P xs) + of_bool (P x)"
proof (induction xs arbitrary: i)
  case (Cons y xs)
  then show ?case by (cases i) auto
qed simp

lemma borrowed_step:
  assumes "server_step sv admit s s'" and "limits admit"
    and "int (borrowed s) \<le> m" and "m = max 0 (max_concurrent_db_operations (ac_runtime (sv_config sv)))"
  shows "int (borrowed s') \<le> m"
proof -
  from assms(1) consider (arrive) "arrive_step sv s s'" | (work) "work_step sv admit s s'"
    by (auto simp: server_step_def)
  then show ?thesis
  proof cases
    case arrive
    then show ?thesis using assms(3) by cases (auto simp: borrowed_def)
  next
    case work
    then show ?thesis
    proof cases
      case (started i js q e st)
      have "int (borrowed s) < m"
        using started(1,5) assms(2,4) by (fastforce simp: grants_def limits_def)
      then show ?thesis
        using filter_update [OF started(3), of is_working "Working q (on_connection sv q (ss_connects st) e)"]
          started(1,2,4) by (simp add: borrowed_def)
    next
      case (got i js q k f st r cat)
      then show ?thesis
        using filter_update [OF got(3), of is_working "Working q (case r of Inl x \<Rightarrow> Done (Inl x) | Inr v \<Rightarrow> f v)"] assms(3) by (simp add: borrowed_def)
    next
      case (put i js q k v f st r cat)
      then show ?thesis
        using filter_update [OF put(3), of is_working "Working q (f r)"] assms(3) by (simp add: borrowed_def)
    next
      case (ended i js q r server st r' st')
      then show ?thesis
        using filter_update [OF ended(3), of is_working "Ended q r'"] assms(3) by (simp add: borrowed_def)
    qed
  qed
qed

section \<open>Schedules end\<close>

text \<open>What one step makes of the rest of a run: part of it.\<close>

inductive job_less :: "job \<Rightarrow> job \<Rightarrow> bool" where
  "job_less (Working q p) (Waiting q e)"
| "job_less (Working q (f v)) (Working q (Get k f))"
| "job_less (Working q (Done r)) (Working q (Get k f))"
| "job_less (Working q (f r)) (Working q (Put k v f))"
| "job_less (Ended q r) (Working q p)"

inductive_cases job_less_WaitingE: "job_less j (Waiting q e)"
inductive_cases job_less_DoneE: "job_less j (Working q (Done r))"
inductive_cases job_less_GetE: "job_less j (Working q (Get k f))"
inductive_cases job_less_PutE: "job_less j (Working q (Put k v f))"
inductive_cases job_less_EndedE: "job_less j (Ended q r)"

lemma accp_Ended: "Wellfounded.accp job_less (Ended q r)"
  by (rule accpI) (auto elim: job_less_EndedE)

lemma accp_Working: "Wellfounded.accp job_less (Working q p)"
proof (induction p)
  case (Done r)
  show ?case by (rule accpI) (auto elim: job_less_DoneE intro: accp_Ended)
next
  case (Get k f)
  have "Wellfounded.accp job_less (Working q (Done r))" for r
    by (rule accpI) (auto elim: job_less_DoneE intro: accp_Ended)
  note finished = this
  show ?case
  proof (rule accpI)
    show "Wellfounded.accp job_less j" if "job_less j (Working q (Get k f))" for j
      using that by (rule job_less_GetE) (simp_all add: Get finished accp_Ended)
  qed
next
  case (Put k v f)
  show ?case
  proof (rule accpI)
    show "Wellfounded.accp job_less j" if "job_less j (Working q (Put k v f))" for j
      using that by (rule job_less_PutE) (simp_all add: Put accp_Ended)
  qed
qed

lemma wf_job_less: "wf {(j', j). job_less j' j}"
proof -
  have "Wellfounded.accp job_less j" for j
  proof (cases j)
    case (Waiting q e)
    have "Wellfounded.accp job_less (Waiting q e)"
      by (rule accpI) (auto elim: job_less_WaitingE intro: accp_Working)
    with Waiting show ?thesis by simp
  qed (simp_all add: accp_Working accp_Ended)
  then show ?thesis by (simp add: accp_wfpI wfp_def [symmetric])
qed

text \<open>A step of work is a step of one job.\<close>

lemma work_step_job:
  assumes "work_step sv admit s s'"
  obtains i j where "i < length (sd_jobs s)" and "sd_jobs s' = (sd_jobs s)[i := j]" and "job_less j (sd_jobs s ! i)"
  using assms by cases (auto intro!: that job_less.intros split: sum.split)

lemma job_less_request: "job_less j' j \<Longrightarrow> job_request j' = job_request j \<and> \<not> is_ended j"
  by (induction rule: job_less.induct) auto

lemma work_step_requests:
  assumes "work_step sv admit s s'"
  shows "map job_request (sd_jobs s') = map job_request (sd_jobs s)"
proof -
  from assms obtain i j where "sd_jobs s' = (sd_jobs s)[i := j]" "i < length (sd_jobs s)" "job_less j (sd_jobs s ! i)"
    by (rule work_step_job)
  with job_less_request show ?thesis by (simp add: map_update list_update_same_conv)
qed

text \<open>One element of a list gives way to a smaller one.\<close>

lemma mult1_update:
  assumes "i < length xs" and "(x, xs ! i) \<in> r"
  shows "(mset (xs[i := x]), mset xs) \<in> mult1 r"
proof -
  have "mset (xs[i := x]) = mset xs - {#xs ! i#} + {#x#}" "mset xs = add_mset (xs ! i) (mset xs - {#xs ! i#})"
    using assms(1) by (simp_all add: mset_update)
  moreover have "\<forall>b. b \<in># {#x#} \<longrightarrow> (b, xs ! i) \<in> r" using assms(2) by simp
  ultimately show ?thesis unfolding mult1_def mem_Collect_eq case_prod_conv by blast
qed

lemma work_step_decreases:
  assumes "work_step sv admit s s'"
  shows "(mset (sd_jobs s'), mset (sd_jobs s)) \<in> mult1 {(j', j). job_less j' j}"
proof -
  from assms obtain i j where "i < length (sd_jobs s)" "sd_jobs s' = (sd_jobs s)[i := j]" "job_less j (sd_jobs s ! i)"
    by (rule work_step_job)
  then show ?thesis by (simp add: mult1_update)
qed

lemma work_step_wf: "wf {(s', s). work_step sv admit s s'}"
proof (rule wf_subset)
  show "wf (inv_image (mult1 {(j', j). job_less j' j}) (\<lambda>s. mset (sd_jobs s)))"
    by (intro wf_inv_image wf_mult1 wf_job_less)
qed (auto simp: work_step_decreases)

text \<open>A run that has not ended can go on, or another one has its token.\<close>

definition jobs_known :: "service \<Rightarrow> server \<Rightarrow> bool" where
  "jobs_known sv s \<longleftrightarrow> (\<forall>j \<in> set (sd_jobs s). \<not> is_ended j \<longrightarrow>
     (\<exists>server. server_for sv (rq_alias (job_request j)) = Inr server))"

lemma jobs_known_step:
  assumes "server_step sv admit s s'" and "jobs_known sv s"
  shows "jobs_known sv s'"
proof -
  from assms(1) consider (arrive) "arrive_step sv s s'" | (work) "work_step sv admit s s'"
    by (auto simp: server_step_def)
  then show ?thesis
  proof cases
    case arrive
    then show ?thesis using assms(2) by cases (auto simp: jobs_known_def)
  next
    case work
    then obtain i j where i: "i < length (sd_jobs s)" "sd_jobs s' = (sd_jobs s)[i := j]" "job_less j (sd_jobs s ! i)"
      by (rule work_step_job)
    have "\<exists>server. server_for sv (rq_alias (job_request j)) = Inr server"
      using assms(2) i(1) job_less_request [OF i(3)] by (auto simp: jobs_known_def)
    with assms(2) i(2) set_update_subset_insert [of "sd_jobs s" i j] show ?thesis
      by (auto simp: jobs_known_def)
  qed
qed

lemma reachable_known: "(server_step sv admit)\<^sup>*\<^sup>* (new_server clock) s \<Longrightarrow> jobs_known sv s"
proof (induction rule: rtranclp_induct)
  case base
  show ?case by (simp add: jobs_known_def new_server_def)
qed (rule jobs_known_step)

lemma work_goes_on:
  assumes "jobs_known sv s" and "limits admit" and "0 < max_concurrent_db_operations (ac_runtime (sv_config sv))"
    and "j \<in> set (sd_jobs s)" and "\<not> is_ended j"
  shows "\<exists>s'. work_step sv admit s s'"
proof -
  obtain st js where s: "s = \<lparr>sd_state = st, sd_jobs = js\<rparr>" by (cases s)
  show ?thesis
  proof (cases "\<exists>w \<in> set js. is_working w")
    case True
    then obtain i where "i < length js" "is_working (js ! i)" by (auto simp: in_set_conv_nth)
    then obtain q p where i: "i < length js" "js ! i = Working q p" by (cases "js ! i") auto
    show ?thesis
    proof (cases p)
      case (Done r)
      obtain server where "server_for sv (rq_alias q) = Inr server"
        using assms(1) i s nth_mem [OF i(1)] by (auto simp: jobs_known_def)
      with i Done s show ?thesis
        by (cases "end_run sv server q r st") (auto intro: work_step.ended)
    next
      case (Get k f)
      with i s show ?thesis by (cases "catalog_get k (ss_catalog st)") (auto intro: work_step.got)
    next
      case (Put k v f)
      with i s show ?thesis by (cases "catalog_put k v (ss_catalog st)") (auto intro: work_step.put)
    qed
  next
    case False
    from assms(4) s obtain i where "i < length js" "js ! i = j" by (auto simp: in_set_conv_nth)
    with assms(5) False nth_mem obtain q e where i: "i < length js" "js ! i = Waiting q e" by (cases j) fastforce+
    have "grants sv admit \<lparr>sd_state = st, sd_jobs = js\<rparr>"
      using False assms(2,3) by (simp add: grants_def limits_def borrowed_def filter_False)
    with i s show ?thesis by (auto intro: work_step.started)
  qed
qed

lemma work_steps_known:
  "(work_step sv admit)\<^sup>*\<^sup>* s s' \<Longrightarrow> jobs_known sv s \<Longrightarrow>
     jobs_known sv s' \<and> map job_request (sd_jobs s') = map job_request (sd_jobs s)"
proof (induction rule: rtranclp_induct)
  case (step t t')
  then have "server_step sv admit t t'" by (simp add: server_step_def)
  with step work_step_requests jobs_known_step show ?case by metis
qed simp

section \<open>One run after the other\<close>

text \<open>\<open>_run\<close> of the sequential model, with its ending by \<open>end_run\<close>.\<close>

lemma service_run_end_run:
  assumes "server_for sv (rq_alias q) = Inr server"
    and "registry_run (sv_config sv) (sv_create sv) (rq_alias q) (rq_database q) (with_connection sv op)
      (ss_registry st, ss_catalog st, ss_connects st) = (r, reg, cat, n)"
  shows "service_run sv (rq_alias q) (rq_database q) (rq_name q) op st =
    end_run sv server q r (st\<lparr>ss_registry := reg, ss_catalog := cat, ss_connects := n\<rparr>)"
  using assms by (simp add: service_run_def end_run_def sbind_slift_Inr Let_def split: sum.split)

text \<open>A program runs to its end when no other run takes a step.\<close>

lemma work_alone:
  "(work_step sv admit)\<^sup>*\<^sup>* \<lparr>sd_state = st, sd_jobs = js @ [Working q p]\<rparr>
     \<lparr>sd_state = st\<lparr>ss_catalog := snd (run_prog p (ss_catalog st))\<rparr>,
      sd_jobs = js @ [Working q (Done (fst (run_prog p (ss_catalog st))))]\<rparr>"
proof (induction p arbitrary: st)
  case (Done r)
  then show ?case by simp
next
  case (Get k f)
  obtain r cat where get: "catalog_get k (ss_catalog st) = (r, cat)" by (cases "catalog_get k (ss_catalog st)")
  let ?p = "case r of Inl x \<Rightarrow> Done (Inl x) | Inr v \<Rightarrow> f v"
  have step: "work_step sv admit \<lparr>sd_state = st, sd_jobs = js @ [Working q (Get k f)]\<rparr>
      \<lparr>sd_state = st\<lparr>ss_catalog := cat\<rparr>, sd_jobs = js @ [Working q ?p]\<rparr>"
    using work_step.got [of "length js" "js @ [Working q (Get k f)]" q k f st r cat sv admit] get by simp
  show ?case
  proof (cases r)
    case (Inl x)
    with step get show ?thesis by auto
  next
    case (Inr v)
    with step Get.IH [of "f v" "st\<lparr>ss_catalog := cat\<rparr>"] get show ?thesis
      by (simp add: converse_rtranclp_into_rtranclp)
  qed
next
  case (Put k v f)
  obtain r cat where put: "catalog_put k v (ss_catalog st) = (r, cat)" by (cases "catalog_put k v (ss_catalog st)")
  have step: "work_step sv admit \<lparr>sd_state = st, sd_jobs = js @ [Working q (Put k v f)]\<rparr>
      \<lparr>sd_state = st\<lparr>ss_catalog := cat\<rparr>, sd_jobs = js @ [Working q (f r)]\<rparr>"
    using work_step.put [of "length js" "js @ [Working q (Put k v f)]" q k v f st r cat sv admit] put by simp
  with Put.IH [of "f r" "st\<lparr>ss_catalog := cat\<rparr>"] put show ?case
    by (simp add: converse_rtranclp_into_rtranclp)
qed

text \<open>Steps of work are steps of the server.\<close>

lemma work_steps_server: "(work_step sv admit)\<^sup>*\<^sup>* s s' \<Longrightarrow> (server_step sv admit)\<^sup>*\<^sup>* s s'"
  by (rule rtranclp_mono [THEN predicate2D]) (auto simp: server_step_def)

lemma arrive_steps_server: "arrive_step sv s s' \<Longrightarrow> (server_step sv admit)\<^sup>*\<^sup>* s s'"
  by (auto simp: server_step_def)

text \<open>A run that is accepted, is started at once and goes on alone.\<close>

lemma run_on_connection:
  "registry_run (sv_config sv) (sv_create sv) a d (with_connection sv (rq_operation sv q)) (s, cat, n) =
    (case registry_get (sv_config sv) (sv_create sv) a d s of
       (Inl x, s') \<Rightarrow> (Inl x, s', cat, n)
     | (Inr e, s') \<Rightarrow> (fst (run_prog (on_connection sv q n e) cat), s',
         snd (run_prog (on_connection sv q n e) cat), Suc n))"
  by (simp add: registry_run_def with_connection_def on_connection_def run_rq_program
      split: sum.split prod.split)

lemma alone_is_service_run:
  assumes "grants sv admit \<lparr>sd_state = st, sd_jobs = js\<rparr>"
    and "service_run sv (rq_alias q) (rq_database q) (rq_name q) (rq_operation sv q) st = (r, st')"
  shows "(server_step sv admit)\<^sup>*\<^sup>* \<lparr>sd_state = st, sd_jobs = js\<rparr> \<lparr>sd_state = st', sd_jobs = js @ [Ended q r]\<rparr>"
proof (cases "server_for sv (rq_alias q)")
  case (Inl x)
  with assms(2) have "r = Inl x" "st' = st" by (simp_all add: service_run_def sbind_def slift_def)
  with arrive_step.unknown [OF Inl] show ?thesis by (auto simp: server_step_def)
next
  case (Inr server)
  obtain g reg where get: "registry_get (sv_config sv) (sv_create sv) (rq_alias q) (rq_database q) (ss_registry st) = (g, reg)"
    by (cases "registry_get (sv_config sv) (sv_create sv) (rq_alias q) (rq_database q) (ss_registry st)")
  show ?thesis
  proof (cases g)
    case (Inl x)
    then have "service_run sv (rq_alias q) (rq_database q) (rq_name q) (rq_operation sv q) st =
        end_run sv server q (Inl x) (st\<lparr>ss_registry := reg\<rparr>)"
      using service_run_end_run [OF Inr] get by (simp add: run_on_connection)
    with assms(2) have "arrive_step sv \<lparr>sd_state = st, sd_jobs = js\<rparr> \<lparr>sd_state = st', sd_jobs = js @ [Ended q r]\<rparr>"
      using get Inl by (intro arrive_step.refused [OF Inr]) simp_all
    then show ?thesis by (auto simp: server_step_def)
  next
    case e: (Inr e)
    let ?p = "on_connection sv q (ss_connects st) e" and ?cat = "ss_catalog st"
    let ?st = "st\<lparr>ss_registry := reg, ss_connects := Suc (ss_connects st)\<rparr>"
    have 1: "arrive_step sv \<lparr>sd_state = st, sd_jobs = js\<rparr>
        \<lparr>sd_state = st\<lparr>ss_registry := reg\<rparr>, sd_jobs = js @ [Waiting q e]\<rparr>"
      using get e by (intro arrive_step.accepted [OF Inr]) simp
    have 2: "work_step sv admit \<lparr>sd_state = st\<lparr>ss_registry := reg\<rparr>, sd_jobs = js @ [Waiting q e]\<rparr>
        \<lparr>sd_state = ?st, sd_jobs = js @ [Working q ?p]\<rparr>"
      using work_step.started [of "length js" "js @ [Waiting q e]" q e sv admit "st\<lparr>ss_registry := reg\<rparr>"] assms(1)
      by (simp add: grants_def borrowed_def)
    have 3: "(work_step sv admit)\<^sup>*\<^sup>* \<lparr>sd_state = ?st, sd_jobs = js @ [Working q ?p]\<rparr>
        \<lparr>sd_state = ?st\<lparr>ss_catalog := snd (run_prog ?p ?cat)\<rparr>, sd_jobs = js @ [Working q (Done (fst (run_prog ?p ?cat)))]\<rparr>"
      using work_alone [of sv admit ?st js q ?p] by simp
    have "end_run sv server q (fst (run_prog ?p ?cat)) (?st\<lparr>ss_catalog := snd (run_prog ?p ?cat)\<rparr>) = (r, st')"
    proof -
      have eq: "?st\<lparr>ss_catalog := c\<rparr> = st\<lparr>ss_registry := reg, ss_catalog := c, ss_connects := Suc (ss_connects st)\<rparr>" for c
        by simp
      show ?thesis
        unfolding eq using assms(2) service_run_end_run [OF Inr] get e by (simp add: run_on_connection)
    qed
    then have 4: "work_step sv admit \<lparr>sd_state = ?st\<lparr>ss_catalog := snd (run_prog ?p ?cat)\<rparr>,
          sd_jobs = js @ [Working q (Done (fst (run_prog ?p ?cat)))]\<rparr>
        \<lparr>sd_state = st', sd_jobs = js @ [Ended q r]\<rparr>"
      using work_step.ended [of "length js" "js @ [Working q (Done (fst (run_prog ?p ?cat)))]" q] Inr by simp
    from r_into_rtranclp [of "work_step sv admit", OF 2] rtranclp.rtrancl_into_rtrancl [OF 3 4]
    have "(work_step sv admit)\<^sup>*\<^sup>* \<lparr>sd_state = st\<lparr>ss_registry := reg\<rparr>, sd_jobs = js @ [Waiting q e]\<rparr>
        \<lparr>sd_state = st', sd_jobs = js @ [Ended q r]\<rparr>"
      by (rule rtranclp_trans)
    from rtranclp_trans [OF arrive_steps_server [OF 1] work_steps_server [OF this]] show ?thesis .
  qed
qed

section \<open>The stores\<close>

definition stores_sound :: "service \<Rightarrow> service_state \<Rightarrow> bool" where
  "stores_sound sv st \<longleftrightarrow> registry_sound sv st \<and> schema_lru.wf (cst_cache (ss_catalog st)) \<and>
     sca_max_entries (cst_cache (ss_catalog st)) = SCHEMA_CACHE_ENTRIES"

lemma catalog_get_cache: "\<exists>xs. cst_cache (snd (catalog_get k s)) = schema_lru.run xs (cst_cache s)"
proof (cases "map_of (sca_entries (cst_cache s)) k")
  case None
  then show ?thesis by (intro exI [of _ "[]"]) (simp add: catalog_get_def)
next
  case (Some e)
  then show ?thesis
    by (intro exI [of _ "[CGet k (cst_clock s (cst_reads s))]"]) (simp add: catalog_get_def Let_def)
qed

lemma catalog_put_cache: "\<exists>xs. cst_cache (snd (catalog_put k v s)) = schema_lru.run xs (cst_cache s)"
  by (intro exI [of _ "[CPut k v (cst_clock s (cst_reads s))]"]) (simp add: catalog_put_def Let_def)

lemma schema_run_max: "sca_max_entries (schema_lru.run xs c) = sca_max_entries c"
  by (induction xs arbitrary: c) (simp_all add: cache_step_bounds)

lemma stores_sound_catalog:
  assumes "stores_sound sv st" and "cst_cache cat = schema_lru.run xs (cst_cache (ss_catalog st))"
  shows "stores_sound sv (st\<lparr>ss_catalog := cat\<rparr>)"
  using assms by (simp add: stores_sound_def registry_sound_def schema_run_max schema_lru.wf_run)

lemma stores_sound_cong:
  "ss_registry st' = ss_registry st \<Longrightarrow> ss_catalog st' = ss_catalog st \<Longrightarrow> stores_sound sv st' \<longleftrightarrow> stores_sound sv st"
  by (simp add: stores_sound_def registry_sound_def)

lemma stores_sound_got:
  assumes "stores_sound sv st" and "registry_get (sv_config sv) (sv_create sv) a d (ss_registry st) = (r, reg)"
  shows "stores_sound sv (st\<lparr>ss_registry := reg\<rparr>)"
  using assms registry_sound_get [of sv st "st\<lparr>ss_registry := reg\<rparr>" a d] by (simp add: stores_sound_def)

lemma stores_sound_step:
  assumes "server_step sv admit s s'" and "stores_sound sv (sd_state s)"
  shows "stores_sound sv (sd_state s')"
proof -
  from assms(1) consider (arrive) "arrive_step sv s s'" | (work) "work_step sv admit s s'"
    by (auto simp: server_step_def)
  then show ?thesis
  proof cases
    case arrive
    then show ?thesis
    proof cases
      case (refused q server st x reg r st' js)
      with assms(2) have "stores_sound sv (st\<lparr>ss_registry := reg\<rparr>)" by (simp add: stores_sound_got)
      then show ?thesis using refused(2) stores_sound_cong end_run_state [OF refused(5)] by (metis server.select_convs(1))
    qed (use assms(2) stores_sound_got in auto)
  next
    case work
    then show ?thesis
    proof cases
      case (started i js q e st)
      then show ?thesis using assms(2) stores_sound_cong [of "st\<lparr>ss_connects := Suc (ss_connects st)\<rparr>" st] by simp
    next
      case (got i js q k f st r cat)
      then show ?thesis using assms(2) catalog_get_cache [of k "ss_catalog st"] stores_sound_catalog by auto
    next
      case (put i js q k v f st r cat)
      then show ?thesis using assms(2) catalog_put_cache [of k v "ss_catalog st"] stores_sound_catalog by auto
    next
      case (ended i js q r server st r' st')
      then show ?thesis using assms(2) stores_sound_cong end_run_state [OF ended(6)] by (metis server.select_convs(1))
    qed
  qed
qed

lemma stores_sound_new: "stores_sound sv (new_state clock)"
  using registry_sound_new by (simp add: stores_sound_def schema_lru.wf_def) (simp add: new_state_def)

section \<open>Properties\<close>

text \<open>
  Calls at once do not disturb each other: while the databases do not change, in every schedule
  of any number of runs on any servers, with the shared cache filling, expiring and evicting between
  their steps, a run that has ended has ended as it would alone and with no cache, on a connection
  of an engine of its own server and database; or with the error of an unknown server or of
  creating that engine.
\<close>

theorem concurrent_answers_are_direct:
  assumes "databases sv dbs" and "(server_step sv admit)\<^sup>*\<^sup>* (new_server clock) s"
    and "Ended q r \<in> set (sd_jobs s)"
  shows "(\<exists>x. server_for sv (rq_alias q) = Inl x \<and> r = Inl x) \<or>
    (\<exists>i k x. create_engine_for (sv_config sv) (sv_create sv) (rq_alias q) (rq_database q) k = Inl x \<and>
       r = Inl (run_error (sv_ref sv i) x)) \<or>
    (\<exists>n e. engine_options_for (sv_config sv) (rq_alias q) (rq_database q) = Inr (eg_options e) \<and>
       (case sv_connect sv n e of
          Inl x \<Rightarrow> \<exists>i. r = Inl (run_error (sv_ref sv i) x)
        | Inr c \<Rightarrow> (case rq_direct sv dbs q c n of
              Inl x \<Rightarrow> \<exists>i. r = Inl (run_error (sv_ref sv i) x) | Inr v \<Rightarrow> r = Inr v)))"
proof -
  have "answered sv dbs q r"
    using reachable_sound [OF assms(1,2)] assms(3) by (auto simp: server_sound_def)
  then show ?thesis
    unfolding answered_def own_engine_def direct_on_def run_outcome_def
    by (fastforce split: sum.splits)
qed

text \<open>
  C23. The server stays bounded: in every schedule at most \<open>max_concurrent_db_operations\<close> runs are
  at work at a time, the registry holds at most the configured number of engines and has disposed of
  the others it created, each once, and the schema cache has at most 1024 entries.
\<close>

theorem server_stays_bounded:
  assumes "limits admit" and "(server_step sv admit)\<^sup>*\<^sup>* (new_server clock) s"
  shows "int (borrowed s) \<le> max 0 (max_concurrent_db_operations (ac_runtime (sv_config sv))) \<and>
    int (cached_engine_count (ss_registry (sd_state s))) \<le> max 0 (engine_cache_size (ac_runtime (sv_config sv))) \<and>
    mset (engine_ids (ss_registry (sd_state s))) + mset (rg_disposed (ss_registry (sd_state s))) =
      mset [0..<rg_created (ss_registry (sd_state s))] \<and>
    length (sca_entries (cst_cache (ss_catalog (sd_state s)))) \<le> 1024"
proof -
  let ?m = "max_concurrent_db_operations (ac_runtime (sv_config sv))"
  have "int (borrowed s) \<le> max 0 ?m"
    using assms(2)
  proof (induction rule: rtranclp_induct)
    case (step s s')
    then show ?case using borrowed_step assms(1) by blast
  qed (simp add: borrowed_def new_server_def)
  moreover have "stores_sound sv (sd_state s)"
    using assms(2)
  proof (induction rule: rtranclp_induct)
    case base
    show ?case by (simp add: new_server_def stores_sound_new)
  qed (rule stores_sound_step)
  ultimately show ?thesis
    by (auto simp: stores_sound_def registry_sound_def registry_lru.wf_def schema_lru.wf_def engines_accounted_def
        cached_engine_count_def SCHEMA_CACHE_ENTRIES_def)
qed

text \<open>
  No schedule runs for ever and none gets stuck: from any reachable state the runs cannot take
  infinitely many steps with no new ones arriving, and when none can take a step every run that
  ever arrived has ended, in whatever order the limiter and the cache's lock let them.
\<close>

theorem every_schedule_ends:
  assumes "limits admit" and "0 < max_concurrent_db_operations (ac_runtime (sv_config sv))"
    and "(server_step sv admit)\<^sup>*\<^sup>* (new_server clock) s"
  shows "\<not> (\<exists>\<sigma>. \<sigma> 0 = s \<and> (\<forall>i. work_step sv admit (\<sigma> i) (\<sigma> (Suc i)))) \<and>
    (\<forall>s'. (work_step sv admit)\<^sup>*\<^sup>* s s' \<longrightarrow> \<not> (\<exists>t. work_step sv admit s' t) \<longrightarrow>
      map job_request (sd_jobs s') = map job_request (sd_jobs s) \<and> (\<forall>j \<in> set (sd_jobs s'). is_ended j))"
proof (intro conjI allI impI)
  show "\<not> (\<exists>\<sigma>. \<sigma> 0 = s \<and> (\<forall>i. work_step sv admit (\<sigma> i) (\<sigma> (Suc i))))"
    using work_step_wf [of sv admit] by (auto simp: wf_iff_no_infinite_down_chain)
  fix s' assume run: "(work_step sv admit)\<^sup>*\<^sup>* s s'" and stuck: "\<not> (\<exists>t. work_step sv admit s' t)"
  note known = work_steps_known [OF run reachable_known [OF assms(3)]]
  then show "map job_request (sd_jobs s') = map job_request (sd_jobs s)" by blast
  show "\<forall>j \<in> set (sd_jobs s'). is_ended j"
    using work_goes_on [OF _ assms(1,2)] known stuck by blast
qed

text \<open>Runs one after the other, in the sequential model.\<close>

primrec run_requests :: "service \<Rightarrow> run_request list \<Rightarrow> service_state \<Rightarrow> run_value result list \<times> service_state" where
  "run_requests sv [] st = ([], st)"
| "run_requests sv (q # qs) st =
     (case service_run sv (rq_alias q) (rq_database q) (rq_name q) (rq_operation sv q) st of (r, st') \<Rightarrow>
        (case run_requests sv qs st' of (rs, st'') \<Rightarrow> (r # rs, st'')))"

lemma run_requests_schedule:
  assumes "limits admit" and "0 < max_concurrent_db_operations (ac_runtime (sv_config sv))"
    and "\<forall>j \<in> set js. is_ended j" and "run_requests sv qs st = (rs, st')"
  shows "(server_step sv admit)\<^sup>*\<^sup>* \<lparr>sd_state = st, sd_jobs = js\<rparr> \<lparr>sd_state = st', sd_jobs = js @ map2 Ended qs rs\<rparr>"
  using assms(3,4)
proof (induction qs arbitrary: st js rs)
  case (Cons q qs)
  obtain r st1 where run: "service_run sv (rq_alias q) (rq_database q) (rq_name q) (rq_operation sv q) st = (r, st1)"
    by (cases "service_run sv (rq_alias q) (rq_database q) (rq_name q) (rq_operation sv q) st")
  with Cons.prems(2) obtain rs1 where rest: "run_requests sv qs st1 = (rs1, st')" "rs = r # rs1"
    by (auto split: prod.splits)
  have "filter is_working js = []" using Cons.prems(1) by (auto simp: filter_empty_conv elim!: is_ended.elims)
  then have "grants sv admit \<lparr>sd_state = st, sd_jobs = js\<rparr>"
    using assms(1,2) by (simp add: grants_def limits_def borrowed_def)
  from rtranclp_trans [OF alone_is_service_run [OF this run] Cons.IH [OF _ rest(1)]] Cons.prems(1) rest(2)
  show ?case by simp
qed simp

text \<open>
  The sequential service is one of the schedules: any runs, one after the other as
  \<open>DatabaseService._run\<close> is modelled without threads, are a schedule of the server that ends
  with the same results, the same engines, cache and log, and every run ended.
\<close>

theorem sequential_runs_are_a_schedule:
  assumes "limits admit" and "0 < max_concurrent_db_operations (ac_runtime (sv_config sv))"
    and "run_requests sv qs (new_state clock) = (rs, st)"
  shows "(server_step sv admit)\<^sup>*\<^sup>* (new_server clock) \<lparr>sd_state = st, sd_jobs = map2 Ended qs rs\<rparr>"
  using run_requests_schedule [OF assms(1,2) _ assms(3), of "[]"] by (simp add: new_server_def)

end
