(* ===== verification/Concurrency_Examples.thy ===== *)
theory Concurrency_Examples
  imports Service_Examples Concurrency
begin

text \<open>
  Two calls of the example service at once: both have a worker before either takes its first step
  on the schema cache.
\<close>

definition demo_limiter :: limiter where
  "demo_limiter t n \<longleftrightarrow> int n < t"

lemma demo_limits: "limits demo_limiter"
  by (simp add: limits_def demo_limiter_def)

definition demo_request :: run_request where
  "demo_request = SqlRun ''a'' ''db'' ''SELECT'' demo_pii demo_codec 10 SQLSERVER"

lemma demo_request_key: "rq_alias demo_request = ''a''" "rq_database demo_request = Some ''db''"
  by (simp_all add: demo_request_def)

lemma demo_stable: "databases demo_service (\<lambda>a d. demo_inspector)"
  by (simp add: databases_def demo_service_def demo_connection_def)

lemma demo_room: "max_concurrent_db_operations (ac_runtime (sv_config demo_service)) = 8"
  by (simp add: demo_service_def demo_config_def default_runtime_def)

lemma demo_create: "\<exists>e. create_engine_for (sv_config demo_service) (sv_create demo_service) ''a'' (Some ''db'') k = Inr e"
  by (simp add: demo_service_def demo_config_def create_engine_for_def engine_options_for_def Let_def)

lemma demo_get: "\<exists>e reg. registry_get (sv_config demo_service) (sv_create demo_service) ''a'' (Some ''db'') s = (Inr e, reg)"
  by (cases "map_of (rg_engines s) (''a'', Some ''db'')")
    (simp_all add: registry_get_def demo_service_def demo_config_def create_engine_for_def engine_options_for_def Let_def)

text \<open>Alone and with no cache, the run answers with the report of the example.\<close>

lemma demo_direct: "rq_direct demo_service (\<lambda>a d. demo_inspector) demo_request demo_connection n = Inr (RunSql good_report)"
proof -
  have "direct_validate demo_service demo_inspector n ''a'' ''db'' ''SELECT'' demo_pii demo_codec 10 SQLSERVER = Inr good_query"
    using good_validate
    by (simp add: direct_validate_def demo_validate_def demo_views demo_tables_def demo_columns_def [abs_def]
        demo_service_def demo_config_def)
  then show ?thesis
    by (simp add: demo_request_def direct_sql_def demo_service_def demo_connection_def good_execute good_report_def)
qed

text \<open>The two runs arrive and start.\<close>

lemma demo_two_workers:
  "\<exists>s p1 p2. (server_step demo_service demo_limiter)\<^sup>*\<^sup>* (new_server (\<lambda>i. 0)) s \<and>
     sd_jobs s = [Working demo_request p1, Working demo_request p2]"
proof -
  let ?q = demo_request and ?step = "server_step demo_service demo_limiter"
  obtain e1 reg1 where get1: "registry_get (sv_config demo_service) (sv_create demo_service) ''a'' (Some ''db'')
      (ss_registry demo_start) = (Inr e1, reg1)" using demo_get by blast
  let ?st1 = "demo_start\<lparr>ss_registry := reg1\<rparr>"
  obtain e2 reg2 where get2: "registry_get (sv_config demo_service) (sv_create demo_service) ''a'' (Some ''db'')
      (ss_registry ?st1) = (Inr e2, reg2)" using demo_get by blast
  let ?st2 = "?st1\<lparr>ss_registry := reg2\<rparr>"
  have "?step \<lparr>sd_state = demo_start, sd_jobs = []\<rparr> \<lparr>sd_state = ?st1, sd_jobs = [] @ [Waiting ?q e1]\<rparr>"
    unfolding server_step_def
    by (intro disjI1 arrive_step.accepted, unfold demo_request_key) (rule demo_server_for get1)+
  moreover have "?step \<lparr>sd_state = ?st1, sd_jobs = [Waiting ?q e1]\<rparr> \<lparr>sd_state = ?st2, sd_jobs = [Waiting ?q e1] @ [Waiting ?q e2]\<rparr>"
    unfolding server_step_def
    by (intro disjI1 arrive_step.accepted, unfold demo_request_key) (rule demo_server_for get2)+
  moreover obtain p1 st3 where "?step \<lparr>sd_state = ?st2, sd_jobs = [Waiting ?q e1, Waiting ?q e2]\<rparr>
      \<lparr>sd_state = st3, sd_jobs = [Working ?q p1, Waiting ?q e2]\<rparr>"
    using work_step.started [of 0 "[Waiting ?q e1, Waiting ?q e2]" ?q e1 demo_service demo_limiter ?st2]
    by (auto simp: server_step_def grants_def demo_room borrowed_def demo_limiter_def)
  moreover obtain p2 st4 where "?step \<lparr>sd_state = st3, sd_jobs = [Working ?q p1, Waiting ?q e2]\<rparr>
      \<lparr>sd_state = st4, sd_jobs = [Working ?q p1, Working ?q p2]\<rparr>"
    using work_step.started [of 1 "[Working ?q p1, Waiting ?q e2]" ?q e2 demo_service demo_limiter st3]
    by (auto simp: server_step_def grants_def demo_room borrowed_def demo_limiter_def)
  ultimately have "?step\<^sup>*\<^sup>* \<lparr>sd_state = demo_start, sd_jobs = []\<rparr> \<lparr>sd_state = st4, sd_jobs = [Working ?q p1, Working ?q p2]\<rparr>"
    by simp
  then show ?thesis by (metis new_server_def server.select_convs(2))
qed

text \<open>Some schedule of their steps ends, with both runs ended.\<close>

lemma schedule_end:
  assumes "limits admit" and "0 < max_concurrent_db_operations (ac_runtime (sv_config sv))" and "jobs_known sv s"
  shows "\<exists>s'. (work_step sv admit)\<^sup>*\<^sup>* s s' \<and> (\<forall>j \<in> set (sd_jobs s'). is_ended j)"
  using assms(3)
proof (induction s rule: wf_induct_rule [OF work_step_wf [of sv admit]])
  case (1 s)
  show ?case
  proof (cases "\<forall>j \<in> set (sd_jobs s). is_ended j")
    case False
    then obtain t where t: "work_step sv admit s t" using work_goes_on [OF 1(2) assms(1,2)] by blast
    then have "jobs_known sv t" using jobs_known_step 1(2) by (auto simp: server_step_def)
    with 1(1) t obtain s' where "(work_step sv admit)\<^sup>*\<^sup>* t s'" "\<forall>j \<in> set (sd_jobs s'). is_ended j" by blast
    with t show ?thesis by (meson converse_rtranclp_into_rtranclp)
  qed blast
qed

lemma demo_two_ended:
  "\<exists>s r1 r2. (server_step demo_service demo_limiter)\<^sup>*\<^sup>* (new_server (\<lambda>i. 0)) s \<and>
     sd_jobs s = [Ended demo_request r1, Ended demo_request r2]"
proof -
  obtain s p1 p2 where s: "(server_step demo_service demo_limiter)\<^sup>*\<^sup>* (new_server (\<lambda>i. 0)) s"
    "sd_jobs s = [Working demo_request p1, Working demo_request p2]" using demo_two_workers by blast
  note known = reachable_known [OF s(1)]
  obtain s' where s': "(work_step demo_service demo_limiter)\<^sup>*\<^sup>* s s'" "\<forall>j \<in> set (sd_jobs s'). is_ended j"
    using schedule_end [OF demo_limits _ known] demo_room by auto
  have "map job_request (sd_jobs s') = [demo_request, demo_request]"
    using work_steps_known [OF s'(1) known] s(2) by simp
  then obtain j1 j2 where jobs: "sd_jobs s' = [j1, j2]" "job_request j1 = demo_request" "job_request j2 = demo_request"
    by (auto simp: map_eq_Cons_conv)
  with s'(2) have "\<exists>r1 r2. sd_jobs s' = [Ended demo_request r1, Ended demo_request r2]"
    by (cases j1; cases j2) auto
  with rtranclp_trans [OF s(1) work_steps_server [OF s'(1)]] show ?thesis by blast
qed

lemma demo_answered:
  assumes "answered demo_service (\<lambda>a d. demo_inspector) demo_request r"
  shows "r = Inr (RunSql good_report)"
proof -
  have "server_for demo_service ''a'' \<noteq> Inl x" "sv_connect demo_service n e = Inr demo_connection"
    "create_engine_for (sv_config demo_service) (sv_create demo_service) ''a'' (Some ''db'') k \<noteq> Inl x" for x n e k
    using demo_server_for demo_create [of k] by (auto simp: demo_service_def)
  with assms show ?thesis
    by (auto simp: answered_def demo_request_key direct_on_def demo_direct run_outcome_def)
qed

section \<open>An engine evicted while a run waits for it\<close>

text \<open>
  With room for one engine, a run for another database evicts and disposes of the engine that a run
  still waits to connect with.  SQLAlchemy gives a disposed engine a new pool, so the run goes on; the
  connections it opens then belong to a pool that the registry no longer knows.
\<close>

theorem waiting_engine_can_be_disposed:
  "\<exists>s q e. (server_step (demo_service\<lparr>sv_config := one_mysql\<rparr>) demo_limiter)\<^sup>*\<^sup>* (new_server (\<lambda>i. 0)) s \<and>
     Waiting q e \<in> set (sd_jobs s) \<and> eg_id e \<in> set (rg_disposed (ss_registry (sd_state s)))"
proof -
  let ?sv = "demo_service\<lparr>sv_config := one_mysql\<rparr>"
  let ?step = "server_step ?sv demo_limiter"
  let ?q1 = "ReadRun ''a'' None ''list_databases'' (\<lambda>c. Inl KeyError)"
    and ?q2 = "ReadRun ''a'' (Some ''d'') ''list_tables'' (\<lambda>c. Inl KeyError)"
  obtain server where server: "server_for ?sv ''a'' = Inr server"
    by (auto simp: server_for_def one_mysql_def)
  obtain e1 r1 where get1: "registry_get one_mysql (\<lambda>opts. Inr ()) ''a'' None new_registry = (Inr e1, r1)"
    and r1: "rg_engines r1 = [((''a'', None), e1)]" "rg_disposed r1 = []"
    by (auto simp: registry_get_def one_mysql_def create_engine_for_def engine_options_for_def new_registry_def
        evict_engine_def Let_def)
  obtain e2 r2 where get2: "registry_get one_mysql (\<lambda>opts. Inr ()) ''a'' (Some ''d'') r1 = (Inr e2, r2)"
    and r2: "rg_disposed r2 = [eg_id e1]"
    using r1 by (auto simp: registry_get_def one_mysql_def create_engine_for_def engine_options_for_def
        evict_engine_def Let_def)
  have create: "sv_create ?sv = (\<lambda>opts. Inr ())" "sv_config ?sv = one_mysql" by (simp_all add: demo_service_def)
  have "?step \<lparr>sd_state = demo_start, sd_jobs = []\<rparr>
      \<lparr>sd_state = demo_start\<lparr>ss_registry := r1\<rparr>, sd_jobs = [] @ [Waiting ?q1 e1]\<rparr>"
    unfolding server_step_def using server get1
    by (intro disjI1 arrive_step.accepted) (simp_all add: create new_state_def)
  moreover have "?step \<lparr>sd_state = demo_start\<lparr>ss_registry := r1\<rparr>, sd_jobs = [Waiting ?q1 e1]\<rparr>
      \<lparr>sd_state = demo_start\<lparr>ss_registry := r1\<rparr>\<lparr>ss_registry := r2\<rparr>, sd_jobs = [Waiting ?q1 e1] @ [Waiting ?q2 e2]\<rparr>"
    unfolding server_step_def using server get2
    by (intro disjI1 arrive_step.accepted) (simp_all add: create)
  ultimately have "?step\<^sup>*\<^sup>* (new_server (\<lambda>i. 0))
      \<lparr>sd_state = demo_start\<lparr>ss_registry := r2\<rparr>, sd_jobs = [Waiting ?q1 e1, Waiting ?q2 e2]\<rparr>"
    unfolding new_server_def by simp
  with r2 show ?thesis by force
qed

section \<open>Witnesses\<close>

text \<open>Both runs return the report, although the second may have found the first one's entries.\<close>

theorem concurrent_answers_are_direct_witness:
  "\<exists>s. (server_step demo_service demo_limiter)\<^sup>*\<^sup>* (new_server (\<lambda>i. 0)) s \<and>
     sd_jobs s = [Ended demo_request (Inr (RunSql good_report)), Ended demo_request (Inr (RunSql good_report))]"
proof -
  obtain s r1 r2 where s: "(server_step demo_service demo_limiter)\<^sup>*\<^sup>* (new_server (\<lambda>i. 0)) s"
    "sd_jobs s = [Ended demo_request r1, Ended demo_request r2]" using demo_two_ended by blast
  have "r = Inr (RunSql good_report)" if "Ended demo_request r \<in> set (sd_jobs s)" for r
  proof -
    have "server_for demo_service ''a'' \<noteq> Inl x" "sv_connect demo_service n e = Inr demo_connection"
      "create_engine_for (sv_config demo_service) (sv_create demo_service) ''a'' (Some ''db'') k \<noteq> Inl x" for x n e k
      using demo_server_for demo_create [of k] by (auto simp: demo_service_def)
    with concurrent_answers_are_direct [OF demo_stable s(1) that] show ?thesis
      by (simp add: demo_request_key demo_direct)
  qed
  with s show ?thesis by auto
qed

text \<open>With both at work, two tokens are borrowed.\<close>

theorem server_stays_bounded_witness:
  "\<exists>s. borrowed s = 2 \<and> int (borrowed s) \<le> 8 \<and> length (sca_entries (cst_cache (ss_catalog (sd_state s)))) \<le> 1024"
proof -
  obtain s p1 p2 where s: "(server_step demo_service demo_limiter)\<^sup>*\<^sup>* (new_server (\<lambda>i. 0)) s"
    "sd_jobs s = [Working demo_request p1, Working demo_request p2]" using demo_two_workers by blast
  have "borrowed s = 2" using s(2) by (simp add: borrowed_def)
  with server_stays_bounded [OF demo_limits s(1)] show ?thesis unfolding demo_room by auto
qed

theorem every_schedule_ends_witness:
  "\<exists>s p1 p2. sd_jobs s = [Working demo_request p1, Working demo_request p2] \<and>
    \<not> (\<exists>\<sigma>. \<sigma> 0 = s \<and> (\<forall>i. work_step demo_service demo_limiter (\<sigma> i) (\<sigma> (Suc i))))"
proof -
  obtain s p1 p2 where "(server_step demo_service demo_limiter)\<^sup>*\<^sup>* (new_server (\<lambda>i. 0)) s"
    "sd_jobs s = [Working demo_request p1, Working demo_request p2]" using demo_two_workers by blast
  with every_schedule_ends [OF demo_limits _ this(1)] demo_room show ?thesis by auto
qed

theorem sequential_runs_are_a_schedule_witness:
  "\<exists>rs st. run_requests demo_service [demo_request, demo_request] demo_start = (rs, st) \<and>
    (server_step demo_service demo_limiter)\<^sup>*\<^sup>* (new_server (\<lambda>i. 0))
      \<lparr>sd_state = st, sd_jobs = map2 Ended [demo_request, demo_request] rs\<rparr>"
proof -
  obtain rs st where "run_requests demo_service [demo_request, demo_request] demo_start = (rs, st)"
    by (cases "run_requests demo_service [demo_request, demo_request] demo_start")
  with sequential_runs_are_a_schedule [OF demo_limits _ this] demo_room show ?thesis by auto
qed

end
