(* ===== verification/Clients.thy ===== *)
theory Clients
  imports Concurrency
begin

text \<open>
  Whole tool calls at once.  A tool of \<open>mcp_server.py\<close> is a coroutine: checks of its arguments on
  the event loop, a run of \<open>DatabaseService._run\<close> that it awaits, and more of both until it returns
  or raises.  A task is what such a call still has to do.  The theory shows that the tasks, one
  after the other, are the tools of \<open>Tools\<close>, and gives the server of \<open>Concurrency\<close> its clients.
\<close>

section \<open>Tasks\<close>

datatype 'a task =
    Return "exn + 'a"
  | Perform run_request "run_value result \<Rightarrow> 'a task"

primrec tbind :: "'a task \<Rightarrow> ('a \<Rightarrow> 'b task) \<Rightarrow> 'b task" where
  "tbind (Return r) g = (case r of Inl e \<Rightarrow> Return (Inl e) | Inr x \<Rightarrow> g x)"
| "tbind (Perform q k) g = Perform q (\<lambda>r. tbind (k r) g)"

definition tmap :: "('a \<Rightarrow> 'b) \<Rightarrow> 'a task \<Rightarrow> 'b task" where
  "tmap f t = tbind t (\<lambda>x. Return (Inr (f x)))"

text \<open>Awaiting a run and taking its value.\<close>

definition perform :: "run_request \<Rightarrow> (run_value \<Rightarrow> 'a option) \<Rightarrow> 'a task" where
  "perform q sel = Perform q (\<lambda>r. Return (rbind r (\<lambda>v. case sel v of
     None \<Rightarrow> Inl (TypeError ''value of another operation'') | Some x \<Rightarrow> Inr x)))"

definition read_run :: "string \<Rightarrow> string option \<Rightarrow> string \<Rightarrow> ('a \<Rightarrow> run_value) \<Rightarrow> (db_connection \<Rightarrow> 'a result) \<Rightarrow> run_request" where
  "read_run a d name wrap f = ReadRun a d name (\<lambda>c. rbind (f c) (\<lambda>x. Inr (wrap x)))"

fun the_names where "the_names (RunNames x) = Some x" | "the_names _ = None"
fun the_tables where "the_tables (RunTables x) = Some x" | "the_tables _ = None"
fun the_table where "the_table (RunTable x) = Some x" | "the_table _ = None"
fun the_procedures where "the_procedures (RunProcedures x) = Some x" | "the_procedures _ = None"
fun the_procedure where "the_procedure (RunProcedure x) = Some x" | "the_procedure _ = None"
fun the_sql where "the_sql (RunSql x) = Some x" | "the_sql _ = None"

section \<open>The operations of the service as tasks\<close>

definition list_databases_task :: "service \<Rightarrow> string \<Rightarrow> string option \<Rightarrow> string list task" where
  "list_databases_task sv server name_contains =
     tbind (Return (server_for sv server)) (\<lambda>configured.
     tbind (perform (read_run server None ''list_databases'' RunNames
         (\<lambda>c. dx_list_databases (extras_for (sc_engine configured)) (dc_query c))) the_names) (\<lambda>names.
     Return (Inr (filter (\<lambda>name. contains_text name name_contains) (sort_key casefold names)))))"

definition list_tables_task :: "service \<Rightarrow> string \<Rightarrow> string \<Rightarrow> string option \<Rightarrow> string option \<Rightarrow> table_summary list task" where
  "list_tables_task sv server database schema name_contains =
     tbind (Return (server_for sv server)) (\<lambda>_.
     tbind (perform (read_run server (Some database) ''list_tables'' RunTables
         (\<lambda>c. list_tables (dc_inspector c))) the_tables) (\<lambda>tables.
     Return (Inr (select_tables schema name_contains tables))))"

definition table_definition_task :: "service \<Rightarrow> string \<Rightarrow> string \<Rightarrow> string \<Rightarrow> string option \<Rightarrow> table_definition task" where
  "table_definition_task sv server database table schema =
     tbind (Return (server_for sv server)) (\<lambda>_.
     perform (read_run server (Some database) ''get_table_definition'' RunTable (\<lambda>c.
       rbind (list_tables (dc_inspector c)) (\<lambda>tables.
       rbind (resolve_table_name tables table schema) (\<lambda>selected.
       get_table_definition (dc_inspector c) (tb_schema selected) (tb_name selected))))) the_table)"

definition list_procedures_task :: "service \<Rightarrow> string \<Rightarrow> string \<Rightarrow> string option \<Rightarrow> string option
    \<Rightarrow> procedure_summary list task" where
  "list_procedures_task sv server database schema name_contains =
     tbind (Return (server_for sv server)) (\<lambda>configured.
     tbind (Return (require_meta_and_code_access configured)) (\<lambda>_.
     tbind (perform (read_run server (Some database) ''list_stored_procedures'' RunProcedures
         (\<lambda>c. dx_list_procedures (extras_for (sc_engine configured)) (dc_query c) database)) the_procedures)
       (\<lambda>procedures. Return (Inr (select_procedures schema name_contains procedures)))))"

definition procedure_task :: "service \<Rightarrow> string \<Rightarrow> string \<Rightarrow> string \<Rightarrow> string option \<Rightarrow> procedure_definition task" where
  "procedure_task sv server database name schema =
     tbind (Return (server_for sv server)) (\<lambda>configured.
     tbind (list_procedures_task sv server database schema None) (\<lambda>listing.
     tbind (Return (procedure_match listing name)) (\<lambda>selected.
     tbind (perform (read_run server (Some database) ''get_stored_procedure'' RunProcedure
         (\<lambda>c. dx_get_procedure (extras_for (sc_engine configured)) (dc_query c) database
            (ps_schema selected) (ps_name selected))) the_procedure)
       (\<lambda>found. Return (check_definition sv name found)))))"

definition sql_task :: "service \<Rightarrow> string \<Rightarrow> string \<Rightarrow> string \<Rightarrow> int option \<Rightarrow> sql_result task" where
  "sql_task sv server database sql max_rows =
     tbind (Return (server_for sv server)) (\<lambda>configured.
     tbind (Return (raise_if (sc_access_level configured \<noteq> ALL_PII_SAFE \<or> sc_pii configured = None)
       (Domain sql_access_error))) (\<lambda>_.
     let runtime = ac_runtime (sv_config sv);
         rows_limit = (case max_rows of None \<Rightarrow> default_max_rows runtime | Some m \<Rightarrow> m) in
     tbind (Return (codec_for (sv_codecs sv) server)) (\<lambda>codec.
     tbind (Return (dialect_for (engine_text (sc_engine configured)))) (\<lambda>d.
     perform (SqlRun server database sql (the (sc_pii configured)) codec rows_limit d) the_sql))))"

text \<open>The tools.\<close>

fun tool_task :: "service \<Rightarrow> tool_call \<Rightarrow> tool_value task" where
  "tool_task sv ListServers = Return (Inr (Servers (list_servers sv)))"
| "tool_task sv (ListDatabases server nc) = tmap Databases (list_databases_task sv server nc)"
| "tool_task sv (ListTables server database schema nc) = tmap Tables (list_tables_task sv server database schema nc)"
| "tool_task sv (GetTableDefinition server database table schema) =
     tmap Table (table_definition_task sv server database table schema)"
| "tool_task sv (ListStoredProcedures server database schema nc) =
     tmap Procedures (list_procedures_task sv server database schema nc)"
| "tool_task sv (GetStoredProcedure server database name schema) =
     tmap Procedure (procedure_task sv server database name schema)"
| "tool_task sv (ExecuteSql server database sql max_rows) = tmap Sql (sql_task sv server database sql max_rows)"

text \<open>What \<open>_domain_call\<close> makes of the end of a call.\<close>

fun tool_outcome :: "exn + tool_value \<Rightarrow> tool_failure + tool_value" where
  "tool_outcome (Inr x) = Inr x"
| "tool_outcome (Inl (Domain e)) = Inl (ToolError (domain_error_str e))"
| "tool_outcome (Inl e) = Inl (Escaped e)"

section \<open>Tasks one after the other\<close>

primrec run_task :: "service \<Rightarrow> 'a task \<Rightarrow> 'a service_call" where
  "run_task sv (Return r) st = (r, st)"
| "run_task sv (Perform q k) st =
     (case service_run sv (rq_alias q) (rq_database q) (rq_name q) (rq_operation sv q) st of
        (r, st') \<Rightarrow> run_task sv (k r) st')"

lemma run_tbind: "run_task sv (tbind t g) = sbind (run_task sv t) (\<lambda>x. run_task sv (g x))"
proof (rule ext)
  show "run_task sv (tbind t g) st = sbind (run_task sv t) (\<lambda>x. run_task sv (g x)) st" for st
    by (induction t arbitrary: st) (auto simp: sbind_def split: sum.splits prod.splits)
qed

lemma run_Return: "run_task sv (Return r) = slift r"
  by (rule ext) (simp add: slift_def)

text \<open>A run does not look at the value it returns.\<close>

lemma service_run_map:
  "service_run sv a d name (\<lambda>c n. sbind (op c n) (\<lambda>x. sreturn (h x))) st =
     (case service_run sv a d name op st of (r, st') \<Rightarrow> (rbind r (\<lambda>x. Inr (h x)), st'))"
proof (cases "server_for sv a")
  case (Inl x)
  then show ?thesis by (simp add: service_run_def sbind_def slift_def)
next
  case server: (Inr server)
  let ?st = "(ss_registry st, ss_catalog st, ss_connects st)"
  obtain r reg cat n where run: "registry_run (sv_config sv) (sv_create sv) a d (with_connection sv op) ?st = (r, reg, cat, n)"
    by (metis prod_cases4)
  then have "registry_run (sv_config sv) (sv_create sv) a d
      (with_connection sv (\<lambda>c n. sbind (op c n) (\<lambda>x. sreturn (h x)))) ?st = (rbind r (\<lambda>x. Inr (h x)), reg, cat, n)"
    by (auto simp: registry_run_def with_connection_def sbind_def sreturn_def split: prod.splits sum.splits)
  with server run show ?thesis
    by (simp add: service_run_def sbind_slift_Inr Let_def case_prod_beta split: sum.split)
qed

lemma run_perform:
  assumes "\<And>c n. rq_operation sv q c n = sbind (op c n) (\<lambda>x. sreturn (wrap x))" and "\<And>x. sel (wrap x) = Some x"
  shows "run_task sv (perform q sel) = service_run sv (rq_alias q) (rq_database q) (rq_name q) op"
proof (rule ext)
  fix st
  have "rq_operation sv q = (\<lambda>c n. sbind (op c n) (\<lambda>x. sreturn (wrap x)))" using assms(1) by blast
  then show "run_task sv (perform q sel) st = service_run sv (rq_alias q) (rq_database q) (rq_name q) op st"
    using assms(2) by (auto simp: perform_def service_run_map rbind_def split: prod.split sum.split)
qed

lemma slift_rbind: "slift (rbind r (\<lambda>x. Inr (h x))) = sbind (slift r) (\<lambda>x. sreturn (h x))"
  by (rule ext) (simp add: slift_def sbind_def sreturn_def rbind_def split: sum.split)

lemma run_perform_read:
  assumes "\<And>x. sel (wrap x) = Some x"
  shows "run_task sv (perform (read_run a d name wrap f) sel) = service_run sv a d name (\<lambda>c n. slift (f c))"
  using run_perform [where q = "read_run a d name wrap f" and op = "\<lambda>c n. slift (f c)" and wrap = wrap and sv = sv, OF _ assms]
  by (simp add: read_run_def slift_rbind)

lemma run_perform_sql:
  "run_task sv (perform (SqlRun a d sql pii codec limit dia) the_sql) =
     service_run sv a (Some d) ''execute_sql'' (sql_operation sv a d sql pii codec limit dia)"
  using run_perform [where q = "SqlRun a d sql pii codec limit dia" and sel = the_sql and wrap = RunSql
      and op = "sql_operation sv a d sql pii codec limit dia" and sv = sv] by simp

lemmas run_task_simps = run_tbind run_Return slift_Inr_sreturn run_perform_sql
  run_perform_read [where wrap = RunNames and sel = the_names, OF the_names.simps(1)]
  run_perform_read [where wrap = RunTables and sel = the_tables, OF the_tables.simps(1)]
  run_perform_read [where wrap = RunTable and sel = the_table, OF the_table.simps(1)]
  run_perform_read [where wrap = RunProcedures and sel = the_procedures, OF the_procedures.simps(1)]
  run_perform_read [where wrap = RunProcedure and sel = the_procedure, OF the_procedure.simps(1)]

text \<open>\<open>tbind\<close> stays folded, so that \<open>run_tbind\<close> meets it.\<close>

declare tbind.simps [simp del]

lemma run_operation_tasks:
  "run_task sv (list_databases_task sv a nc) = list_databases sv a nc"
  "run_task sv (list_tables_task sv a d s nc) = list_tables_call sv a d s nc"
  "run_task sv (table_definition_task sv a d t s) = table_definition_call sv a d t s"
  "run_task sv (list_procedures_task sv a d s nc) = list_procedures_call sv a d s nc"
  "run_task sv (sql_task sv a d q m) = sql_call sv a d q m"
  by (simp_all only: list_databases_task_def list_databases_def list_tables_task_def list_tables_call_def
      table_definition_task_def table_definition_call_def list_procedures_task_def list_procedures_call_def
      sql_task_def sql_call_def Let_def run_task_simps)

lemma run_procedure_task: "run_task sv (procedure_task sv a d n s) = procedure_call sv a d n s"
  by (simp only: procedure_task_def procedure_call_def run_task_simps run_operation_tasks)

lemma run_tmap: "run_task sv (tmap f t) = smap f (run_task sv t)"
  by (simp only: tmap_def smap_def run_tbind run_Return slift_Inr_sreturn)

lemma domain_call_outcome:
  "smap f (domain_call m) st = (case smap f m st of (r, st') \<Rightarrow> (tool_outcome r, st'))"
  by (auto simp: smap_def sbind_def sreturn_def domain_call_def split: prod.splits sum.splits exn.splits)

lemma run_tool_task: "run_tool sv c st = (case run_task sv (tool_task sv c) st of (r, st') \<Rightarrow> (tool_outcome r, st'))"
  by (cases c) (simp_all add: run_tmap run_operation_tasks run_procedure_task domain_call_outcome sreturn_def run_Return
      slift_def del: run_task.simps)

section \<open>Clients of the server\<close>

text \<open>A call awaits the run at a position among the server's jobs, or has been answered.\<close>

datatype client_call =
    Pending tool_call nat "run_value result \<Rightarrow> tool_value task"
  | Answered tool_call "tool_failure + tool_value"

primrec call_tool :: "client_call \<Rightarrow> tool_call" where
  "call_tool (Pending c j k) = c"
| "call_tool (Answered c out) = c"

fun is_answered :: "client_call \<Rightarrow> bool" where
  "is_answered (Answered c out) \<longleftrightarrow> True"
| "is_answered (Pending c j k) \<longleftrightarrow> False"

record clients =
  cl_server :: server
  cl_calls :: "client_call list"

definition new_clients :: "(nat \<Rightarrow> int) \<Rightarrow> clients" where
  "new_clients clock = \<lparr>cl_server = new_server clock, cl_calls = []\<rparr>"

text \<open>A coroutine goes on to its next run, which arrives, or to its end.\<close>

inductive go_on :: "service \<Rightarrow> tool_call \<Rightarrow> tool_value task \<Rightarrow> server \<Rightarrow> server \<Rightarrow> client_call \<Rightarrow> bool" for sv c where
  returned: "go_on sv c (Return r) s s (Answered c (tool_outcome r))"
| performed: "arrive_step sv s s' \<Longrightarrow> job_request (last (sd_jobs s')) = q \<Longrightarrow>
     go_on sv c (Perform q k) s s' (Pending c (length (sd_jobs s)) k)"

inductive call_step :: "service \<Rightarrow> clients \<Rightarrow> clients \<Rightarrow> bool" for sv where
  called: "go_on sv c (tool_task sv c) s s' x \<Longrightarrow>
     call_step sv \<lparr>cl_server = s, cl_calls = xs\<rparr> \<lparr>cl_server = s', cl_calls = xs @ [x]\<rparr>"

text \<open>The server goes on with a run, or a coroutine whose run has ended goes on.\<close>

inductive serve_step :: "service \<Rightarrow> limiter \<Rightarrow> clients \<Rightarrow> clients \<Rightarrow> bool" for sv admit where
  worked: "work_step sv admit s s' \<Longrightarrow>
     serve_step sv admit \<lparr>cl_server = s, cl_calls = xs\<rparr> \<lparr>cl_server = s', cl_calls = xs\<rparr>"
| resumed: "i < length xs \<Longrightarrow> xs ! i = Pending c j k \<Longrightarrow> j < length (sd_jobs s) \<Longrightarrow> sd_jobs s ! j = Ended q r \<Longrightarrow>
     go_on sv c (k r) s s' x \<Longrightarrow>
     serve_step sv admit \<lparr>cl_server = s, cl_calls = xs\<rparr> \<lparr>cl_server = s', cl_calls = xs[i := x]\<rparr>"

inductive_cases go_on_ReturnE: "go_on sv c (Return r) s s' x"
inductive_cases go_on_PerformE: "go_on sv c (Perform q k) s s' x"

definition client_step :: "service \<Rightarrow> limiter \<Rightarrow> clients \<Rightarrow> clients \<Rightarrow> bool" where
  "client_step sv admit s s' \<longleftrightarrow> call_step sv s s' \<or> serve_step sv admit s s'"

section \<open>The clients' server is a server\<close>

lemma arrive_step_jobs: "arrive_step sv s s' \<Longrightarrow> \<exists>j. sd_jobs s' = sd_jobs s @ [j]"
  by (erule arrive_stepE) auto

lemma go_on_server: "go_on sv c t s s' x \<Longrightarrow> s' = s \<or> arrive_step sv s s'"
  by (induction rule: go_on.induct) auto

lemma client_step_server:
  "client_step sv admit s s' \<Longrightarrow> (server_step sv admit)\<^sup>*\<^sup>* (cl_server s) (cl_server s')"
  unfolding client_step_def
  by (auto elim!: call_step.cases serve_step.cases dest!: go_on_server simp: server_step_def)

lemma client_steps_server:
  "(client_step sv admit)\<^sup>*\<^sup>* s s' \<Longrightarrow> (server_step sv admit)\<^sup>*\<^sup>* (cl_server s) (cl_server s')"
  by (induction rule: rtranclp_induct) (auto dest: client_step_server intro: rtranclp_trans)

text \<open>The jobs a step leaves are at the positions they had, with their requests.\<close>

definition jobs_kept :: "server \<Rightarrow> server \<Rightarrow> bool" where
  "jobs_kept s s' \<longleftrightarrow> prefix (map job_request (sd_jobs s)) (map job_request (sd_jobs s'))"

lemma jobs_kept_nth:
  assumes "jobs_kept s s'" and "j < length (sd_jobs s)"
  shows "j < length (sd_jobs s') \<and> job_request (sd_jobs s' ! j) = job_request (sd_jobs s ! j)"
proof -
  from assms(1) obtain qs where qs: "map job_request (sd_jobs s') = map job_request (sd_jobs s) @ qs"
    by (auto simp: jobs_kept_def prefix_def)
  then have "length (sd_jobs s') = length (sd_jobs s) + length qs" by (metis length_append length_map)
  moreover have "map job_request (sd_jobs s') ! j = map job_request (sd_jobs s) ! j"
    using assms(2) by (simp add: qs nth_append)
  ultimately show ?thesis using assms(2) by simp
qed

lemma jobs_kept_arrive: "s' = s \<or> arrive_step sv s s' \<Longrightarrow> jobs_kept s s'"
  using arrive_step_jobs [of sv s s'] by (auto simp: jobs_kept_def)

lemma jobs_kept_work: "work_step sv admit s s' \<Longrightarrow> jobs_kept s s'"
  by (simp add: jobs_kept_def work_step_requests)

section \<open>Every answer is the direct one\<close>

text \<open>
  How a task ends when each of its runs ends as it would alone and with no cache (\<open>answered\<close>).
\<close>

inductive direct_answer :: "service \<Rightarrow> (string \<Rightarrow> string \<Rightarrow> inspector) \<Rightarrow> 'a task \<Rightarrow> exn + 'a \<Rightarrow> bool" for sv dbs where
  "direct_answer sv dbs (Return r) r"
| "answered sv dbs q r \<Longrightarrow> direct_answer sv dbs (k r) out \<Longrightarrow> direct_answer sv dbs (Perform q k) out"

inductive_simps direct_answer_simps:
  "direct_answer sv dbs (Return r) out"
  "direct_answer sv dbs (Perform q k) out"

fun call_sound :: "service \<Rightarrow> (string \<Rightarrow> string \<Rightarrow> inspector) \<Rightarrow> server \<Rightarrow> client_call \<Rightarrow> bool" where
  "call_sound sv dbs s (Pending c j k) \<longleftrightarrow> j < length (sd_jobs s) \<and>
     (\<forall>r out. answered sv dbs (job_request (sd_jobs s ! j)) r \<longrightarrow> direct_answer sv dbs (k r) out \<longrightarrow>
        direct_answer sv dbs (tool_task sv c) out)"
| "call_sound sv dbs s (Answered c out) \<longleftrightarrow>
     (\<exists>r. direct_answer sv dbs (tool_task sv c) r \<and> out = tool_outcome r)"

definition clients_sound :: "service \<Rightarrow> (string \<Rightarrow> string \<Rightarrow> inspector) \<Rightarrow> clients \<Rightarrow> bool" where
  "clients_sound sv dbs s \<longleftrightarrow> (\<forall>x \<in> set (cl_calls s). call_sound sv dbs (cl_server s) x)"

lemma call_sound_kept: "call_sound sv dbs s x \<Longrightarrow> jobs_kept s s' \<Longrightarrow> call_sound sv dbs s' x"
  using jobs_kept_nth [of s s'] by (cases x) auto

lemma go_on_sound:
  assumes "go_on sv c t s s' x"
    and "\<And>out. direct_answer sv dbs t out \<Longrightarrow> direct_answer sv dbs (tool_task sv c) out"
  shows "call_sound sv dbs s' x"
  using assms(1)
proof cases
  case (returned r)
  then have "direct_answer sv dbs (tool_task sv c) r" by (intro assms(2)) (simp add: direct_answer.intros(1))
  with returned show ?thesis by auto
next
  case (performed q k)
  from arrive_step_jobs [OF performed(3)] obtain j where jobs: "sd_jobs s' = sd_jobs s @ [j]" ..
  with performed(4) have "job_request (sd_jobs s' ! length (sd_jobs s)) = q" by simp
  moreover have "direct_answer sv dbs (tool_task sv c) out" if "answered sv dbs q r" "direct_answer sv dbs (k r) out" for r out
    using direct_answer.intros(2) [where k = k, OF that] performed(1) assms(2) by simp
  ultimately show ?thesis using jobs performed(2) by auto
qed

lemma clients_sound_step:
  assumes "client_step sv admit s s'" and "clients_sound sv dbs s" and "server_sound sv dbs (cl_server s)"
  shows "clients_sound sv dbs s'"
proof -
  from assms(1) consider (call) "call_step sv s s'" | (serve) "serve_step sv admit s s'"
    by (auto simp: client_step_def)
  then show ?thesis
  proof cases
    case call
    then show ?thesis
    proof cases
      case (called c t t' x xs)
      have "jobs_kept t t'" using go_on_server [OF called(3)] by (rule jobs_kept_arrive)
      moreover have "call_sound sv dbs t' x" using called(3) by (rule go_on_sound)
      ultimately show ?thesis using assms(2) called(1,2) by (auto simp: clients_sound_def intro: call_sound_kept)
    qed
  next
    case serve
    then show ?thesis
    proof cases
      case (worked t t' xs)
      then show ?thesis using assms(2) jobs_kept_work by (auto simp: clients_sound_def intro: call_sound_kept)
    next
      case (resumed i xs c j k t q r t' x)
      have "call_sound sv dbs t (Pending c j k)"
        using assms(2) resumed(1,3,4) nth_mem by (fastforce simp: clients_sound_def)
      moreover have "answered sv dbs q r"
        using assms(3) resumed(1,5,6) nth_mem [of j "sd_jobs t"] by (auto simp: server_sound_def)
      ultimately have "call_sound sv dbs t' x"
        using resumed(6) by (intro go_on_sound [OF resumed(7)]) auto
      moreover have "jobs_kept t t'" using go_on_server [OF resumed(7)] by (rule jobs_kept_arrive)
      ultimately show ?thesis
        using assms(2) resumed(1,2) set_update_subset_insert [of xs i x]
        by (auto simp: clients_sound_def intro: call_sound_kept)
    qed
  qed
qed

lemma reachable_clients_sound:
  assumes "databases sv dbs" and "(client_step sv admit)\<^sup>*\<^sup>* (new_clients clock) s"
  shows "clients_sound sv dbs s"
  using assms(2)
proof (induction rule: rtranclp_induct)
  case base
  show ?case by (simp add: clients_sound_def new_clients_def)
next
  case (step s s')
  have "server_sound sv dbs (cl_server s)"
    using reachable_sound [OF assms(1)] client_steps_server [OF step.hyps(1)] by (simp add: new_clients_def)
  with step show ?case by (blast intro: clients_sound_step)
qed

section \<open>Answers of the \<open>execute_sql\<close> tool\<close>

lemma tbind_Inr: "tbind (Return (Inr x)) g = g x"
  by (simp add: tbind.simps)

lemma direct_tmap_Inr:
  assumes "direct_answer sv dbs (tmap f t) (Inr y)"
  obtains x where "direct_answer sv dbs t (Inr x)" and "y = f x"
proof -
  have "\<exists>x. direct_answer sv dbs t (Inr x) \<and> y = f x"
    using assms
  proof (induction t)
    case (Return r)
    then show ?case by (cases r) (auto simp: tmap_def tbind.simps direct_answer_simps)
  next
    case (Perform q k)
    then obtain r where "answered sv dbs q r" "direct_answer sv dbs (tmap f (k r)) (Inr y)"
      by (auto simp: tmap_def tbind.simps direct_answer_simps)
    with Perform.IH [of "k r"] show ?case by (auto intro: direct_answer.intros(2))
  qed
  with that show thesis by blast
qed

lemma direct_perform_Inr:
  assumes "direct_answer sv dbs (perform q sel) (Inr y)"
  obtains v where "answered sv dbs q (Inr v)" and "sel v = Some y"
proof -
  from assms obtain r where r: "answered sv dbs q r"
    and "rbind r (\<lambda>v. case sel v of None \<Rightarrow> Inl (TypeError ''value of another operation'') | Some x \<Rightarrow> Inr x) = Inr y"
    unfolding perform_def direct_answer_simps by metis
  with that show thesis by (cases r) (auto split: option.splits)
qed

text \<open>A result is that of the query validated and executed on a connection of the server's own engine.\<close>

lemma run_outcome_Inr: "run_outcome ref r = Inr v \<Longrightarrow> r = Inr v"
  by (auto simp: run_outcome_def split: sum.splits)

lemma answered_sql_Inr:
  assumes "answered sv dbs (SqlRun a d sql pii codec limit dia) (Inr v)"
  obtains n e c res where "engine_options_for (sv_config sv) a (Some d) = Inr (eg_options e)"
    "sv_connect sv n e = Inr c" "direct_sql sv (dbs a d) a d sql pii codec limit dia c n = Inr res" "v = RunSql res"
proof -
  from assms obtain n e where e: "own_engine sv (SqlRun a d sql pii codec limit dia) e"
    and run: "direct_on sv dbs (SqlRun a d sql pii codec limit dia) n e = Inr v"
    by (auto simp: answered_def run_outcome_def [of _ "Inl _"] dest!: run_outcome_Inr [OF sym])
  from run obtain c where "sv_connect sv n e = Inr c"
    and "rbind (direct_sql sv (dbs a d) a d sql pii codec limit dia c n) (\<lambda>r. Inr (RunSql r)) = Inr v"
    by (auto simp: direct_on_def split: sum.splits)
  with e that show thesis by (auto simp: own_engine_def rbind_def split: sum.splits)
qed

lemma direct_sql_answer_Inr:
  assumes "direct_answer sv dbs (tool_task sv (ExecuteSql a d sql m)) (Inr (Sql res))"
  obtains server pii codec limit dia n e c where "server_for sv a = Inr server"
    "sc_access_level server = ALL_PII_SAFE" "sc_pii server = Some pii" "codec_for (sv_codecs sv) a = Inr codec"
    "engine_options_for (sv_config sv) a (Some d) = Inr (eg_options e)"
    "sv_connect sv n e = Inr c" "direct_sql sv (dbs a d) a d sql pii codec limit dia c n = Inr res"
proof -
  from assms obtain res' where task: "direct_answer sv dbs (sql_task sv a d sql m) (Inr res')" and res: "res = res'"
    by (auto elim: direct_tmap_Inr)
  obtain server where server: "server_for sv a = Inr server"
    using task by (cases "server_for sv a") (auto simp: sql_task_def tbind.simps direct_answer_simps)
  have safe: "sc_access_level server = ALL_PII_SAFE \<and> sc_pii server \<noteq> None"
    using task server by (auto simp: sql_task_def tbind.simps direct_answer_simps raise_if_def split: if_splits)
  then obtain pii where pii: "sc_pii server = Some pii" by blast
  have granted: "raise_if (sc_access_level server \<noteq> ALL_PII_SAFE \<or> sc_pii server = None) x = Inr ()" for x
    using safe by (simp add: raise_if_def)
  note steps = sql_task_def server tbind_Inr granted Let_def
  obtain codec where codec: "codec_for (sv_codecs sv) a = Inr codec"
    using task [unfolded steps]
    by (cases "codec_for (sv_codecs sv) a") (auto simp: tbind.simps direct_answer_simps)
  obtain dia where dia: "dialect_for (engine_text (sc_engine server)) = Inr dia"
    using task [unfolded steps codec]
    by (cases "dialect_for (engine_text (sc_engine server))") (auto simp: tbind.simps direct_answer_simps)
  obtain limit where "sql_task sv a d sql m = perform (SqlRun a d sql pii codec limit dia) the_sql"
    unfolding steps codec dia unfolding pii option.sel by blast
  with task obtain v where "answered sv dbs (SqlRun a d sql pii codec limit dia) (Inr v)" and v: "the_sql v = Some res'"
    by (auto elim: direct_perform_Inr)
  from answered_sql_Inr [OF this(1)] obtain n e c res'' where "engine_options_for (sv_config sv) a (Some d) = Inr (eg_options e)"
    "sv_connect sv n e = Inr c" "direct_sql sv (dbs a d) a d sql pii codec limit dia c n = Inr res''" "v = RunSql res''" .
  with that [OF server _ pii codec] safe v res show thesis by auto
qed

section \<open>Every call is answered\<close>

inductive call_less :: "client_call \<Rightarrow> client_call \<Rightarrow> bool" where
  "call_less (Answered c out) (Pending c j k)"
| "k r = Perform q k' \<Longrightarrow> call_less (Pending c j' k') (Pending c j k)"

inductive_cases call_less_PendingE: "call_less x (Pending c j k)"
inductive_cases call_less_AnsweredE: "call_less x (Answered c out)"

lemma accp_Answered: "Wellfounded.accp call_less (Answered c out)"
  by (rule accpI) (auto elim: call_less_AnsweredE)

lemma accp_Pending: "t = Perform q k \<Longrightarrow> Wellfounded.accp call_less (Pending c j k)"
proof (induction t arbitrary: q k j)
  case (Perform q0 k0)
  show ?case
  proof (rule accpI)
    show "Wellfounded.accp call_less x" if "call_less x (Pending c j k)" for x
      using that
    proof (rule call_less_PendingE)
      fix r q' k' j' assume "x = Pending c j' k'" "k r = Perform q' k'"
      with Perform show ?thesis by (metis rangeI task.inject(2))
    qed (simp add: accp_Answered)
  qed
qed simp

lemma wf_call_less: "wf {(x', x). call_less x' x}"
proof -
  have "Wellfounded.accp call_less x" for x
    by (cases x) (simp_all add: accp_Answered accp_Pending [OF refl])
  then show ?thesis by (simp add: accp_wfpI wfp_def [symmetric])
qed

lemma go_on_less: "go_on sv c (k r) s s' x \<Longrightarrow> call_less x (Pending c j k)"
  by (cases "k r") (auto elim!: go_on_ReturnE go_on_PerformE intro: call_less.intros)

lemma serve_step_wf: "wf {(s', s). serve_step sv admit s s'}"
proof (rule wf_subset)
  let ?r = "mult1 {(x', x). call_less x' x} <*lex*> mult1 {(j', j). job_less j' j}"
  show "wf (inv_image ?r (\<lambda>s. (mset (cl_calls s), mset (sd_jobs (cl_server s)))))"
    by (intro wf_inv_image wf_lex_prod wf_mult1 wf_call_less wf_job_less)
  show "{(s', s). serve_step sv admit s s'} \<subseteq> inv_image ?r (\<lambda>s. (mset (cl_calls s), mset (sd_jobs (cl_server s))))"
    by (auto elim!: serve_step.cases simp: work_step_decreases intro!: mult1_update go_on_less)
qed

text \<open>A run always arrives.\<close>

lemma run_arrives: "\<exists>s'. arrive_step sv s s' \<and> job_request (last (sd_jobs s')) = q"
proof -
  obtain st js where s: "s = \<lparr>sd_state = st, sd_jobs = js\<rparr>" by (cases s)
  show ?thesis
  proof (cases "server_for sv (rq_alias q)")
    case (Inl x)
    from arrive_step.unknown [OF Inl] s show ?thesis by fastforce
  next
    case (Inr server)
    obtain g reg where get: "registry_get (sv_config sv) (sv_create sv) (rq_alias q) (rq_database q) (ss_registry st) = (g, reg)"
      by (cases "registry_get (sv_config sv) (sv_create sv) (rq_alias q) (rq_database q) (ss_registry st)")
    show ?thesis
    proof (cases g)
      case (Inl x)
      obtain r st' where "end_run sv server q (Inl x) (st\<lparr>ss_registry := reg\<rparr>) = (r, st')"
        by (cases "end_run sv server q (Inl x) (st\<lparr>ss_registry := reg\<rparr>)")
      from arrive_step.refused [OF Inr get [unfolded Inl] this] s show ?thesis by fastforce
    next
      case e: (Inr e)
      from arrive_step.accepted [OF Inr get [unfolded e]] s show ?thesis by fastforce
    qed
  qed
qed

lemma task_goes_on: "\<exists>s' x. go_on sv c t s s' x"
  using run_arrives [of sv s] by (cases t) (blast intro: go_on.intros)+

text \<open>A call that is not answered can go on, or a run can.\<close>

lemma serve_goes_on:
  assumes "jobs_known sv (cl_server s)" and "limits admit"
    and "0 < max_concurrent_db_operations (ac_runtime (sv_config sv))"
    and "x \<in> set (cl_calls s)" and "\<not> is_answered x"
    and "\<And>c j k. Pending c j k \<in> set (cl_calls s) \<Longrightarrow> j < length (sd_jobs (cl_server s))"
  shows "\<exists>s'. serve_step sv admit s s'"
proof -
  obtain t xs where s: "s = \<lparr>cl_server = t, cl_calls = xs\<rparr>" by (cases s)
  obtain c j k where x: "x = Pending c j k" using assms(5) by (cases x) auto
  have j: "j < length (sd_jobs t)" using assms(4,6) s x by auto
  show ?thesis
  proof (cases "is_ended (sd_jobs t ! j)")
    case True
    then obtain q r where job: "sd_jobs t ! j = Ended q r" by (cases "sd_jobs t ! j") auto
    obtain i where i: "i < length xs" "xs ! i = Pending c j k" using assms(4) s x by (auto simp: in_set_conv_nth)
    obtain t' y where "go_on sv c (k r) t t' y" using task_goes_on by blast
    from serve_step.resumed [OF i j job this] s show ?thesis by blast
  next
    case False
    obtain t' where "work_step sv admit t t'"
      using work_goes_on [OF _ assms(2,3) nth_mem [OF j] False] assms(1) s by auto
    with s show ?thesis by (auto intro: serve_step.worked)
  qed
qed

section \<open>Properties\<close>

lemma go_on_pending: "go_on sv c t s s' (Pending c' j k) \<Longrightarrow> j < length (sd_jobs s')"
  by (auto elim!: go_on.cases dest!: arrive_step_jobs)

lemma pending_runs:
  assumes "(client_step sv admit)\<^sup>*\<^sup>* (new_clients clock) s" and "Pending c j k \<in> set (cl_calls s)"
  shows "j < length (sd_jobs (cl_server s))"
proof -
  have "\<forall>c j k. Pending c j k \<in> set (cl_calls s) \<longrightarrow> j < length (sd_jobs (cl_server s))"
    using assms(1)
  proof (induction rule: rtranclp_induct)
    case base
    show ?case by (simp add: new_clients_def)
  next
    case (step s s')
    then show ?case unfolding client_step_def
      by (elim disjE call_step.cases serve_step.cases)
        (use go_on_pending jobs_kept_arrive [OF go_on_server] jobs_kept_work jobs_kept_nth set_update_subset_insert in fastforce)+
  qed
  with assms(2) show ?thesis by blast
qed

lemma serve_steps_calls:
  assumes "(serve_step sv admit)\<^sup>*\<^sup>* s s'"
  shows "(client_step sv admit)\<^sup>*\<^sup>* s s' \<and> map call_tool (cl_calls s') = map call_tool (cl_calls s)"
  using assms
proof (induction rule: rtranclp_induct)
  case (step t t')
  have "map call_tool (cl_calls t') = map call_tool (cl_calls t)"
    using step.hyps(2)
  proof cases
    case (resumed i xs c j k s q r s' x)
    have "call_tool x = c" using resumed(7) by cases simp_all
    with resumed(1-4) show ?thesis by (simp add: map_update list_update_same_conv)
  qed simp
  moreover have "client_step sv admit t t'" using step.hyps(2) by (simp add: client_step_def)
  ultimately show ?case using step.IH by (auto intro: rtranclp.rtrancl_into_rtrancl)
qed simp

text \<open>
  C15. Tool calls at once do not disturb each other: while the databases do not change, in every
  schedule of any calls of any tools, each call that is answered gets what its tool gives when every
  run it awaits ends as that run would alone and with no cache, on a connection of an engine of its
  own server and database; whatever the other calls do to the registry and the cache meanwhile, and
  although a call of several runs is interleaved with others between them.
\<close>

theorem tool_calls_answer_directly:
  assumes "databases sv dbs" and "(client_step sv admit)\<^sup>*\<^sup>* (new_clients clock) s"
    and "Answered c out \<in> set (cl_calls s)"
  shows "\<exists>r. direct_answer sv dbs (tool_task sv c) r \<and> out = tool_outcome r"
  using reachable_clients_sound [OF assms(1,2)] assms(3) by (auto simp: clients_sound_def)

text \<open>
  C16. Every tool call is answered: from any reachable state the server and its clients cannot take
  infinitely many steps with no new calls arriving, and when none can take a step every call that
  was ever made has been answered, with every run it awaited ended.
\<close>

theorem every_call_is_answered:
  assumes "limits admit" and "0 < max_concurrent_db_operations (ac_runtime (sv_config sv))"
    and "(client_step sv admit)\<^sup>*\<^sup>* (new_clients clock) s"
  shows "\<not> (\<exists>\<sigma>. \<sigma> 0 = s \<and> (\<forall>i. serve_step sv admit (\<sigma> i) (\<sigma> (Suc i)))) \<and>
    (\<forall>s'. (serve_step sv admit)\<^sup>*\<^sup>* s s' \<longrightarrow> \<not> (\<exists>t. serve_step sv admit s' t) \<longrightarrow>
      map call_tool (cl_calls s') = map call_tool (cl_calls s) \<and> (\<forall>x \<in> set (cl_calls s'). is_answered x))"
proof (intro conjI allI impI)
  show "\<not> (\<exists>\<sigma>. \<sigma> 0 = s \<and> (\<forall>i. serve_step sv admit (\<sigma> i) (\<sigma> (Suc i))))"
    using serve_step_wf [of sv admit] by (auto simp: wf_iff_no_infinite_down_chain)
  fix s' assume run: "(serve_step sv admit)\<^sup>*\<^sup>* s s'" and stuck: "\<not> (\<exists>t. serve_step sv admit s' t)"
  note calls = serve_steps_calls [OF run]
  then show "map call_tool (cl_calls s') = map call_tool (cl_calls s)" by blast
  have reach: "(client_step sv admit)\<^sup>*\<^sup>* (new_clients clock) s'" using assms(3) calls by (blast intro: rtranclp_trans)
  have "jobs_known sv (cl_server s')"
    using reachable_known [of sv admit clock] client_steps_server [OF reach] by (simp add: new_clients_def)
  with stuck serve_goes_on [OF _ assms(1,2)] pending_runs [OF reach]
  show "\<forall>x \<in> set (cl_calls s'). is_answered x" by blast
qed

text \<open>
  The two models of the tools agree: for every call and in every state, the task of the call, each of its
  runs carried out by \<open>_run\<close> of the sequential service, ends with the answer of the tool and in the
  state the tool leaves.
\<close>

theorem tasks_are_the_tools:
  "run_tool sv c st = (tool_outcome (fst (run_task sv (tool_task sv c) st)), snd (run_task sv (tool_task sv c) st))"
  by (simp add: run_tool_task case_prod_beta)

end
