(* ===== verification/Client_Examples.thy ===== *)
theory Client_Examples
  imports Concurrency_Examples Clients
begin

text \<open>
  Two calls of the \<open>execute_sql\<close> tool on the example service, both made before either is served.
\<close>

definition demo_call :: tool_call where
  "demo_call = ExecuteSql ''a'' ''db'' ''SELECT'' (Some 10)"

definition demo_rest :: "run_value result \<Rightarrow> tool_value task" where
  "demo_rest r = tmap Sql (Return (rbind r (\<lambda>v. case the_sql v of
     None \<Rightarrow> Inl (TypeError ''value of another operation'') | Some x \<Rightarrow> Inr x)))"

lemma demo_task: "tool_task demo_service demo_call = Perform demo_request demo_rest"
proof -
  have dia: "dialect_for (engine_text (sc_engine (demo_server k))) = Inr SQLSERVER" for k
    unfolding dialect_for_engine by (simp add: demo_server_def)
  have codec: "codec_for (sv_codecs demo_service) ''a'' = Inr demo_codec"
    by (simp add: codec_for_def demo_service_def demo_registry_def demo_codec_def)
  have access: "raise_if (sc_access_level (demo_server k) \<noteq> ALL_PII_SAFE \<or> sc_pii (demo_server k) = None) x = Inr ()"
    "the (sc_pii (demo_server k)) = demo_pii" for k x
    by (simp_all add: demo_server_def raise_if_def)
  have "sql_task demo_service ''a'' ''db'' ''SELECT'' (Some 10) = perform demo_request the_sql"
    unfolding sql_task_def demo_server_for tbind_Inr access codec dia Let_def option.case demo_request_def ..
  then show ?thesis
    by (simp add: demo_call_def perform_def tmap_def tbind.simps demo_rest_def [abs_def])
qed

lemma demo_rest_good: "demo_rest (Inr (RunSql good_report)) = Return (Inr (Sql good_report))"
  by (simp add: demo_rest_def tmap_def tbind.simps)

text \<open>The two calls are made.\<close>

lemma demo_two_calls:
  "\<exists>s. (client_step demo_service demo_limiter)\<^sup>*\<^sup>* (new_clients (\<lambda>i. 0)) s \<and> map call_tool (cl_calls s) = [demo_call, demo_call]"
proof -
  let ?step = "client_step demo_service demo_limiter"
  obtain s1 x1 where go1: "go_on demo_service demo_call (tool_task demo_service demo_call) (new_server (\<lambda>i. 0)) s1 x1"
    using task_goes_on by blast
  obtain s2 x2 where go2: "go_on demo_service demo_call (tool_task demo_service demo_call) s1 s2 x2"
    using task_goes_on by blast
  have "?step \<lparr>cl_server = new_server (\<lambda>i. 0), cl_calls = []\<rparr> \<lparr>cl_server = s1, cl_calls = [] @ [x1]\<rparr>"
    "?step \<lparr>cl_server = s1, cl_calls = [x1]\<rparr> \<lparr>cl_server = s2, cl_calls = [x1] @ [x2]\<rparr>"
    unfolding client_step_def using call_step.called [OF go1] call_step.called [OF go2] by blast+
  then have "?step\<^sup>*\<^sup>* (new_clients (\<lambda>i. 0)) \<lparr>cl_server = s2, cl_calls = [x1, x2]\<rparr>"
    by (simp add: new_clients_def)
  moreover have "call_tool x1 = demo_call" "call_tool x2 = demo_call"
    using go1 go2 by (auto elim: go_on.cases)
  ultimately show ?thesis by force
qed

lemma serving_end:
  assumes "limits admit" and "0 < max_concurrent_db_operations (ac_runtime (sv_config sv))"
    and "(client_step sv admit)\<^sup>*\<^sup>* (new_clients clock) s"
  shows "\<exists>s'. (serve_step sv admit)\<^sup>*\<^sup>* s s' \<and> (\<forall>x \<in> set (cl_calls s'). is_answered x)"
  using assms(3)
proof (induction s rule: wf_induct_rule [OF serve_step_wf [of sv admit]])
  case (1 s)
  show ?case
  proof (cases "\<forall>x \<in> set (cl_calls s). is_answered x")
    case False
    have "jobs_known sv (cl_server s)"
      using reachable_known [of sv admit clock] client_steps_server [OF 1(2)] by (simp add: new_clients_def)
    with False obtain t where t: "serve_step sv admit s t"
      using serve_goes_on [OF _ assms(1,2)] pending_runs [OF 1(2)] by blast
    then have "client_step sv admit s t" by (simp add: client_step_def)
    with 1(2) have "(client_step sv admit)\<^sup>*\<^sup>* (new_clients clock) t" by (rule rtranclp.rtrancl_into_rtrancl)
    with 1(1) t obtain s' where "(serve_step sv admit)\<^sup>*\<^sup>* t s'" "\<forall>x \<in> set (cl_calls s'). is_answered x" by blast
    with t show ?thesis by (meson converse_rtranclp_into_rtranclp)
  qed blast
qed

lemma demo_two_answers:
  "\<exists>s out1 out2. (client_step demo_service demo_limiter)\<^sup>*\<^sup>* (new_clients (\<lambda>i. 0)) s \<and>
     cl_calls s = [Answered demo_call out1, Answered demo_call out2]"
proof -
  obtain s where s: "(client_step demo_service demo_limiter)\<^sup>*\<^sup>* (new_clients (\<lambda>i. 0)) s"
    "map call_tool (cl_calls s) = [demo_call, demo_call]" using demo_two_calls by (elim exE conjE)
  obtain s' where s': "(serve_step demo_service demo_limiter)\<^sup>*\<^sup>* s s'" "\<forall>x \<in> set (cl_calls s'). is_answered x"
    using serving_end [OF demo_limits _ s(1)] demo_room by auto
  note calls = serve_steps_calls [OF s'(1)]
  with s(2) obtain x1 x2 where x: "cl_calls s' = [x1, x2]" "call_tool x1 = demo_call" "call_tool x2 = demo_call"
    by (auto simp: map_eq_Cons_conv)
  with s'(2) have "\<exists>out1 out2. cl_calls s' = [Answered demo_call out1, Answered demo_call out2]"
    by (cases x1; cases x2) auto
  with s(1) calls show ?thesis by (blast intro: rtranclp_trans)
qed

lemma demo_call_direct:
  assumes "direct_answer demo_service (\<lambda>a d. demo_inspector) (tool_task demo_service demo_call) r"
  shows "r = Inr (Sql good_report)"
proof -
  from assms obtain r0 where "answered demo_service (\<lambda>a d. demo_inspector) demo_request r0"
    and rest: "direct_answer demo_service (\<lambda>a d. demo_inspector) (demo_rest r0) r"
    unfolding demo_task direct_answer_simps by blast
  then have "r0 = Inr (RunSql good_report)" by (intro demo_answered)
  with rest show ?thesis by (simp only: demo_rest_good direct_answer_simps)
qed

lemma demo_report_answered:
  "\<exists>s. (client_step demo_service demo_limiter)\<^sup>*\<^sup>* (new_clients (\<lambda>i. 0)) s \<and>
     Answered (ExecuteSql ''a'' ''db'' ''SELECT'' (Some 10)) (Inr (Sql good_report)) \<in> set (cl_calls s)"
proof -
  obtain s out1 out2 where s: "(client_step demo_service demo_limiter)\<^sup>*\<^sup>* (new_clients (\<lambda>i. 0)) s"
    "cl_calls s = [Answered demo_call out1, Answered demo_call out2]" using demo_two_answers by blast
  then obtain r where "direct_answer demo_service (\<lambda>a d. demo_inspector) (tool_task demo_service demo_call) r"
    and "out1 = tool_outcome r"
    using reachable_clients_sound [OF demo_stable s(1)] by (auto simp: clients_sound_def)
  with demo_call_direct have "out1 = Inr (Sql good_report)" by fastforce
  with s show ?thesis unfolding demo_call_def by (intro exI [of _ s]) simp
qed

section \<open>Witnesses\<close>

text \<open>Both calls get the report.\<close>

theorem tool_calls_answer_directly_witness:
  "\<exists>s. (client_step demo_service demo_limiter)\<^sup>*\<^sup>* (new_clients (\<lambda>i. 0)) s \<and>
     cl_calls s = [Answered demo_call (Inr (Sql good_report)), Answered demo_call (Inr (Sql good_report))]"
proof -
  obtain s out1 out2 where s: "(client_step demo_service demo_limiter)\<^sup>*\<^sup>* (new_clients (\<lambda>i. 0)) s"
    "cl_calls s = [Answered demo_call out1, Answered demo_call out2]" using demo_two_answers by blast
  have "out = Inr (Sql good_report)" if call: "Answered demo_call out \<in> set (cl_calls s)" for out
  proof -
    obtain r where "direct_answer demo_service (\<lambda>a d. demo_inspector) (tool_task demo_service demo_call) r"
      and out: "out = tool_outcome r"
      using tool_calls_answer_directly [OF demo_stable s(1) call] by blast
    from this(1) have "r = Inr (Sql good_report)" by (rule demo_call_direct)
    with out show ?thesis by simp
  qed
  with s show ?thesis by auto
qed

theorem every_call_is_answered_witness:
  "\<exists>s. map call_tool (cl_calls s) = [demo_call, demo_call] \<and>
    \<not> (\<exists>\<sigma>. \<sigma> 0 = s \<and> (\<forall>i. serve_step demo_service demo_limiter (\<sigma> i) (\<sigma> (Suc i))))"
proof -
  obtain s where s: "(client_step demo_service demo_limiter)\<^sup>*\<^sup>* (new_clients (\<lambda>i. 0)) s"
    "map call_tool (cl_calls s) = [demo_call, demo_call]" using demo_two_calls by (elim exE conjE)
  have "0 < max_concurrent_db_operations (ac_runtime (sv_config demo_service))" by (simp add: demo_room)
  from conjunct1 [OF every_call_is_answered [OF demo_limits this s(1)]] s(2) show ?thesis by (intro exI conjI)
qed

end
