(* ===== verification/Connections.thy ===== *)
theory Connections
  imports Registry Run_Log
begin

text \<open>
  The event hooks that \<open>_create_engine\<close> of \<open>db/registry.py\<close> puts on an engine: the log of each
  connect, the driver's timeouts, and the SQL mode of a MySQL or MariaDB session.  The driver is a
  parameter; SQLAlchemy calls the hooks at the events they are named for, in the order they were
  registered, and an exception of one makes the connect fail.
\<close>

section \<open>The driver\<close>

text \<open>
  What the hooks call on a driver, whose session has the type \<open>'c\<close>; the row of \<open>fetchone\<close> is
  given by the texts \<open>str\<close> makes of its values.
\<close>

record 'c dbapi =
  da_connect :: "exc_info + 'c"
  da_has_timeout :: "'c \<Rightarrow> bool"
  da_set_timeout :: "int \<Rightarrow> ('c, exn, unit) stateful"
  da_cursor :: "('c, exn, unit) stateful"
  da_execute :: "string \<Rightarrow> string list \<Rightarrow> ('c, exn, unit) stateful"
  da_fetchone :: "('c, exn, string list option) stateful"
  da_close :: "('c, exn, unit) stateful"
  da_cursor_has_timeout :: "'c \<Rightarrow> bool"
  da_set_cursor_timeout :: "int \<Rightarrow> ('c, exn, unit) stateful"

section \<open>The hooks\<close>

subsection \<open>Connecting\<close>

definition connect_log :: "log_severity \<Rightarrow> string \<Rightarrow> string \<Rightarrow> string option \<Rightarrow> int \<Rightarrow> string \<Rightarrow> log_line" where
  "connect_log severity outcome alias database elapsed rest = \<lparr>lg_severity = severity,
     lg_text = ''connect '' @ outcome @ '' server='' @ alias @ '' database='' @ or_dash database
       @ '' elapsed_ms='' @ str_int elapsed @ rest\<rparr>"

text \<open>The outcome of the hook and its records; describing the failure may raise in its turn.\<close>

definition connect_and_log :: "(string \<times> string) list \<Rightarrow> string \<Rightarrow> string option \<Rightarrow> int \<Rightarrow> 'c dbapi
    \<Rightarrow> 'c result \<times> log_line list" where
  "connect_and_log secrets alias database elapsed dr = (case da_connect dr of
       Inl x \<Rightarrow> (case describe_error x secrets of
           Inl v \<Rightarrow> (Inl v, [])
         | Inr description \<Rightarrow> (Inl (OtherError x), [connect_log LogWarning ''failed'' alias database elapsed
             ('' error='' @ description)]))
     | Inr c \<Rightarrow> (Inr c, [connect_log LogInfo ''ok'' alias database elapsed []]))"

subsection \<open>A new session\<close>

definition set_connection_timeout :: "engine_options \<Rightarrow> 'c dbapi \<Rightarrow> ('c, exn, unit) stateful" where
  "set_connection_timeout opts dr c =
     (if da_has_timeout dr c then da_set_timeout dr (eo_timeout opts) c else (Inr (), c))"

text \<open>\<open>try: ... finally: ...\<close>; an exception of the second part replaces that of the first.\<close>

definition try_finally :: "('c, exn, 'a) stateful \<Rightarrow> ('c, exn, unit) stateful \<Rightarrow> ('c, exn, 'a) stateful" where
  "try_finally m final c = (case m c of (r, c1) \<Rightarrow>
     (case final c1 of (Inl e, c2) \<Rightarrow> (Inl e, c2) | (Inr _, c2) \<Rightarrow> (r, c2)))"

lemma try_finally_Inr_iff [result_simps]:
  "try_finally m final c = (Inr x, c') \<longleftrightarrow> (\<exists>c1. m c = (Inr x, c1) \<and> final c1 = (Inr (), c'))"
  by (auto simp: try_finally_def split: prod.splits sum.splits)

text \<open>\<open>row[0]\<close>.\<close>

definition first_value :: "string list option \<Rightarrow> string result" where
  "first_value row = (case row of
       None \<Rightarrow> Inl (TypeError ''NoneType object is not subscriptable'')
     | Some [] \<Rightarrow> Inl (OtherError \<lparr>ex_class = ''IndexError'', ex_args = [ArgStr ''tuple index out of range''],
         ex_text = ''tuple index out of range''\<rparr>)
     | Some (v # _) \<Rightarrow> Inr v)"

definition SELECT_MODE :: string where
  "SELECT_MODE = ''SELECT @@SESSION.sql_mode''"

definition SET_MODE :: string where
  "SET_MODE = ''SET SESSION sql_mode = %s''"

definition keep_backslash_escapes :: "'c dbapi \<Rightarrow> ('c, exn, unit) stateful" where
  "keep_backslash_escapes dr =
     sbind (da_cursor dr) (\<lambda>_.
     try_finally
       (sbind (da_execute dr SELECT_MODE []) (\<lambda>_.
        sbind (da_fetchone dr) (\<lambda>row.
        sbind (slift (first_value row)) (\<lambda>mode.
        da_execute dr SET_MODE [join '','' (kept_modes mode)]))))
       (da_close dr))"

text \<open>The \<open>connect\<close> listeners of an engine, in order.\<close>

definition prepare_session :: "engine_options \<Rightarrow> 'c dbapi \<Rightarrow> ('c, exn, unit) stateful" where
  "prepare_session opts dr =
     sbind (set_connection_timeout opts dr) (\<lambda>_.
     if eo_keep_backslash opts then keep_backslash_escapes dr else sreturn ())"

text \<open>A connect of the pool: the session it gets to hand out, and the records of the log.\<close>

definition open_session :: "engine_options \<Rightarrow> (string \<times> string) list \<Rightarrow> string \<Rightarrow> string option \<Rightarrow> int
    \<Rightarrow> 'c dbapi \<Rightarrow> 'c result \<times> log_line list" where
  "open_session opts secrets alias database elapsed dr =
     (case connect_and_log secrets alias database elapsed dr of
        (Inl e, lines) \<Rightarrow> (Inl e, lines)
      | (Inr c, lines) \<Rightarrow> (case prepare_session opts dr c of
            (Inl e, c') \<Rightarrow> (Inl e, lines)
          | (Inr _, c') \<Rightarrow> (Inr c', lines)))"

subsection \<open>A statement\<close>

definition set_statement_timeout :: "engine_options \<Rightarrow> 'c dbapi \<Rightarrow> ('c, exn, unit) stateful" where
  "set_statement_timeout opts dr c =
     (if da_cursor_has_timeout dr c then da_set_cursor_timeout dr (eo_timeout opts) c else (Inr (), c))"

section \<open>What a MySQL session is left in\<close>

text \<open>
  What the hooks rely on, as MySQL and its drivers document it, for the mode and the number of open
  cursors of a session: \<open>SET SESSION sql_mode\<close> leaves the session with \<open>NO_BACKSLASH_ESCAPES\<close> only
  if its argument names it, cursors are counted by opening and closing them, and nothing else
  changes either.
\<close>

definition has_mode :: "string \<Rightarrow> string \<Rightarrow> bool" where
  "has_mode m mode \<longleftrightarrow> m \<in> set (split_on (CHR '','') mode)"

definition mysql_driver :: "'c dbapi \<Rightarrow> ('c \<Rightarrow> string) \<Rightarrow> ('c \<Rightarrow> nat) \<Rightarrow> bool" where
  "mysql_driver dr mode_of cursors \<longleftrightarrow>
     (\<forall>m c c'. da_execute dr SET_MODE [m] c = (Inr (), c') \<longrightarrow> has_mode NO_BACKSLASH (mode_of c') \<longrightarrow> has_mode NO_BACKSLASH m) \<and>
     (\<forall>c. mode_of (snd (da_close dr c)) = mode_of c) \<and>
     (\<forall>sql ps c. cursors (snd (da_execute dr sql ps c)) = cursors c) \<and>
     (\<forall>c. cursors (snd (da_fetchone dr c)) = cursors c) \<and>
     (\<forall>t c. cursors (snd (da_set_timeout dr t c)) = cursors c) \<and>
     (\<forall>c. cursors (snd (da_cursor dr c)) = (case fst (da_cursor dr c) of Inl _ \<Rightarrow> cursors c | Inr _ \<Rightarrow> Suc (cursors c))) \<and>
     (\<forall>c. cursors (snd (da_close dr c)) = cursors c - 1)"

lemma kept_modes_not_no_backslash: "\<not> has_mode NO_BACKSLASH (join '','' (kept_modes mode))"
proof -
  have split: "split_on (CHR '','') (join '','' (kept_modes mode)) = (if kept_modes mode = [] then [[]] else kept_modes mode)"
  proof (cases "kept_modes mode = []")
    case False
    have "CHR '','' \<notin> set x" if "x \<in> set (kept_modes mode)" for x
      using that split_on_pieces by (auto simp: kept_modes_def)
    with split_on_join [OF False this] False show ?thesis by simp
  qed simp
  show ?thesis unfolding has_mode_def split by (auto simp: kept_modes_def NO_BACKSLASH_def)
qed

text \<open>The hook that ends without an exception has set the mode and closed its cursor.\<close>

lemma keep_backslash_escapes_Inr:
  assumes "keep_backslash_escapes dr c = (Inr (), c')"
  obtains mode c1 c2 where "da_execute dr SET_MODE [join '','' (kept_modes mode)] c1 = (Inr (), c2)"
    and "da_close dr c2 = (Inr (), c')"
  using assms unfolding keep_backslash_escapes_def sbind_eq_Inr_iff try_finally_Inr_iff by blast

lemma snd_sbind_cursors:
  assumes "\<And>c. cursors (snd (m c)) = cursors c" and "\<And>x c. cursors (snd (f x c)) = cursors c"
  shows "cursors (snd (sbind m f c)) = cursors c"
proof (cases "m c")
  case (Pair r c1)
  with assms(1) [of c] assms(2) show ?thesis by (cases r) (simp_all add: sbind_def)
qed

lemma keep_backslash_escapes_cursors:
  assumes "mysql_driver dr mode_of cursors"
  shows "cursors (snd (keep_backslash_escapes dr c)) = cursors c"
proof -
  let ?body = "sbind (da_execute dr SELECT_MODE []) (\<lambda>_. sbind (da_fetchone dr) (\<lambda>row.
    sbind (slift (first_value row)) (\<lambda>mode. da_execute dr SET_MODE [join '','' (kept_modes mode)])))"
  have body: "cursors (snd (?body c)) = cursors c" for c
    using assms by (intro snd_sbind_cursors) (simp_all add: mysql_driver_def slift_def)
  have "cursors (snd (try_finally ?body (da_close dr) c1)) = cursors c1 - 1" for c1
  proof -
    have "cursors (snd (try_finally ?body (da_close dr) c1)) = cursors (snd (da_close dr (snd (?body c1))))"
      by (simp add: try_finally_def split: prod.split sum.split)
    with assms body show ?thesis by (simp add: mysql_driver_def)
  qed
  moreover have "cursors (snd (da_cursor dr c)) =
      (case fst (da_cursor dr c) of Inl _ \<Rightarrow> cursors c | Inr _ \<Rightarrow> Suc (cursors c))"
    using assms by (simp add: mysql_driver_def)
  ultimately show ?thesis
    unfolding keep_backslash_escapes_def by (cases "da_cursor dr c") (auto simp: sbind_def split: sum.splits)
qed

lemma open_session_Inr:
  assumes "open_session opts secrets alias database elapsed dr = (Inr c, lines)"
  obtains c0 where "da_connect dr = Inr c0" and "prepare_session opts dr c0 = (Inr (), c)"
    and "lines = [connect_log LogInfo ''ok'' alias database elapsed []]"
  using assms by (auto simp: open_session_def connect_and_log_def split: sum.splits prod.splits)

lemma prepare_session_cursors:
  assumes "mysql_driver dr mode_of cursors"
  shows "cursors (snd (prepare_session opts dr c)) = cursors c"
proof -
  have "cursors (snd (set_connection_timeout opts dr c)) = cursors c" for c
    using assms by (simp add: set_connection_timeout_def mysql_driver_def)
  then show ?thesis
    unfolding prepare_session_def
    by (intro snd_sbind_cursors) (simp_all add: keep_backslash_escapes_cursors [OF assms] sreturn_def)
qed

text \<open>
  C29. No MySQL or MariaDB session is handed out in which a backslash is no escape: whatever mode the
  server gave it, and whatever the driver answered, a session that a connect of such a server's
  engine returns does not have \<open>NO_BACKSLASH_ESCAPES\<close>; the hooks leave no cursor open, whether
  they fail or not.
\<close>

theorem sessions_keep_escapes:
  assumes "map_of (ac_servers cfg) a = Some server" and "is_mysql (sc_engine server)"
    and "engine_options_for cfg a d = Inr opts" and "mysql_driver dr mode_of cursors"
    and "open_session opts secrets a d elapsed dr = (Inr c, lines)"
  shows "\<not> has_mode NO_BACKSLASH (mode_of c) \<and> lines = [connect_log LogInfo ''ok'' a d elapsed []] \<and>
    (\<forall>c'. cursors (snd (prepare_session opts dr c')) = cursors c')"
proof -
  have keep: "eo_keep_backslash opts"
    using assms(3) unfolding engine_options_for_def assms(1) Let_def by (auto simp: assms(2))
  from assms(5) obtain c0 where prep: "prepare_session opts dr c0 = (Inr (), c)"
    and lines: "lines = [connect_log LogInfo ''ok'' a d elapsed []]" by (rule open_session_Inr)
  from prep keep obtain c1 where "keep_backslash_escapes dr c1 = (Inr (), c)"
    by (auto simp: prepare_session_def result_simps)
  then obtain mode c2 c3 where set: "da_execute dr SET_MODE [join '','' (kept_modes mode)] c2 = (Inr (), c3)"
    and close: "da_close dr c3 = (Inr (), c)" by (rule keep_backslash_escapes_Inr)
  have "mode_of c = mode_of c3"
    using assms(4) close by (metis mysql_driver_def snd_conv)
  moreover have "\<not> has_mode NO_BACKSLASH (mode_of c3)"
    using assms(4) set kept_modes_not_no_backslash unfolding mysql_driver_def by blast
  ultimately show ?thesis using lines prepare_session_cursors [OF assms(4)] by simp
qed

text \<open>A driver whose session is its mode and the number of its open cursors, and which counts them.\<close>

definition small_driver :: "string \<Rightarrow> (string \<times> nat) dbapi" where
  "small_driver mode = \<lparr>da_connect = Inr (mode, 0), da_has_timeout = (\<lambda>c. False),
     da_set_timeout = (\<lambda>t. sreturn ()), da_cursor = (\<lambda>(m, n). (Inr (), m, Suc n)),
     da_execute = (\<lambda>sql ps (m, n). (Inr (), if sql = SET_MODE then hd ps else m, n)),
     da_fetchone = (\<lambda>(m, n). (Inr (Some [m]), m, n)), da_close = (\<lambda>(m, n). (Inr (), m, n - 1)),
     da_cursor_has_timeout = (\<lambda>c. False), da_set_cursor_timeout = (\<lambda>t. sreturn ())\<rparr>"

theorem sessions_keep_escapes_witness:
  "open_session one_mysql_options [] ''a'' (Some ''d'') 3 (small_driver ''ANSI,NO_BACKSLASH_ESCAPES'') =
     (Inr (''ANSI'', 0), [connect_log LogInfo ''ok'' ''a'' (Some ''d'') 3 []]) \<and>
   \<not> has_mode NO_BACKSLASH ''ANSI''"
proof -
  have open_it: "open_session one_mysql_options [] ''a'' (Some ''d'') 3 (small_driver ''ANSI,NO_BACKSLASH_ESCAPES'') =
     (Inr (''ANSI'', 0), [connect_log LogInfo ''ok'' ''a'' (Some ''d'') 3 []])"
  proof -
    have "eo_keep_backslash one_mysql_options" by code_simp
    moreover have "kept_modes ''ANSI,NO_BACKSLASH_ESCAPES'' = [''ANSI'']"
      using split_on_append [of "CHR '',''" "''ANSI''" "NO_BACKSLASH"] split_on_no_sep [of "CHR '',''" NO_BACKSLASH]
      by (simp add: kept_modes_def NO_BACKSLASH_def del: split_on.simps)
    ultimately show ?thesis
      by (simp add: open_session_def connect_and_log_def small_driver_def prepare_session_def
          set_connection_timeout_def keep_backslash_escapes_def try_finally_def sbind_def slift_def first_value_def
          SELECT_MODE_def SET_MODE_def)
  qed
  have "mysql_driver (small_driver ''ANSI,NO_BACKSLASH_ESCAPES'') fst snd"
    by (auto simp: mysql_driver_def small_driver_def sreturn_def)
  moreover have "engine_options_for one_mysql ''a'' (Some ''d'') = Inr one_mysql_options" by code_simp
  moreover have "map_of (ac_servers one_mysql) ''a'' = Some (snd (hd (ac_servers one_mysql)))"
    "is_mysql (sc_engine (snd (hd (ac_servers one_mysql))))" by code_simp+
  ultimately have "\<not> has_mode NO_BACKSLASH (fst (''ANSI'', 0 :: nat))"
    using sessions_keep_escapes [OF _ _ _ _ open_it] by blast
  with open_it show ?thesis by simp
qed

end
