(* ===== verification/Sealed.thy ===== *)
theory Sealed
  imports Validated_Query
begin

text \<open>
  The guards of the objects that hold SQL, bind values and keys: the constructor, the attribute and
  copy protocol and the \<open>repr\<close> of \<open>ValidatedQuery\<close> (\<open>security/validated_query.py\<close>), and the
  \<open>repr\<close> of \<open>TokenCodec\<close> and \<open>TokenKeyRegistry\<close> (\<open>security/tokens.py\<close>).
\<close>

section \<open>The constructor of a validated query\<close>

text \<open>
  The module's own object \<open>_SEAL\<close>, or any other object.
\<close>

datatype seal = Seal | OtherObject

definition new_validated_query :: "seal \<Rightarrow> validated_query \<Rightarrow> validated_query result" where
  "new_validated_query s parts = rbind
     (raise_if (s \<noteq> Seal) (TypeError ''ValidatedQuery can only be issued by the validation pipeline''))
     (\<lambda>_. Inr parts)"

section \<open>What can be done with a validated query\<close>

text \<open>
  The attribute and copy protocol the class answers itself, and its properties; \<open>ast\<close> is a copy
  of the tree.
\<close>

datatype 'v object_op =
    SetAttr string 'v
  | DelAttr string
  | CopyObject
  | DeepCopy
  | Reduce
  | Repr
  | GetAlias
  | GetDatabase
  | GetSql
  | GetParameters
  | GetOutputs
  | GetMaxRows
  | GetAst

datatype object_answer =
    TextAnswer string
  | ParametersAnswer "pyval list"
  | OutputsAnswer "output_plan list"
  | RowsAnswer int
  | AstAnswer node

definition read_only_error :: exn where
  "read_only_error = OtherError \<lparr>ex_class = ''AttributeError'', ex_args = [ArgStr ''ValidatedQuery is read-only''],
     ex_text = ''ValidatedQuery is read-only''\<rparr>"

definition not_copied_error :: exn where
  "not_copied_error = TypeError ''ValidatedQuery cannot be copied''"

definition not_serialized_error :: exn where
  "not_serialized_error = TypeError ''ValidatedQuery cannot be serialized''"

definition vq_repr :: "validated_query \<Rightarrow> string" where
  "vq_repr q = ''ValidatedQuery(alias='' @ py_repr (vq_alias q) @ '', database='' @ py_repr (vq_database q)
     @ '', outputs='' @ str_nat (length (vq_outputs q)) @ '', parameters='' @ str_nat (length (vq_parameters q)) @ '')''"

fun vq_answer :: "'v object_op \<Rightarrow> validated_query \<Rightarrow> object_answer result" where
  "vq_answer (SetAttr name v) q = Inl read_only_error"
| "vq_answer (DelAttr name) q = Inl read_only_error"
| "vq_answer CopyObject q = Inl not_copied_error"
| "vq_answer DeepCopy q = Inl not_copied_error"
| "vq_answer Reduce q = Inl not_serialized_error"
| "vq_answer Repr q = Inr (TextAnswer (vq_repr q))"
| "vq_answer GetAlias q = Inr (TextAnswer (vq_alias q))"
| "vq_answer GetDatabase q = Inr (TextAnswer (vq_database q))"
| "vq_answer GetSql q = Inr (TextAnswer (vq_sql q))"
| "vq_answer GetParameters q = Inr (ParametersAnswer (vq_parameters q))"
| "vq_answer GetOutputs q = Inr (OutputsAnswer (vq_outputs q))"
| "vq_answer GetMaxRows q = Inr (RowsAnswer (vq_max_rows q))"
| "vq_answer GetAst q = Inr (AstAnswer (vq_ast q))"

section \<open>Codecs\<close>

definition codec_repr :: "token_codec \<Rightarrow> string" where
  "codec_repr c = ''TokenCodec(alias='' @ py_repr (tc_alias c) @ '')''"

text \<open>\<open>repr\<close> of a list of texts.\<close>

definition repr_texts :: "string list \<Rightarrow> string" where
  "repr_texts ts = ''['' @ join '', '' (map py_repr ts) @ '']''"

definition codecs_repr :: "key_registry \<Rightarrow> string" where
  "codecs_repr r = ''TokenKeyRegistry(aliases='' @ repr_texts (sort (map fst r)) @ '')''"

section \<open>What the texts depend on\<close>

text \<open>Only the holder of the seal makes one.\<close>

lemma new_validated_query_Inr: "new_validated_query s parts = Inr q \<longleftrightarrow> s = Seal \<and> q = parts"
  by (cases s) (auto simp: new_validated_query_def raise_if_def)

text \<open>
  Two queries that differ in their SQL, their bind values and their tree only have the same
  \<open>repr\<close>, and so have codecs with other keys.
\<close>

lemma vq_repr_hides:
  "length params = length (vq_parameters q) \<Longrightarrow>
     vq_repr (q\<lparr>vq_sql := sql, vq_ast := ast, vq_parameters := params, vq_max_rows := m\<rparr>) = vq_repr q"
  by (simp add: vq_repr_def)

lemma codec_repr_hides: "codec_repr (c\<lparr>tc_key := k\<rparr>) = codec_repr c"
  by (simp add: codec_repr_def)

lemma codecs_repr_hides: "codecs_repr (map (\<lambda>(a, c). (a, c\<lparr>tc_key := f a\<rparr>)) r) = codecs_repr r"
  by (simp add: codecs_repr_def case_prod_beta comp_def)

end
