(* ===== verification/Logging.thy ===== *)
theory Logging
  imports Connections
begin

text \<open>
  The debug records of \<open>EngineRegistry.get\<close> (\<open>db/registry.py\<close>) and \<open>configure_logging\<close>
  (\<open>diagnostics.py\<close>), which \<open>create_server\<close> (\<open>mcp_server.py\<close>) calls with the configured level.
\<close>

section \<open>The registry's records\<close>

definition created_log :: "string \<Rightarrow> engine \<Rightarrow> string option \<Rightarrow> log_line" where
  "created_log alias e database = \<lparr>lg_severity = LogDebug,
     lg_text = ''engine created server='' @ alias @ '' engine='' @ engine_text e @ '' database='' @ or_dash database\<rparr>"

definition evicted_log :: "engine_key \<Rightarrow> log_line" where
  "evicted_log key = \<lparr>lg_severity = LogDebug,
     lg_text = ''engine evicted server='' @ fst key @ '' database='' @ or_dash (snd key)\<rparr>"

text \<open>What \<open>get\<close> logs: a new engine, and the engine that is evicted for it.\<close>

definition registry_get_log :: "app_config \<Rightarrow> (engine_options \<Rightarrow> unit result) \<Rightarrow> string \<Rightarrow> string option
    \<Rightarrow> engine_registry \<Rightarrow> log_line list" where
  "registry_get_log cfg create alias database s = (case map_of (ac_servers cfg) alias of
       None \<Rightarrow> []
     | Some server \<Rightarrow>
         (if map_of (rg_engines s) (alias, database) \<noteq> None then []
          else (case create_engine_for cfg create alias database (rg_created s) of
              Inl x \<Rightarrow> []
            | Inr e \<Rightarrow>
                let es = AList.update (alias, database) e (rg_engines s) in
                created_log alias (sc_engine server) database #
                (if int (length es) > engine_cache_size (ac_runtime cfg) then [evicted_log (fst (hd es))] else []))))"

text \<open>The records tell what the call did: one line per engine made and one per engine disposed of.\<close>

lemma registry_get_log_counts:
  "length (registry_get_log cfg create a d s) =
    (rg_created (snd (registry_get cfg create a d s)) - rg_created s) +
    (length (rg_disposed (snd (registry_get cfg create a d s))) - length (rg_disposed s))"
proof (cases "map_of (ac_servers cfg) a")
  case None
  then show ?thesis by (simp add: registry_get_log_def registry_get_def)
next
  case server: (Some server)
  show ?thesis
  proof (cases "map_of (rg_engines s) (a, d)")
    case (Some e)
    with server show ?thesis by (simp add: registry_get_log_def registry_get_def)
  next
    case None
    show ?thesis
    proof (cases "create_engine_for cfg create a d (rg_created s)")
      case (Inl x)
      with server None show ?thesis by (simp add: registry_get_log_def registry_get_def)
    next
      case (Inr e)
      then show ?thesis
        using server None
        by (cases "AList.update (a, d) e (rg_engines s)")
          (simp_all add: registry_get_log_def registry_get_def Let_def evict_engine_def)
    qed
  qed
qed

section \<open>Levels of loggers\<close>

text \<open>The order of the levels of \<open>logging\<close>.\<close>

fun level_rank :: "log_level \<Rightarrow> nat" where
  "level_rank DEBUG = 10"
| "level_rank INFO = 20"
| "level_rank WARNING = 30"
| "level_rank ERROR = 40"

text \<open>The levels set on loggers by name; a logger without one has that of its nearest parent, or the root's.\<close>

type_synonym logger_levels = "string \<rightharpoonup> log_level"

definition configure_logging :: "log_level \<Rightarrow> logger_levels \<Rightarrow> logger_levels" where
  "configure_logging level levels = levels(''sql_safe_mcp'' \<mapsto> level, ''sqlalchemy'' \<mapsto> WARNING)"

definition create_server_logging :: "app_config \<Rightarrow> logger_levels \<Rightarrow> logger_levels" where
  "create_server_logging cfg = configure_logging (ac_logging cfg)"

text \<open>A logger is the list of the parts of its name.\<close>

fun logger_name :: "string list \<Rightarrow> string" where
  "logger_name ps = join ''.'' ps"

function effective_level :: "logger_levels \<Rightarrow> log_level \<Rightarrow> string list \<Rightarrow> log_level" where
  "effective_level levels root parts = (if parts = [] then root
     else (case levels (logger_name parts) of
         Some level \<Rightarrow> level
       | None \<Rightarrow> effective_level levels root (butlast parts)))"
  by pat_completeness auto
termination
  by (relation "measure (\<lambda>(levels, root, parts). length parts)") auto

declare effective_level.simps [simp del]

definition emits :: "logger_levels \<Rightarrow> log_level \<Rightarrow> string list \<Rightarrow> log_level \<Rightarrow> bool" where
  "emits levels root parts severity \<longleftrightarrow> level_rank (effective_level levels root parts) \<le> level_rank severity"

text \<open>
  With the levels of \<open>create_server\<close>, SQLAlchemy's loggers emit neither debug nor info records, which
  would hold statements with their bind values, whatever the level of the program and of the root;
  provided nothing set a level on a logger below \<open>sqlalchemy\<close>.
\<close>

lemma sqlalchemy_effective_level:
  assumes "\<And>ps. ps \<noteq> [] \<Longrightarrow> levels (logger_name (''sqlalchemy'' # ps)) = None"
  shows "effective_level (configure_logging level levels) root (''sqlalchemy'' # ps) = WARNING"
proof (induction ps rule: rev_induct)
  case Nil
  show ?case by (subst effective_level.simps) (simp add: configure_logging_def)
next
  case (snoc p ps)
  obtain rest where "logger_name (''sqlalchemy'' # ps @ [p]) = ''sqlalchemy'' @ ''.'' @ rest"
    by (cases "ps @ [p]") auto
  then have "logger_name (''sqlalchemy'' # ps @ [p]) \<notin> {''sqlalchemy'', ''sql_safe_mcp''}" by auto
  then have "configure_logging level levels (logger_name (''sqlalchemy'' # ps @ [p])) = None"
    using assms [of "ps @ [p]"] by (simp add: configure_logging_def del: logger_name.simps)
  with snoc show ?case
    by (subst effective_level.simps) (simp add: butlast_append del: logger_name.simps)
qed

theorem statements_are_not_logged:
  assumes "\<And>ps. ps \<noteq> [] \<Longrightarrow> levels (logger_name (''sqlalchemy'' # ps)) = None" and "severity \<in> {DEBUG, INFO}"
  shows "\<not> emits (create_server_logging cfg levels) root (''sqlalchemy'' # ps) severity"
  using assms(2) sqlalchemy_effective_level [of levels, OF assms(1)] by (auto simp: emits_def create_server_logging_def)

end
