(* ===== verification/Spec2Isabelle.thy ===== *)
theory Spec2Isabelle
  imports Grammar Service_Examples Config_Load Diagnostics Entry Client_Examples Connections Sealed Logging
begin

text \<open>
  A verification of \<open>sql-safe-mcp\<close>: an MCP server that gives coding agents read-only access to
  SQL Server, MySQL and MariaDB, with the columns that configured rules protect leaving it only as
  encrypted tokens.  Paths below are relative to \<open>src/sql_safe_mcp\<close> of the repository.

  The program.  \<open>mcp_server.py\<close> registers seven tools over a \<open>DatabaseService\<close>
  (\<open>service.py\<close>), which gets an engine from the \<open>EngineRegistry\<close> (\<open>db/registry.py\<close>) and reads
  metadata through \<open>db/reflection.py\<close> and the engine-specific \<open>db/mysql.py\<close> and
  \<open>db/sqlserver.py\<close>.  \<open>execute_sql\<close> runs the pipeline of \<open>security/pipeline.py\<close>: parse and
  allowlist, resolve the tables against a cached reflection, trace every column to its source, let
  the policy decide, replace tokens by bind parameters; the executor then runs the issued text and
  seals the protected cells.

  The theories, in the order of the code's layers:

  \<^item> \<open>Prelude\<close> (results as sums, stateful code, loops), \<open>Pystr\<close> (Python's strings),
    \<open>Errors\<close> (\<open>errors.py\<close>, \<open>security/reasons.py\<close>), \<open>Base64\<close>, \<open>Pyval\<close>, \<open>Json\<close>
    (the standard library's texts of values), \<open>Numerals\<close> (\<open>int\<close> of a text and \<open>str\<close> of an integer, with
    the 4300 digits above which they raise).
  \<^item> \<open>Config\<close> and \<open>Config_Load\<close> (\<open>config.py\<close>): the models with their validators; placeholders,
    shared rule sets and \<open>load_config\<close>.
  \<^item> \<open>Ast\<close> and \<open>Traversal\<close>: SQLGlot's tree and the library functions the program calls.
    \<open>Parser\<close> (\<open>security/dialect.py\<close>, \<open>security/parser.py\<close>), and \<open>Grammar\<close>: the fragment of SQL that its
    allowlist admits, as a recogniser of its own.
  \<^item> \<open>Lru\<close>, \<open>Reflection\<close> (\<open>models.py\<close>, \<open>db/reflection.py\<close>) and \<open>Schema\<close>
    (\<open>security/schema.py\<close>): the recency store, the reflected catalog behind the schema cache, and
    the resolution of tables.
  \<^item> \<open>Lineage\<close> with \<open>Lineage_Facts\<close> (\<open>security/lineage.py\<close>), \<open>Tokens\<close>
    (\<open>security/tokens.py\<close>), \<open>Policy\<close> (\<open>security/policy.py\<close>), \<open>Validated_Query\<close> with
    \<open>Bind_Facts\<close> (\<open>security/validated_query.py\<close>), \<open>Sealed\<close> (the guards and the \<open>repr\<close> of the
    objects that hold SQL, values and keys), \<open>Executor\<close>
    (\<open>security/executor.py\<close>), \<open>Pipeline\<close> (\<open>security/pipeline.py\<close>).
  \<^item> \<open>Registry\<close> and \<open>Connections\<close> (\<open>db/registry.py\<close>: the store of engines, and the hooks of an
    engine on its sessions) with \<open>Logging\<close> (its debug records and the levels of the loggers), \<open>Extras\<close> (\<open>db/extras.py\<close>, \<open>db/mysql.py\<close>,
    \<open>db/sqlserver.py\<close>), \<open>Diagnostics\<close> (\<open>diagnostics.py\<close>), \<open>Driver_Errors\<close> and
    \<open>Run_Log\<close> (the error handling and the log records of \<open>service.py\<close>), \<open>Service\<close>
    (\<open>service.py\<close>), \<open>Tools\<close> (\<open>mcp_server.py\<close>), \<open>Sessions\<close> (many calls, one after the other), \<open>Entry\<close>
    (\<open>__main__.py\<close> and the repository's \<open>tools/check_precommit_snapshot.py\<close>).
  \<^item> \<open>Programs\<close> (\<open>execute_sql\<close> as what a thread still has to do between two takings of the
    cache's lock) and \<open>Concurrency\<close> (\<open>EngineRegistry.run\<close> and \<open>DatabaseService._run\<close> as the
    event loop, the limiter and the worker threads run them): runs at once.  \<open>Clients\<close> has the
    tools as coroutines over such runs: calls at once.
  \<^item> \<open>Examples\<close>, \<open>Service_Examples\<close>, \<open>Concurrency_Examples\<close> and \<open>Client_Examples\<close>: concrete runs evaluated in the kernel; they witness the
    properties.  This theory has the properties that span components.

  How the code is represented.  A function that may raise returns \<open>exn + 'a\<close>; every raise, early
  return and handler is a branch.  A method that changes an object takes and returns its state: the
  registry, the schema cache and the service each have a record with the fields of the class, and
  the service's state also counts the connections, ids and nonces drawn and holds the log.  Nodes of
  a tree that the code mutates or compares by identity are positions (paths) in it.  A dictionary
  whose order matters is an association list.  A loop is a fold or a recursion on its input; the
  scanners of text have a measure.  Only the scanner of JSON has fuel, twice the length of the text
  and two; lemma \<open>loads_dumps_flat\<close> of \<open>Json\<close> shows that it is enough for every payload of a
  token, and a text that used it up would be turned down as one that is no JSON.

  What the lemmas show.  \<open>Prelude\<close> and the \<open>_Facts\<close> theories say what a successful run of
  each stage means (the lemmas named \<open>_Inr\<close>); \<open>Pipeline\<close> composes them.  The locales state
  contracts between components: \<open>lru_store\<close> (interpreted by the schema cache and the engine
  registry), \<open>table_catalog\<close> (what table resolution and validation need of a catalog, provided by
  the reflected catalog over any coherent cache) and \<open>extras_contract\<close> (both engines'
  statements).  \<open>Tools\<close> lifts an invariant of one run to every sequence of calls, and
  \<open>Sessions\<close> uses it to show that the cache does not change any answer.  \<open>Programs\<close> shows that
  the programs of the threads, uninterrupted, are the operations of \<open>Service\<close>; \<open>Concurrency\<close> has
  the steps of a server as inductive relations, the invariant of its reachable states, the bound of
  the limiter, and the well-founded order by which every schedule ends.  \<open>Clients\<close> shows that the
  coroutines, one after the other, are the tools of \<open>Tools\<close>, that the server below them is the one
  of \<open>Concurrency\<close>, and lifts its invariant and its order to whole calls.

  Parameters, each with the documented behaviour that is relied on as a named hypothesis where one
  is: SQLGlot's parser, generator, traversal (\<open>walk_ok\<close>: every node once) and qualification;
  AES-GCM (\<open>aead_ok\<close>, and \<open>aead_separates\<close>: among the keys and associated data in use, what was
  sealed under one pair does not open under another); anyio's capacity limiter (\<open>limits\<close>);
  argparse; the database drivers (\<open>mysql_driver\<close>); SQLAlchemy's \<open>create_engine\<close>, \<open>make_url\<close>, Inspector and the
  connections with their cursors; pydantic's conversion of a mapping; reading YAML; the operating
  system's random bytes, fresh ids and clocks.  Each is instantiated by a concrete function in the
  witnesses.

  Bounds.  Strings are lists of 8-bit characters: code points from 256 on are outside the model,
  which matters for case folding and for the word characters of the redaction.  Integers are
  unbounded as in Python, with its limit of 4300 digits on \<open>int\<close> of a text and \<open>str\<close> of an integer
  wherever a value from outside can reach it.  The class name, the arguments and the text of a driver's
  exception are data of the model.  Floats are their finite texts, infinities and NaN.

  Not modelled: the protocol library that delivers the calls, how argparse recognises options among
  words (abbreviations, the help text, the texts of its errors), the tool descriptions and package
  markers; cancelling a call, and what Python lets a caller do past the guards of a class.  A locked
  store takes one step for each taking of its lock; reading the database between two of them is no
  step, since the threads share nothing there.
\<close>

section \<open>Protected columns\<close>

text \<open>A cell that holds no database value in the clear.\<close>

definition sealed_cell :: "aead \<Rightarrow> token_codec \<Rightarrow> (nat \<Rightarrow> bytes) \<Rightarrow> pyval \<Rightarrow> bool" where
  "sealed_cell al codec nonces cell \<longleftrightarrow> cell = PyNone \<or>
     (\<exists>k v tok. encrypt al codec (nonces k) v = Inr (Some tok) \<and> cell = PyStr tok)"

lemma cell_from_protected:
  "cell_from al codec nonces plan e v cell \<Longrightarrow> op_protected plan \<Longrightarrow> sealed_cell al codec nonces cell"
  by (auto simp: cell_from_def sealed_cell_def split: if_splits)

lemma result_rows:
  assumes "execute_validated al nonces conn vq codec = (Inr res, closed)"
  obtains encs where "\<And>row. row \<in> set (er_rows res) \<Longrightarrow>
    \<exists>raw. row_from al codec nonces (vq_outputs vq) encs raw row"
proof -
  from assms obtain cur where "read_result al codec nonces vq cur = Inr res"
    by (rule execute_validated_Inr)
  then obtain fetched encs where rows: "list_all2 (row_from al codec nonces (vq_outputs vq) encs)
      (take (nat (vq_max_rows vq)) fetched) (er_rows res)"
    by (rule read_result_Inr)
  have "\<exists>raw. row_from al codec nonces (vq_outputs vq) encs raw row" if "row \<in> set (er_rows res)" for row
    using that list_all2_nthD2 [OF rows] by (metis in_set_conv_nth)
  with that show thesis by blast
qed

text \<open>What validation and execution together say of every output.\<close>

lemma executed_outputs:
  assumes "walk_ok (sg_walk lib)"
    and "validate_sql lib al nonce tables columns sql alias database pii codec runtime m d s = (Inr vq, s')"
    and "execute_validated al nonces conn vq codec' = (Inr res, closed)"
  obtains q q' ts bs where "parse_select lib sql (limits_from_runtime runtime) d = Inr q"
    "resolve_tables (sg_walk lib) tables columns d q s = (Inr (q', ts), s')" "collect q' ts = Inr bs"
    "outputs_marked bs (make_policy database pii codec) (vq_ast vq) (vq_outputs vq)"
    "\<And>i row. i < length (vq_outputs vq) \<Longrightarrow> op_protected (vq_outputs vq ! i) \<Longrightarrow> row \<in> set (er_rows res) \<Longrightarrow>
      sealed_cell al codec' nonces (row ! i)"
proof -
  from assms(1,2) obtain q q' ts bs where q: "parse_select lib sql (limits_from_runtime runtime) d = Inr q"
    "resolve_tables (sg_walk lib) tables columns d q s = (Inr (q', ts), s')" "collect q' ts = Inr bs"
    and marked: "outputs_marked bs (make_policy database pii codec) (vq_ast vq) (vq_outputs vq)"
    by (rule validate_sql_ok)
  from assms(3) obtain encs where rows: "\<And>row. row \<in> set (er_rows res) \<Longrightarrow>
      \<exists>raw. row_from al codec' nonces (vq_outputs vq) encs raw row" by (rule result_rows) blast
  have "sealed_cell al codec' nonces (row ! i)"
    if "i < length (vq_outputs vq)" "op_protected (vq_outputs vq ! i)" "row \<in> set (er_rows res)" for i row
    using rows [OF that(3)] that(1,2) cell_from_protected by (auto simp: row_from_def)
  with that [OF q marked] show thesis by blast
qed

text \<open>
  C2. A protected column leaves the server only as null or as a token.  For the query that
  \<open>validate_sql\<close> issues and any result \<open>execute_validated\<close> returns for it: an output whose
  projected value is a column denotes one reflected source of the query's tables, the output
  carries that source, and where the rules protect it every cell of the output is null or a
  token made by the codec's \<open>encrypt\<close>.
\<close>

theorem protected_cells_sealed:
  assumes "walk_ok (sg_walk lib)"
    and "validate_sql lib al nonce tables columns sql alias database pii codec runtime m d s = (Inr vq, s')"
    and "execute_validated al nonces conn vq codec' = (Inr res, closed)"
  shows "\<exists>q q' ts bs. parse_select lib sql (limits_from_runtime runtime) d = Inr q \<and>
    resolve_tables (sg_walk lib) tables columns d q s = (Inr (q', ts), s') \<and> collect q' ts = Inr bs \<and>
    (\<forall>i < length (vq_outputs vq). kind_at (vq_ast vq) (value_at (vq_ast vq) i) = Some KColumn \<longrightarrow>
      (\<exists>n src. sub (vq_ast vq) (value_at (vq_ast vq) i) = Some n \<and> denotes bs n src \<and>
        op_source (vq_outputs vq ! i) = Some src \<and>
        (is_protected (make_policy database pii codec) src \<longrightarrow>
          (\<forall>row \<in> set (er_rows res). sealed_cell al codec' nonces (row ! i)))))"
proof -
  obtain q q' ts bs where q: "parse_select lib sql (limits_from_runtime runtime) d = Inr q"
    "resolve_tables (sg_walk lib) tables columns d q s = (Inr (q', ts), s')" "collect q' ts = Inr bs"
    and marked: "outputs_marked bs (make_policy database pii codec) (vq_ast vq) (vq_outputs vq)"
    and cells: "\<And>i row. i < length (vq_outputs vq) \<Longrightarrow> op_protected (vq_outputs vq ! i) \<Longrightarrow> row \<in> set (er_rows res) \<Longrightarrow>
      sealed_cell al codec' nonces (row ! i)"
    by (rule executed_outputs [OF assms]) blast
  show ?thesis
    using q marked cells unfolding outputs_marked_def output_marked_def
    by (intro exI [of _ q] exI [of _ q'] exI [of _ ts] exI [of _ bs]) fastforce
qed

theorem protected_cells_sealed_witness:
  "\<exists>q q' ts bs. parse_select (demo_lib good_parsed) ''SELECT'' demo_limits SQLSERVER = Inr q \<and>
    resolve_tables bfs_walk demo_tables demo_columns SQLSERVER q () = (Inr (q', ts), ()) \<and>
    collect q' ts = Inr bs \<and>
    (\<forall>i < length (vq_outputs good_query). kind_at (vq_ast good_query) (value_at (vq_ast good_query) i) = Some KColumn \<longrightarrow>
      (\<exists>n src. sub (vq_ast good_query) (value_at (vq_ast good_query) i) = Some n \<and> denotes bs n src \<and>
        op_source (vq_outputs good_query ! i) = Some src \<and>
        (is_protected demo_policy src \<longrightarrow>
          (\<forall>row \<in> set (er_rows good_result). sealed_cell plain_aead demo_codec (\<lambda>k. demo_nonce) (row ! i)))))"
  using protected_cells_sealed [OF walk_ok_demo good_validate [unfolded demo_validate_def] good_execute]
  by simp

text \<open>
  One column of an answer: a projected column of the issued tree is reported with the source it
  denotes and is protected exactly when the rules protect that source, anything else has no
  source; and where it is protected it is labelled as a token and every cell is sealed.
\<close>

definition column_answer :: "aead \<Rightarrow> (nat \<Rightarrow> bytes) \<Rightarrow> binding list \<Rightarrow> pii_policy \<Rightarrow> node \<Rightarrow> sql_result \<Rightarrow> nat \<Rightarrow> bool" where
  "column_answer al nonces bs pol tree res i \<longleftrightarrow>
     (if kind_at tree (value_at tree i) = Some KColumn
      then \<exists>n src. sub tree (value_at tree i) = Some n \<and> denotes bs n src \<and>
        sq_source (sr_columns res ! i) = Some (report_source src) \<and>
        sq_protected (sr_columns res ! i) = is_protected pol src
      else sq_source (sr_columns res ! i) = None \<and> \<not> sq_protected (sr_columns res ! i)) \<and>
     (sq_protected (sr_columns res ! i) \<longrightarrow> sq_encoding (sr_columns res ! i) = EncToken \<and>
        (\<forall>row \<in> set (sr_rows res). sealed_cell al (po_codec pol) nonces (row ! i)))"

lemma report_result_column:
  assumes "i < length (er_columns er)"
  shows "sr_columns (report_result er) ! i = report_column (er_columns er ! i)"
  using assms by (simp add: report_result_def)

lemma reported_answer:
  assumes "execute_validated al nonces conn vq (po_codec pol) = (Inr er, closed)"
    and "outputs_marked bs pol (vq_ast vq) (vq_outputs vq)"
    and "\<And>i row. i < length (vq_outputs vq) \<Longrightarrow> op_protected (vq_outputs vq ! i) \<Longrightarrow> row \<in> set (er_rows er) \<Longrightarrow>
      sealed_cell al (po_codec pol) nonces (row ! i)"
  shows "length (sr_columns (report_result er)) = length (as_list (arg (vq_ast vq) ''expressions'')) \<and>
    (\<forall>i < length (sr_columns (report_result er)). column_answer al nonces bs pol (vq_ast vq) (report_result er) i)"
proof -
  obtain cur where "read_result al (po_codec pol) nonces vq cur = Inr er"
    by (rule execute_validated_Inr [OF assms(1)])
  then obtain encs where cols: "er_columns er = map (\<lambda>(plan, e). column_of plan e) (zip (vq_outputs vq) encs)"
    and len: "length encs = length (vq_outputs vq)" by (rule read_result_Inr)
  have "column_answer al nonces bs pol (vq_ast vq) (report_result er) i" if i: "i < length (vq_outputs vq)" for i
  proof -
    have "sr_columns (report_result er) ! i = report_column (column_of (vq_outputs vq ! i) (encs ! i))"
      using i len cols by (simp add: report_result_column)
    moreover have "output_marked bs pol (vq_ast vq) i (vq_outputs vq ! i)"
      using assms(2) i by (simp add: outputs_marked_def)
    ultimately show ?thesis
      using assms(3) [OF i]
      by (auto simp: column_answer_def output_marked_def report_column_def column_of_def report_result_def) blast+
  qed
  with assms(2) len cols show ?thesis by (simp add: outputs_marked_def report_result_def)
qed

text \<open>The columns of an answer, from the validation and the execution it comes of.\<close>

lemma executed_answer:
  assumes "walk_ok (sg_walk lib)"
    and "validate_sql lib al nonce tables columns sql alias d pii codec runtime m dia s = (Inr vq, s')"
    and "fst (execute_validated al nonces conn vq codec) = Inr er" and "res = report_result er"
  obtains q q' ts bs cur where "conn (vq_sql vq) (vq_parameters vq) = Inr cur"
    "parse_select lib sql (limits_from_runtime runtime) dia = Inr q"
    "resolve_tables (sg_walk lib) tables columns dia q s = (Inr (q', ts), s')" "collect q' ts = Inr bs"
    "length (sr_columns res) = length (as_list (arg (vq_ast vq) ''expressions''))"
    "\<forall>i < length (sr_columns res). column_answer al nonces bs (make_policy d pii codec) (vq_ast vq) res i"
proof -
  let ?pol = "make_policy d pii codec"
  obtain closed where run: "execute_validated al nonces conn vq codec = (Inr er, closed)"
    using assms(3) by (metis prod.collapse)
  obtain cur where cur: "conn (vq_sql vq) (vq_parameters vq) = Inr cur" using execute_validated_Inr [OF run] by blast
  obtain q q' ts bs where q: "parse_select lib sql (limits_from_runtime runtime) dia = Inr q"
    "resolve_tables (sg_walk lib) tables columns dia q s = (Inr (q', ts), s')" "collect q' ts = Inr bs"
    and marked: "outputs_marked bs ?pol (vq_ast vq) (vq_outputs vq)"
    and cells: "\<And>i row. i < length (vq_outputs vq) \<Longrightarrow> op_protected (vq_outputs vq ! i) \<Longrightarrow> row \<in> set (er_rows er) \<Longrightarrow>
      sealed_cell al codec nonces (row ! i)"
    by (rule executed_outputs [OF assms(1,2) run]) blast
  have pol: "po_codec ?pol = codec" by (simp add: make_policy_def)
  have "length (sr_columns res) = length (as_list (arg (vq_ast vq) ''expressions'')) \<and>
    (\<forall>i < length (sr_columns res). column_answer al nonces bs ?pol (vq_ast vq) res i)"
    unfolding assms(4) by (rule reported_answer) (use run marked cells pol in simp_all)
  with that cur q show thesis by blast
qed

text \<open>The codec of an alias is made of the key of the server it names.\<close>

lemma own_codec:
  assumes "app_config_ok make_url (sv_config sv)" and "codecs_ok sv"
    and "map_of (ac_servers (sv_config sv)) a = Some server" and "codec_for (sv_codecs sv) a = Inr codec"
  shows "tc_alias codec = a" and "key_bytes server = Inr (Some (tc_key codec))"
proof -
  have "distinct (map fst (ac_servers (sv_config sv)))" using assms(1) by (simp add: app_config_ok_def)
  then show "tc_alias codec = a" and "key_bytes server = Inr (Some (tc_key codec))"
    using codec_for_config [OF assms(2) [unfolded codecs_ok_def] _ assms(4)] assms(3) by (metis option.inject)+
qed

text \<open>
  C1. What \<open>execute_sql\<close> returns, end to end.  With a valid configuration, after any calls of
  any tools, with any errors and whatever the database has answered, a result means that the server is
  \<open>all_pii_safe\<close> and that one validated query was run on one connection of an engine with that
  server's URL and the call's database; its columns follow the projections of the issued tree, each
  reported with the source it denotes and protected exactly when the server's rules say so; and every
  cell of a protected column is null or a token sealed with that server's own key and alias.
\<close>

theorem execute_sql_seals_protected_columns:
  assumes "walk_ok (sg_walk (sv_sqlglot sv))" and "app_config_ok make_url (sv_config sv)" and "codecs_ok sv"
    and "st = snd (run_tools sv calls (new_state clock))" and "sql_call sv a d sql m st = (Inr res, st')"
  shows "\<exists>server pii codec e c vq dia limit q q' ts bs.
    map_of (ac_servers (sv_config sv)) a = Some server \<and> sc_access_level server = ALL_PII_SAFE \<and>
    sc_pii server = Some pii \<and> tc_alias codec = a \<and> key_bytes server = Inr (Some (tc_key codec)) \<and>
    eo_url (eg_options e) = sc_connection_url server \<and> eo_database (eg_options e) = Some d \<and>
    sv_connect sv (ss_connects st) e = Inr c \<and> (\<exists>cur. dc_driver c (vq_sql vq) (vq_parameters vq) = Inr cur) \<and>
    dialect_for (engine_text (sc_engine server)) = Inr dia \<and>
    limit = (case m of None \<Rightarrow> default_max_rows (ac_runtime (sv_config sv)) | Some k \<Rightarrow> k) \<and>
    validate_sql (sv_sqlglot sv) (sv_aead sv) (sv_marker_nonce sv (ss_connects st))
      (rc_list_tables (dc_inspector c) a d) (rc_columns (dc_inspector c) a d) sql a d pii codec
      (ac_runtime (sv_config sv)) limit dia (ss_catalog st) = (Inr vq, ss_catalog st') \<and>
    parse_select (sv_sqlglot sv) sql (limits_from_runtime (ac_runtime (sv_config sv))) dia = Inr q \<and>
    resolve_tables (sg_walk (sv_sqlglot sv)) (rc_list_tables (dc_inspector c) a d) (rc_columns (dc_inspector c) a d)
      dia q (ss_catalog st) = (Inr (q', ts), ss_catalog st') \<and> collect q' ts = Inr bs \<and>
    length (sr_columns res) = length (as_list (arg (vq_ast vq) ''expressions'')) \<and>
    (\<forall>i < length (sr_columns res). column_answer (sv_aead sv) (sv_nonces sv (ss_connects st)) bs
       (make_policy d pii codec) (vq_ast vq) res i)"
proof -
  obtain server pii codec limit dia e c vq er where server: "server_for sv a = Inr server"
    and safe: "sc_access_level server = ALL_PII_SAFE" "sc_pii server = Some pii"
    and codec: "codec_for (sv_codecs sv) a = Inr codec"
    and limit: "limit = (case m of None \<Rightarrow> default_max_rows (ac_runtime (sv_config sv)) | Some k \<Rightarrow> k)"
    and dia: "dialect_for (engine_text (sc_engine server)) = Inr dia"
    and get: "registry_get (sv_config sv) (sv_create sv) a (Some d) (ss_registry st) = (Inr e, ss_registry st')"
    and c: "sv_connect sv (ss_connects st) e = Inr c"
    and val: "validate_sql (sv_sqlglot sv) (sv_aead sv) (sv_marker_nonce sv (ss_connects st))
      (rc_list_tables (dc_inspector c) a d) (rc_columns (dc_inspector c) a d) sql a d pii codec
      (ac_runtime (sv_config sv)) limit dia (ss_catalog st) = (Inr vq, ss_catalog st')"
    and ex: "fst (execute_validated (sv_aead sv) (sv_nonces sv (ss_connects st)) (dc_driver c) vq codec) = Inr er"
    and res: "res = report_result er"
    by (rule sql_call_Inr [OF assms(5)])
  have known: "map_of (ac_servers (sv_config sv)) a = Some server"
    using server by (auto simp: server_for_def split: option.splits)
  note engine = sound_engine [OF reachable_registry_sound get [unfolded assms(4)] known]
  show ?thesis
    by (rule executed_answer [OF assms(1) val ex res])
      (use known safe own_codec [OF assms(2,3) known codec] c val engine limit dia in blast)
qed

theorem execute_sql_seals_protected_columns_witness:
  "\<exists>(st' :: service_state) server pii codec e c vq dia limit q q' ts bs.
    map_of (ac_servers (sv_config demo_service)) ''a'' = Some server \<and> sc_access_level server = ALL_PII_SAFE \<and>
    sc_pii server = Some pii \<and> tc_alias codec = ''a'' \<and> key_bytes server = Inr (Some (tc_key codec)) \<and>
    eo_url (eg_options e) = sc_connection_url server \<and> eo_database (eg_options e) = Some ''db'' \<and>
    sv_connect demo_service (ss_connects (new_state (\<lambda>i. 0))) e = Inr c \<and>
    (\<exists>cur. dc_driver c (vq_sql vq) (vq_parameters vq) = Inr cur) \<and>
    dialect_for (engine_text (sc_engine server)) = Inr dia \<and>
    limit = (case Some 10 of None \<Rightarrow> default_max_rows (ac_runtime (sv_config demo_service)) | Some k \<Rightarrow> k) \<and>
    validate_sql (sv_sqlglot demo_service) (sv_aead demo_service)
      (sv_marker_nonce demo_service (ss_connects (new_state (\<lambda>i. 0))))
      (rc_list_tables (dc_inspector c) ''a'' ''db'') (rc_columns (dc_inspector c) ''a'' ''db'') ''SELECT'' ''a''
      ''db'' pii codec (ac_runtime (sv_config demo_service)) limit dia (ss_catalog (new_state (\<lambda>i. 0)))
      = (Inr vq, ss_catalog st') \<and>
    parse_select (sv_sqlglot demo_service) ''SELECT'' (limits_from_runtime (ac_runtime (sv_config demo_service))) dia = Inr q \<and>
    resolve_tables (sg_walk (sv_sqlglot demo_service)) (rc_list_tables (dc_inspector c) ''a'' ''db'')
      (rc_columns (dc_inspector c) ''a'' ''db'') dia q (ss_catalog (new_state (\<lambda>i. 0)))
      = (Inr (q', ts), ss_catalog st') \<and> collect q' ts = Inr bs \<and>
    length (sr_columns good_report) = length (as_list (arg (vq_ast vq) ''expressions'')) \<and>
    (\<forall>i < length (sr_columns good_report). column_answer (sv_aead demo_service)
       (sv_nonces demo_service (ss_connects (new_state (\<lambda>i. 0)))) bs (make_policy ''db'' pii codec) (vq_ast vq)
       good_report i)"
proof -
  obtain st' where run: "sql_call demo_service ''a'' ''db'' ''SELECT'' (Some 10) (new_state (\<lambda>i. 0)) = (Inr good_report, st')"
    using demo_sql_call by blast
  have "walk_ok (sg_walk (sv_sqlglot demo_service))" "app_config_ok demo_url (sv_config demo_service)"
    using walk_ok_demo demo_config_ok by (simp_all add: demo_service_def)
  moreover have "new_state (\<lambda>i. 0) = snd (run_tools demo_service [] (new_state (\<lambda>i. 0)))" by simp
  ultimately show ?thesis
    using execute_sql_seals_protected_columns [OF _ _ demo_service_codecs _ run] by (intro exI [of _ st']) blast
qed



text \<open>A recorded site is a token literal, with the value it decrypts to.\<close>

lemma decision_site:
  assumes "evaluate al walk pol a = Inr dec" and "x \<in> set (pd_token_sites dec)"
  shows "\<exists>n. sub (an_query a) (site_literal x) = Some n \<and> is_token_literal n \<and>
    decrypt al (po_codec pol) (arg_str (arg n ''this'')) = Inr (site_value x)"
proof -
  from evaluate_Inr(3) [OF assms] obtain n v where n: "sub (an_query a) (site_literal x) = Some n"
    "is_token_literal n" "decrypt al (po_codec pol) (arg_str (arg n ''this'')) = Inr v"
    and v: "x = \<lparr>site_literal = site_literal x, site_value = v\<rparr>"
    unfolding token_site_at_Inr by blast
  from v have "site_value x = v" by (metis token_site.select_convs(2))
  with n show ?thesis by blast
qed

text \<open>
  C3. What an accepted query does with protected columns, at the places the analysis looks at: the
  column that is a projected value itself, directly or as the operand of an alias, and every
  column below an \<open>ON\<close>, in \<open>WHERE\<close> or in \<open>ORDER BY\<close>.  After the analysis and the policy's
  decision, such a column that denotes a protected source is projected itself, or stands in
  \<open>WHERE\<close> on the left of an equality or a membership test whose every operand is a recorded
  token; and every recorded site is a token literal that decrypts under the policy's codec to
  the recorded value.  A column inside another projected expression is not looked at (theorem
  \<open>parenthesised_column_escapes\<close>).
\<close>

theorem protected_columns_only_compared_with_tokens:
  assumes "walk_ok (sg_walk lib)" and "analyze_query lib q ts lim d = Inr a"
    and "evaluate al (sg_walk lib) pol a = Inr dec"
  shows "\<exists>bs. collect q ts = Inr bs \<and>
    (\<forall>p n src. visited (an_query a) p \<longrightarrow> sub (an_query a) p = Some n \<longrightarrow> denotes bs n src \<longrightarrow>
       is_protected pol src \<longrightarrow>
       protected_use_ok (an_query a) (set (map site_literal (pd_token_sites dec))) p) \<and>
    (\<forall>x \<in> set (pd_token_sites dec). \<exists>n. sub (an_query a) (site_literal x) = Some n \<and>
       is_token_literal n \<and> decrypt al (po_codec pol) (arg_str (arg n ''this'')) = Inr (site_value x))"
proof -
  from analyze_query_ok [OF assms(1,2)] obtain bs e where bs: "collect q ts = Inr bs"
    and ok: "analysis_ok bs e a" by blast
  have "protected_use_ok (an_query a) (set (map site_literal (pd_token_sites dec))) p"
    if p: "visited (an_query a) p" "sub (an_query a) p = Some n" "denotes bs n src" "is_protected pol src" for p n src
  proof -
    have "nkind n = KColumn" using p(3) by (simp add: denotes_def)
    with ok p(1,2) obtain r where r: "r \<in> set (an_references a)" "cr_node r = p" "denotes bs n (cr_source r)"
      unfolding analysis_ok_def covers_def by blast
    have "cr_source r = src" by (rule denotes_unique [OF r(3) p(3) collect_Inr(2) [OF bs]])
    with evaluate_Inr(2) [OF assms(3) r(1)] r(2) p(4) show ?thesis by simp
  qed
  then show ?thesis using bs decision_site [OF assms(3)] by blast
qed

theorem protected_columns_only_compared_with_tokens_witness:
  "\<exists>bs. collect good_resolved [demo_table] = Inr bs \<and>
    (\<forall>p n src. visited (an_query good_analyzed) p \<longrightarrow> sub (an_query good_analyzed) p = Some n \<longrightarrow>
       denotes bs n src \<longrightarrow> is_protected demo_policy src \<longrightarrow>
       protected_use_ok (an_query good_analyzed) (set (map site_literal (pd_token_sites good_decision))) p) \<and>
    (\<forall>x \<in> set (pd_token_sites good_decision). \<exists>n. sub (an_query good_analyzed) (site_literal x) = Some n \<and>
       is_token_literal n \<and>
       decrypt plain_aead (po_codec demo_policy) (arg_str (arg n ''this'')) = Inr (site_value x))"
  by (rule protected_columns_only_compared_with_tokens [OF walk_ok_demo good_analyze])
    (simp add: good_evaluate)

text \<open>
  C4. No token survives outside those comparisons: in an accepted query every string literal that
  starts with the token prefix is one of the recorded sites.
\<close>

theorem token_literals_are_sites:
  assumes "walk_ok walk" and "evaluate al walk pol a = Inr dec"
    and "sub (an_query a) p = Some n" and "is_token_literal n"
  shows "p \<in> set (map site_literal (pd_token_sites dec))"
proof -
  have "p \<in> set (find_all walk [KLiteral] (an_query a))"
    using assms(3,4) by (auto simp: set_find_all [OF assms(1)] kind_at_def is_token_literal_def is_string_literal_def)
  then show ?thesis by (rule evaluate_Inr(4) [OF assms(2) _ assms(3,4)])
qed

theorem token_literals_are_sites_witness:
  "where_operand ''expression'' \<in> set (map site_literal (pd_token_sites good_decision))"
proof -
  have "sub (an_query good_analyzed) (where_operand ''expression'') = Some (text_literal demo_token)"
    "is_token_literal (text_literal demo_token)" by code_simp+
  then show ?thesis by (rule token_literals_are_sites [OF walk_ok_bfs_walk good_evaluate])
qed

text \<open>
  C5. The lineage is complete and canonical.  The bindings are the reflected tables, with distinct
  names; the analysed query is the star-expanded one with columns rewritten to canonical
  references and nothing else changed; every column it visits is recorded once, with the source
  it denotes; the outputs follow the projections, and an output has a source exactly when the
  projected value is a column, namely the one that column denotes.
\<close>

theorem lineage_complete:
  assumes "walk_ok (sg_walk lib)" and "analyze_query lib q ts lim d = Inr a"
  shows "\<exists>bs e. collect q ts = Inr bs \<and> map bd_table bs = ts \<and> distinct (map (casefold \<circ> bd_name) bs) \<and>
    expand_stars q bs = Inr e \<and> rewritten bs anywhere e (an_query a) \<and>
    (\<forall>p. visited (an_query a) p \<longrightarrow> kind_at (an_query a) p = Some KColumn \<longrightarrow>
       (\<exists>!r. r \<in> set (an_references a) \<and> cr_node r = p) \<and>
       (\<exists>n r. sub (an_query a) p = Some n \<and> r \<in> set (an_references a) \<and> cr_node r = p \<and>
          denotes bs n (cr_source r))) \<and>
    length (an_outputs a) = length (as_list (arg (an_query a) ''expressions'')) \<and>
    (\<forall>i < length (an_outputs a). output_matches bs (an_query a) i (an_outputs a ! i))"
proof -
  from analyze_query_ok [OF assms] obtain bs e where bs: "collect q ts = Inr bs" "expand_stars q bs = Inr e"
    and ok: "analysis_ok bs e a" by blast
  have dist: "distinct (map cr_node (an_references a))" using ok by (simp add: analysis_ok_def placed_def)
  have "(\<exists>!r. r \<in> set (an_references a) \<and> cr_node r = p) \<and>
      (\<exists>n r. sub (an_query a) p = Some n \<and> r \<in> set (an_references a) \<and> cr_node r = p \<and> denotes bs n (cr_source r))"
    if p: "visited (an_query a) p" "kind_at (an_query a) p = Some KColumn" for p
  proof -
    from p(2) obtain n where n: "sub (an_query a) p = Some n" "nkind n = KColumn" by (auto simp: kind_at_def)
    with ok p(1) obtain r where r: "r \<in> set (an_references a)" "cr_node r = p" "denotes bs n (cr_source r)"
      unfolding analysis_ok_def covers_def by blast
    have "r' = r" if "r' \<in> set (an_references a)" "cr_node r' = p" for r'
      using dist that r(1,2) by (auto simp: distinct_map inj_on_def)
    with n(1) r show ?thesis by blast
  qed
  with bs ok collect_Inr(1,2) [OF bs(1)] show ?thesis
    by (intro exI [of _ bs] exI [of _ e]) (simp add: analysis_ok_def outputs_match_def)
qed

theorem lineage_complete_witness:
  "\<exists>bs e. collect good_resolved [demo_table] = Inr bs \<and> map bd_table bs = [demo_table] \<and>
    distinct (map (casefold \<circ> bd_name) bs) \<and>
    expand_stars good_resolved bs = Inr e \<and> rewritten bs anywhere e (an_query good_analyzed) \<and>
    (\<forall>p. visited (an_query good_analyzed) p \<longrightarrow> kind_at (an_query good_analyzed) p = Some KColumn \<longrightarrow>
       (\<exists>!r. r \<in> set (an_references good_analyzed) \<and> cr_node r = p) \<and>
       (\<exists>n r. sub (an_query good_analyzed) p = Some n \<and> r \<in> set (an_references good_analyzed) \<and>
          cr_node r = p \<and> denotes bs n (cr_source r))) \<and>
    length (an_outputs good_analyzed) = length (as_list (arg (an_query good_analyzed) ''expressions'')) \<and>
    (\<forall>i < length (an_outputs good_analyzed).
       output_matches bs (an_query good_analyzed) i (an_outputs good_analyzed ! i))"
  by (rule lineage_complete [OF walk_ok_demo good_analyze])

text \<open>
  The analysis looks at direct columns only: \<open>SELECT (Email) AS x FROM Users\<close> is
  accepted although the rules protect \<open>Email\<close>, the output is marked as unprotected, and the
  executor returns the value in the clear.
\<close>

theorem parenthesised_column_escapes:
  "fst (demo_validate leak_parsed ()) = Inr leak_query \<and>
   is_protected demo_policy email_source \<and> map op_protected (vq_outputs leak_query) = [False] \<and>
   (\<exists>res. fst (execute_validated plain_aead (\<lambda>k. demo_nonce) (demo_rows [[PyStr ''x'']]) leak_query demo_codec)
      = Inr res \<and> er_rows res = [[PyStr ''x'']])"
proof -
  have "is_protected demo_policy email_source" by code_simp
  then show ?thesis by (simp add: leak_validate leak_execute) (simp add: leak_query_def)
qed

section \<open>Tokens\<close>

text \<open>
  C11. A token is decrypted to the value it was made of, by the codec that made it, for every
  value of the supported types (a non-finite decimal excepted), whatever the nonce.
\<close>

theorem token_round_trip:
  assumes "aead_ok lib" and "length nonce = NONCE_BYTES" and "pyval_ok v" and "decryptable v"
    and "encrypt lib c nonce v = Inr (Some tok)"
  shows "decrypt lib c tok = Inr v \<and> startswith tok TOKEN_PREFIX \<and> length tok \<le> MAX_TOKEN_CHARS"
proof -
  obtain tag d where "length tok \<le> MAX_TOKEN_CHARS"
    "tok = token_text (nonce @ ae_encrypt lib (tc_key c) nonce (dumps (payload_of tag d)) (tc_aad c))"
    by (rule encrypt_Some [OF assms(5)], rule that)
  with decrypt_encrypt [OF assms] show ?thesis by (simp add: token_text_def)
qed

theorem token_round_trip_witness:
  "decrypt plain_aead demo_codec demo_token = Inr (PyStr ''x'') \<and> startswith demo_token TOKEN_PREFIX \<and>
     length demo_token \<le> MAX_TOKEN_CHARS"
  by (rule token_round_trip [OF aead_ok_plain _ _ _ good_token])
    (simp_all add: demo_nonce_def NONCE_BYTES_def)

text \<open>
  C12. What \<open>decrypt\<close> accepts is authentic.  An accepted text is the canonical text of a nonce and
  the sealing, under the codec's own key and with the codec's alias as associated data, of the
  payload that gives the value.  And no codec accepts another's token: among the codecs for
  whose keys and associated data the cipher keeps its promise, a token that one of them made of a
  value is accepted by that one only, a codec with the same key and another alias included, and
  gives that value.
\<close>

theorem accepted_tokens_are_authentic:
  assumes "aead_ok lib" and "aead_separates lib (codec_context ` C)" and "c \<in> C" and "decrypt lib c tok = Inr v"
  shows "(\<exists>nonce payload doc json. length nonce = NONCE_BYTES \<and>
      tok = token_text (nonce @ ae_encrypt lib (tc_key c) nonce payload (tc_aad c)) \<and>
      utf8_decode payload = Some doc \<and> loads doc = Some json \<and> check_document json = Inr v) \<and>
    (\<forall>c' nonce v'. c' \<in> C \<and> length nonce = NONCE_BYTES \<and> encrypt lib c' nonce v' = Inr (Some tok) \<longrightarrow>
      tc_alias c' = tc_alias c \<and> tc_key c' = tc_key c \<and> (pyval_ok v' \<and> decryptable v' \<longrightarrow> v' = v))"
proof
  obtain nonce payload doc where t: "length nonce = NONCE_BYTES"
    "tok = token_text (nonce @ ae_encrypt lib (tc_key c) nonce payload (tc_aad c))" "utf8_decode payload = Some doc"
    "Option.bind (loads doc) (\<lambda>d. case check_document d of Inl _ \<Rightarrow> None | Inr x \<Rightarrow> Some x) = Some v"
    by (rule decrypt_authentic [OF assms(1,4)], rule that)
  from t(4) obtain json where json: "loads doc = Some json"
    "(case check_document json of Inl _ \<Rightarrow> None | Inr x \<Rightarrow> Some x) = Some v" by (auto simp: bind_eq_Some_conv)
  then have "check_document json = Inr v" by (cases "check_document json") simp_all
  with json(1) t(1-3) show "\<exists>nonce payload doc json. length nonce = NONCE_BYTES \<and>
      tok = token_text (nonce @ ae_encrypt lib (tc_key c) nonce payload (tc_aad c)) \<and>
      utf8_decode payload = Some doc \<and> loads doc = Some json \<and> check_document json = Inr v" by blast
  show "\<forall>c' nonce v'. c' \<in> C \<and> length nonce = NONCE_BYTES \<and> encrypt lib c' nonce v' = Inr (Some tok) \<longrightarrow>
      tc_alias c' = tc_alias c \<and> tc_key c' = tc_key c \<and> (pyval_ok v' \<and> decryptable v' \<longrightarrow> v' = v)"
    using decrypt_foreign [OF assms(1-3) _ _ _ assms(4)] decrypt_encrypt [OF assms(1)] assms(4) by fastforce
qed

theorem accepted_tokens_are_authentic_witness:
  "(\<exists>nonce payload. length nonce = NONCE_BYTES \<and> tagged_token =
      token_text (nonce @ ae_encrypt tagged_aead (tc_key demo_codec) nonce payload (tc_aad demo_codec))) \<and>
   (\<nexists>nonce v'. length nonce = NONCE_BYTES \<and>
      encrypt tagged_aead (demo_codec\<lparr>tc_alias := ''b''\<rparr>) nonce v' = Inr (Some tagged_token))"
proof -
  have "demo_codec \<in> demo_codecs" "demo_codec\<lparr>tc_alias := ''b''\<rparr> \<in> demo_codecs" "tc_alias demo_codec \<noteq> ''b''"
    by (simp_all add: demo_codecs_def demo_codec_def)
  with accepted_tokens_are_authentic [OF aead_ok_tagged tagged_separates _ tagged_decrypts] show ?thesis
    by (metis token_codec.select_convs(1) token_codec.surjective token_codec.update_convs(1))
qed

text \<open>Every failure of \<open>decrypt\<close> is the same error, whatever the reason.\<close>

theorem decrypt_fails_uniformly:
  "(\<exists>v. decrypt lib c tok = Inr v) \<or> decrypt lib c tok = Inl (Domain invalid_token)"
  by (cases "decrypt lib c tok") (auto dest: decrypt_error)

text \<open>
  C18. Each alias has a key of its own.  With a valid configuration the registry of token codecs
  can be built; it has a codec for exactly the aliases whose server has a key, which carries that
  alias and that key; every key has 32 bytes; and the codecs of two aliases have different keys.
\<close>

theorem codecs_have_own_keys:
  assumes "app_config_ok make_url cfg"
  shows "\<exists>codecs. registry_from_config cfg = Inr codecs \<and>
    (\<forall>a. codec_for codecs a = (case map_of (ac_servers cfg) a of
        None \<Rightarrow> Inl (Domain no_tokens_error)
      | Some server \<Rightarrow> (case key_bytes server of
            Inr (Some key) \<Rightarrow> Inr \<lparr>tc_alias = a, tc_key = key\<rparr>
          | _ \<Rightarrow> Inl (Domain no_tokens_error)))) \<and>
    (\<forall>a c. codec_for codecs a = Inr c \<longrightarrow> length (tc_key c) = KEY_BYTES) \<and>
    (\<forall>a b c c'. codec_for codecs a = Inr c \<and> codec_for codecs b = Inr c' \<and> a \<noteq> b \<longrightarrow> tc_key c \<noteq> tc_key c')"
proof -
  have dist: "distinct (map fst (ac_servers cfg))" using assms(1) by (simp add: app_config_ok_def)
  obtain codecs where built: "registry_from_config cfg = Inr codecs" using registry_built [OF assms] by blast
  have "codec_for codecs a = (case map_of (ac_servers cfg) a of
        None \<Rightarrow> Inl (Domain no_tokens_error)
      | Some server \<Rightarrow> (case key_bytes server of
            Inr (Some key) \<Rightarrow> Inr \<lparr>tc_alias = a, tc_key = key\<rparr>
          | _ \<Rightarrow> Inl (Domain no_tokens_error)))" for a
    by (simp add: codec_for_built [OF built dist] server_codec_def split: option.split sum.split)
  moreover have "length (tc_key c) = KEY_BYTES" if c: "codec_for codecs a = Inr c" for a c
  proof -
    obtain s where s: "map_of (ac_servers cfg) a = Some s" "key_bytes s = Inr (Some (tc_key c))"
      by (rule codec_for_config [OF built dist c])
    have "tc_key c \<in> set (server_keys (ac_servers cfg))"
      using map_of_SomeD [OF s(1)] s(2) by (force simp: server_keys_def List.map_filter_def)
    then show ?thesis using app_config_ok_keys(2) [OF assms(1)] by (simp add: KEY_BYTES_def)
  qed
  moreover have "tc_key c \<noteq> tc_key c'"
    if c: "codec_for codecs a = Inr c" and c': "codec_for codecs b = Inr c'" and ab: "a \<noteq> b" for a b c c'
  proof -
    obtain s where s: "map_of (ac_servers cfg) a = Some s" "key_bytes s = Inr (Some (tc_key c))"
      by (rule codec_for_config [OF built dist c])
    obtain t where t: "map_of (ac_servers cfg) b = Some t" "key_bytes t = Inr (Some (tc_key c'))"
      by (rule codec_for_config [OF built dist c'])
    show ?thesis
      using server_keys_inj [OF app_config_ok_keys(1) [OF assms(1)] s(1) t(1) s(2)] t(2) ab by auto
  qed
  ultimately show ?thesis using built by blast
qed

theorem codecs_have_own_keys_witness:
  "\<exists>codecs c c'. registry_from_config demo_config = Inr codecs \<and> codec_for codecs ''a'' = Inr c \<and>
     codec_for codecs ''b'' = Inr c' \<and> tc_alias c = ''a'' \<and> length (tc_key c) = KEY_BYTES \<and> tc_key c \<noteq> tc_key c'"
proof -
  have c: "codec_for demo_registry ''a'' = Inr (the (map_of demo_registry ''a''))"
    "codec_for demo_registry ''b'' = Inr (the (map_of demo_registry ''b''))"
    "tc_alias (the (map_of demo_registry ''a'')) = ''a''" "''a'' \<noteq> ''b''"
    by (simp_all add: codec_for_def demo_registry_def)
  from codecs_have_own_keys [OF demo_config_ok] demo_registry_built
  have "length (tc_key (the (map_of demo_registry ''a''))) = KEY_BYTES"
    "tc_key (the (map_of demo_registry ''a'')) \<noteq> tc_key (the (map_of demo_registry ''b''))"
    using c by (simp_all only: sum.inject) blast+
  with c demo_registry_built show ?thesis by blast
qed

text \<open>
  The payload of a token survives the JSON text: scanning the generated document gives it
  back, for every tag and every scalar.
\<close>

theorem payload_round_trip:
  assumes "json_scalar_ok d"
  shows "loads (dumps (payload_of tag d)) = Some (payload_of tag d) \<and>
    utf8_decode (dumps (payload_of tag d)) = Some (dumps (payload_of tag d))"
  using payload_loads [OF assms] payload_ascii [OF assms] by simp

theorem payload_round_trip_witness:
  "loads (dumps (payload_of ''float'' (JFloat ''1.5e-07''))) = Some (payload_of ''float'' (JFloat ''1.5e-07'')) \<and>
   utf8_decode (dumps (payload_of ''float'' (JFloat ''1.5e-07''))) = Some (dumps (payload_of ''float'' (JFloat ''1.5e-07'')))"
proof (rule payload_round_trip)
  show "json_scalar_ok (JFloat ''1.5e-07'')" by code_simp
qed

section \<open>The issued statement\<close>

text \<open>
  C10. Every token's value is bound exactly once and at its own place.  The sites are those the policy
  recorded for the analysed query, each a token literal of that query with the value it decrypts to
  under the server's codec; the placeholders of the issued tree stand at exactly those literals'
  positions.  The statement text is the library's text of the query with markers for placeholders, its
  markers replaced from left to right by the dialect's bind marker and nothing else changed; the markers
  are those of the placeholders, once each; and the bound values follow the markers: each is the
  value of the token that the marker's placeholder replaced.
\<close>

theorem binds_follow_markers:
  assumes "walk_ok (sg_walk lib)" and "nonce_ok nonce" and "d \<in> {SQLSERVER, MYSQL}"
    and "validate_sql lib al nonce tables columns sql alias database pii codec runtime m d s = (Inr vq, s')"
  shows "\<exists>q q' ts a dec sites ps rendered text0 segs rest.
    parse_select lib sql (limits_from_runtime runtime) d = Inr q \<and>
    resolve_tables (sg_walk lib) tables columns d q s = (Inr (q', ts), s') \<and>
    analyze_query lib q' ts (limits_from_runtime runtime) d = Inr a \<and>
    evaluate al (sg_walk lib) (make_policy database pii codec) a = Inr dec \<and> sites = pd_token_sites dec \<and>
    (\<forall>x \<in> set sites. \<exists>n. sub (an_query a) (site_literal x) = Some n \<and> is_token_literal n \<and>
       decrypt al codec (arg_str (arg n ''this'')) = Inr (site_value x)) \<and>
    ps = find_all (sg_walk lib) [KPlaceholder] (vq_ast vq) \<and> mset ps = mset (map site_literal sites) \<and>
    distinct ps \<and>
    rendered = fst (fold (marker_step nonce) ps (vq_ast vq, [])) \<and> sg_sql lib (d_name d) rendered = Inr text0 \<and>
    escape_percent d text0 = interleave segs rest \<and>
    mset (map snd segs) = mset (map (marker nonce) [0..<length ps]) \<and>
    vq_sql vq = interleave (map (\<lambda>(b, m). (b, d_bind_marker d)) segs) rest \<and>
    binds_in_order nonce ps sites (map snd segs) (vq_parameters vq) \<and>
    mset (vq_parameters vq) = mset (map site_value sites)"
proof -
  from assms(1,4) obtain q q' ts bs a dec where q: "parse_select lib sql (limits_from_runtime runtime) d = Inr q"
    "resolve_tables (sg_walk lib) tables columns d q s = (Inr (q', ts), s')"
    "analyze_query lib q' ts (limits_from_runtime runtime) d = Inr a"
    and ev: "evaluate al (sg_walk lib) (make_policy database pii codec) a = Inr dec"
    and iss: "issue_validated_query lib nonce a dec alias database m runtime (limits_from_runtime runtime) d = Inr vq"
    and sites: "sites_ok (an_query a) (pd_token_sites dec)" and root: "nkind (an_query a) = KSelect"
    by (rule validate_sql_ok)
  let ?sites = "pd_token_sites dec"
  obtain rendered text0 segs rest ps where b: "ps = find_all (sg_walk lib) [KPlaceholder] (vq_ast vq)"
    "mset ps = mset (map site_literal ?sites)" "rendered = fst (fold (marker_step nonce) ps (vq_ast vq, []))"
    "sg_sql lib (d_name d) rendered = Inr text0" "escape_percent d text0 = interleave segs rest"
    "mset (map snd segs) = mset (map (marker nonce) [0..<length ps])"
    "vq_sql vq = interleave (map (\<lambda>(b, m). (b, d_bind_marker d)) segs) rest"
    "binds_in_order nonce ps ?sites (map snd segs) (vq_parameters vq)"
    by (rule issue_binds [OF iss assms(1) sites root assms(2,3)])
  have dist: "distinct (map site_literal ?sites)" using sites by (simp add: sites_ok_def leaves_at_def)
  moreover have "distinct ps" unfolding b(1) by (rule distinct_find_all [OF assms(1)])
  moreover have "\<exists>n. sub (an_query a) (site_literal x) = Some n \<and> is_token_literal n \<and>
      decrypt al codec (arg_str (arg n ''this'')) = Inr (site_value x)" if "x \<in> set ?sites" for x
    using decision_site [OF ev that] by (simp add: make_policy_def)
  ultimately show ?thesis using binds_once [OF b(8,6) dist b(2)] b q ev by blast
qed

lemma nonce_ok_marker: "nonce_ok marker_nonce"
  by code_simp

theorem binds_follow_markers_witness:
  "\<exists>q q' ts a dec sites ps rendered text0 segs rest.
    parse_select (demo_lib good_parsed) ''SELECT'' demo_limits SQLSERVER = Inr q \<and>
    resolve_tables bfs_walk demo_tables demo_columns SQLSERVER q () = (Inr (q', ts), ()) \<and>
    analyze_query (demo_lib good_parsed) q' ts demo_limits SQLSERVER = Inr a \<and>
    evaluate plain_aead bfs_walk demo_policy a = Inr dec \<and> sites = pd_token_sites dec \<and>
    (\<forall>x \<in> set sites. \<exists>n. sub (an_query a) (site_literal x) = Some n \<and> is_token_literal n \<and>
       decrypt plain_aead demo_codec (arg_str (arg n ''this'')) = Inr (site_value x)) \<and>
    ps = find_all bfs_walk [KPlaceholder] (vq_ast good_query) \<and>
    mset ps = mset (map site_literal sites) \<and> distinct ps \<and>
    rendered = fst (fold (marker_step marker_nonce) ps (vq_ast good_query, [])) \<and>
    sg_sql (demo_lib good_parsed) (d_name SQLSERVER) rendered = Inr text0 \<and>
    escape_percent SQLSERVER text0 = interleave segs rest \<and>
    mset (map snd segs) = mset (map (marker marker_nonce) [0..<length ps]) \<and>
    vq_sql good_query = interleave (map (\<lambda>(b, m). (b, d_bind_marker SQLSERVER)) segs) rest \<and>
    binds_in_order marker_nonce ps sites (map snd segs) (vq_parameters good_query) \<and>
    mset (vq_parameters good_query) = mset (map site_value sites)"
  using binds_follow_markers [OF walk_ok_demo nonce_ok_marker _ good_validate [unfolded demo_validate_def]]
  by simp

text \<open>
  C28. Percent signs survive MySQL's client-side formatting.  Where the library's text is \<open>u\<close>,
  filling in argument texts for the binds of the statement, as the driver does, gives \<open>u\<close> with
  those texts in place of the markers; a percent sign of a literal is neither lost nor doubled.
\<close>

theorem mysql_formatting_restores_text:
  assumes "nonce_ok nonce" and "escape_percent MYSQL u = t" and "find_markers nonce t = ms"
    and "length args = length ms"
  shows "\<exists>bs rest. length bs = length ms \<and> u = interleave (zip bs ms) rest \<and>
    percent_format (fold (\<lambda>m t. replace_first m (d_bind_marker MYSQL) t) ms t) args
      = Some (interleave (zip bs args) rest)"
proof -
  obtain segs rest where segs: "t = interleave segs rest" "ms = map snd segs" "scanned nonce segs rest"
    using find_markers_scanned [of t nonce] assms(3) by auto
  have bm: "bind_marker_ok nonce (d_bind_marker MYSQL)" by (rule bind_marker_ok_dialects [OF assms(1)]) simp
  have text1: "fold (\<lambda>m t. replace_first m (d_bind_marker MYSQL) t) ms t =
      interleave (map (\<lambda>(b, m). (b, ''%s'')) segs) rest"
    using replace_markers [OF segs(3) barrier_Nil bm] segs(1,2) by (simp add: MYSQL_def)
  have "escaped u = interleave segs rest" using assms(2) segs(1) by (simp add: escape_percent_def MYSQL_def)
  moreover have "m \<noteq> [] \<and> CHR ''%'' \<notin> set m" if "(b, m) \<in> set segs" for b m
    using scanned_markers [OF segs(3) that] is_marker_head bm by (auto simp: bind_marker_ok_def MYSQL_def)
  ultimately obtain bs rest' where bs: "u = interleave (zip bs (map snd segs)) rest'" "length bs = length segs"
    "map fst segs = map escaped bs" "rest = escaped rest'"
    using escaped_interleave by blast
  have "map (\<lambda>(b, m). (b, ''%s'')) segs = map (\<lambda>b. (b, ''%s'')) (map fst segs)" by auto
  also have "\<dots> = map (\<lambda>b. (escaped b, ''%s'')) bs" by (simp add: bs(3))
  finally have "interleave (map (\<lambda>(b, m). (b, ''%s'')) segs) rest = interleave (map (\<lambda>b. (escaped b, ''%s'')) bs) (escaped rest')"
    by (simp add: bs(4))
  with percent_format_interleave [of args bs rest'] assms(4) segs(2) bs text1 show ?thesis
    by (intro exI [of _ bs] exI [of _ rest']) simp
qed

theorem mysql_formatting_restores_text_witness:
  "\<exists>bs rest. length bs = length [marker ''0f'' 0] \<and> ''LIKE 5% = '' @ marker ''0f'' 0 = interleave (zip bs [marker ''0f'' 0]) rest \<and>
    percent_format (fold (\<lambda>m t. replace_first m (d_bind_marker MYSQL) t) [marker ''0f'' 0]
      (escape_percent MYSQL (''LIKE 5% = '' @ marker ''0f'' 0))) [''x''] = Some (interleave (zip bs [''x'']) rest)"
proof (rule mysql_formatting_restores_text [OF _ refl])
  show "nonce_ok ''0f''" by code_simp
  show "find_markers ''0f'' (escape_percent MYSQL (''LIKE 5% = '' @ marker ''0f'' 0)) = [marker ''0f'' 0]"
    by code_simp
qed simp

text \<open>Every node of a tree, at any depth.\<close>

definition every_node :: "(node \<Rightarrow> bool) \<Rightarrow> node \<Rightarrow> bool" where
  "every_node P q \<longleftrightarrow> (\<forall>p n. sub q p = Some n \<longrightarrow> P n)"

lemma walk_ok_nonempty: "walk_ok walk \<Longrightarrow> walk q \<noteq> []"
  using walk_ok_set [of walk "[]" q] by auto

lemma limits_respected:
  assumes "walk_ok walk" and "check_limits walk q lim = Inr ()"
  shows "int (length (walk q)) \<le> max_ast_nodes lim" and "int (length (find_all walk [KJoin] q)) \<le> max_joins lim"
    and "\<forall>p n. sub q p = Some n \<and> nkind n = KIn \<longrightarrow> int (length (as_list (arg n ''expressions''))) \<le> max_in_list_items lim"
proof -
  show "int (length (walk q)) \<le> max_ast_nodes lim"
    by (rule check_limits_nodes [OF assms(2) walk_ok_nonempty [OF assms(1)]])
  show "int (length (find_all walk [KJoin] q)) \<le> max_joins lim"
    using assms(2) by (simp add: check_limits_Inr_iff)
  have "\<forall>p \<in> set (find_all walk [KIn] q). int (length (expressions_at q p)) \<le> max_in_list_items lim"
    using assms(2) by (simp add: check_limits_Inr_iff)
  then show "\<forall>p n. sub q p = Some n \<and> nkind n = KIn \<longrightarrow>
      int (length (as_list (arg n ''expressions''))) \<le> max_in_list_items lim"
    unfolding set_find_all [OF assms(1)] by (force simp: expressions_at_def kind_at_def)
qed

text \<open>
  C9. The issued query.  It is a tree of allowlisted nodes in which placeholders are the only
  addition, within all the size limits; its row limit is a literal: one more than \<open>max_rows\<close> where the
  caller's query has no limit, and otherwise the number the caller wrote or one more than \<open>max_rows\<close>,
  whichever is smaller; \<open>max_rows\<close> is in the configured range; and no text of the token prefix is left
  in the statement.
\<close>

theorem issued_query_is_checked:
  assumes "walk_ok (sg_walk lib)"
    and "validate_sql lib al nonce tables columns sql alias database pii codec runtime m d s = (Inr vq, s')"
  shows "1 \<le> m \<and> m \<le> hard_max_rows runtime \<and> vq_max_rows vq = m \<and>
    (\<exists>q n. parse_select lib sql (limits_from_runtime runtime) d = Inr q \<and>
      arg (vq_ast vq) ''limit'' = ANode (limit_node n) \<and> 0 \<le> n \<and>
      (if arg q ''limit'' = ANone then n = m + 1
       else \<exists>l e k. arg q ''limit'' = ANode l \<and> as_node (arg l ''expression'') = Some e \<and>
         int_of_digits (arg_str (arg e ''this'')) = Some k \<and> n = min k (m + 1))) \<and>
    nkind (vq_ast vq) = KSelect \<and>
    every_node (\<lambda>n. nkind n \<in> set ALLOWED_KINDS \<or> nkind n = KPlaceholder) (vq_ast vq) \<and>
    in_fragment True (vq_ast vq) \<and>
    int (length (sg_walk lib (vq_ast vq))) \<le> rt_max_ast_nodes runtime \<and>
    int (length (find_all (sg_walk lib) [KJoin] (vq_ast vq))) \<le> rt_max_joins runtime \<and>
    (\<forall>p n. sub (vq_ast vq) p = Some n \<and> nkind n = KIn \<longrightarrow>
       int (length (as_list (arg n ''expressions''))) \<le> rt_max_in_list_items runtime) \<and>
    \<not> is_substr TOKEN_PREFIX (vq_sql vq)"
proof -
  from assms(2) obtain a dec where
    "issue_validated_query lib nonce a dec alias database m runtime (limits_from_runtime runtime) d = Inr vq"
    by (rule validate_sql_Inr)
  then obtain bound where m: "1 \<le> m" "m \<le> hard_max_rows runtime" and cap: "cap_rows bound m = Inr (vq_ast vq)"
    and lim: "check_limits (sg_walk lib) (vq_ast vq) (limits_from_runtime runtime) = Inr ()"
    and allow: "validate_allowlist (sg_walk lib) (vq_ast vq) True = Inr ()"
    and rest: "\<not> is_substr TOKEN_PREFIX (vq_sql vq)" "vq_max_rows vq = m"
    by (rule issue_steps)
  obtain q n where limit: "parse_select lib sql (limits_from_runtime runtime) d = Inr q"
    "arg (vq_ast vq) ''limit'' = ANode (limit_node n)" "0 \<le> n"
    "if arg q ''limit'' = ANone then n = m + 1
     else \<exists>l e k. arg q ''limit'' = ANode l \<and> as_node (arg l ''expression'') = Some e \<and>
       int_of_digits (arg_str (arg e ''this'')) = Some k \<and> n = min k (m + 1)"
    by (rule issued_limit [OF assms])
  have "every_node (\<lambda>n. nkind n \<in> set ALLOWED_KINDS \<or> nkind n = KPlaceholder) (vq_ast vq)"
    using check_node_kind [OF validate_allowlist_node [OF assms(1) allow]] by (auto simp: every_node_def)
  moreover have "nkind (vq_ast vq) = KSelect" using allow validate_allowlist_Inr_iff [OF assms(1)] by blast
  moreover have "in_fragment True (vq_ast vq)" using allow validate_allowlist_fragment [OF assms(1)] by blast
  moreover note sizes = limits_respected [OF assms(1) lim, unfolded limits_from_runtime_def, simplified]
  ultimately show ?thesis using m rest limit by blast
qed

theorem issued_query_is_checked_witness:
  "vq_max_rows good_query = 10 \<and> in_fragment True (vq_ast good_query) \<and>
    (\<exists>q n. parse_select (demo_lib good_parsed) ''SELECT'' demo_limits SQLSERVER = Inr q \<and>
      arg (vq_ast good_query) ''limit'' = ANode (limit_node n) \<and> arg q ''limit'' = ANone \<and> n = 11) \<and>
    int (length (sg_walk (demo_lib good_parsed) (vq_ast good_query))) \<le> rt_max_ast_nodes default_runtime \<and>
    \<not> is_substr TOKEN_PREFIX (vq_sql good_query)"
proof -
  have none: "arg good_parsed ''limit'' = ANone" by code_simp
  note all = issued_query_is_checked [OF walk_ok_demo good_validate [unfolded demo_validate_def]]
  then obtain q n where q: "parse_select (demo_lib good_parsed) ''SELECT'' demo_limits SQLSERVER = Inr q"
    "arg (vq_ast good_query) ''limit'' = ANode (limit_node n)" "if arg q ''limit'' = ANone then n = 10 + 1
       else \<exists>l e k. arg q ''limit'' = ANode l \<and> as_node (arg l ''expression'') = Some e \<and>
         int_of_digits (arg_str (arg e ''this'')) = Some k \<and> n = min k (10 + 1)" by blast
  then have "q = good_parsed" using good_parse by simp
  with q none all show ?thesis by simp
qed

section \<open>Execution\<close>

text \<open>
  C8. The executor's result.  It ran the issued text with the issued binds; the result has the
  rows the cursor returned for \<open>max_rows + 1\<close>, cut to \<open>max_rows\<close>, in order, and says
  exactly whether there were more; every row has one cell per output, null where the value is
  null, sealed where the output is protected, and otherwise the value in the one encoding its
  column is labelled with.
\<close>

theorem result_holds_the_rows:
  assumes "execute_validated al nonces conn vq codec = (Inr res, closed)" and "0 \<le> vq_max_rows vq"
  shows "\<exists>cur fetched encs. conn (vq_sql vq) (vq_parameters vq) = Inr cur \<and>
    cur_fetchmany cur (vq_max_rows vq + 1) = Inr fetched \<and>
    er_truncated res = (int (length fetched) > vq_max_rows vq) \<and>
    int (length (er_rows res)) = min (int (length fetched)) (vq_max_rows vq) \<and>
    list_all2 (row_from al codec nonces (vq_outputs vq) encs) (take (nat (vq_max_rows vq)) fetched) (er_rows res) \<and>
    er_columns res = map (\<lambda>(plan, e). column_of plan e) (zip (vq_outputs vq) encs)"
proof -
  obtain cur where cur: "conn (vq_sql vq) (vq_parameters vq) = Inr cur" "read_result al codec nonces vq cur = Inr res"
    by (rule execute_validated_Inr [OF assms(1)])
  obtain fetched encs where f: "cur_fetchmany cur (vq_max_rows vq + 1) = Inr fetched"
    "er_truncated res = (int (length fetched) > vq_max_rows vq)"
    and rows: "list_all2 (row_from al codec nonces (vq_outputs vq) encs) (take (nat (vq_max_rows vq)) fetched) (er_rows res)"
    and cols: "er_columns res = map (\<lambda>(plan, e). column_of plan e) (zip (vq_outputs vq) encs)"
    by (rule read_result_Inr [OF cur(2)])
  have "length (er_rows res) = min (length fetched) (nat (vq_max_rows vq))"
    using list_all2_lengthD [OF rows] by simp
  then have "int (length (er_rows res)) = min (int (length fetched)) (vq_max_rows vq)"
    using assms(2) by linarith
  with cur(1) f rows cols show ?thesis by blast
qed

theorem result_holds_the_rows_witness:
  "\<exists>cur fetched encs. demo_rows good_rows (vq_sql good_query) (vq_parameters good_query) = Inr cur \<and>
    cur_fetchmany cur (vq_max_rows good_query + 1) = Inr fetched \<and>
    er_truncated good_result = (int (length fetched) > vq_max_rows good_query) \<and>
    int (length (er_rows good_result)) = min (int (length fetched)) (vq_max_rows good_query) \<and>
    list_all2 (row_from plain_aead demo_codec (\<lambda>k. demo_nonce) (vq_outputs good_query) encs)
      (take (nat (vq_max_rows good_query)) fetched) (er_rows good_result) \<and>
    er_columns good_result = map (\<lambda>(plan, e). column_of plan e) (zip (vq_outputs good_query) encs)"
  by (rule result_holds_the_rows [OF good_execute]) (simp add: good_query_def)

text \<open>
  C17. Results are well typed: every row has one cell per column, every cell is null or of the
  kind its column's encoding declares (a decimal, date, time, identifier or base64 text, a JSON
  scalar, or a token within the length limit), and a column is labelled as a token exactly when
  it is protected.
\<close>

theorem cells_conform:
  assumes "execute_validated al nonces conn vq codec = (Inr res, closed)"
  shows "length (er_columns res) = length (vq_outputs vq) \<and>
    list_all (\<lambda>row. list_all2 (\<lambda>col cell. conforms (rc_encoding col) cell) (er_columns res) row) (er_rows res) \<and>
    list_all (\<lambda>col. (rc_encoding col = EncToken) = rc_protected col) (er_columns res)"
proof -
  obtain cur where cur: "read_result al codec nonces vq cur = Inr res"
    using execute_validated_Inr [OF assms] by blast
  obtain fetched encs where len: "length encs = length (vq_outputs vq)"
    and cols: "er_columns res = map (\<lambda>(plan, e). column_of plan e) (zip (vq_outputs vq) encs)"
    and rows: "list_all2 (row_from al codec nonces (vq_outputs vq) encs) (take (nat (vq_max_rows vq)) fetched) (er_rows res)"
    using read_result_Inr [OF cur] by metis
  have "list_all2 (\<lambda>col cell. conforms (rc_encoding col) cell) (er_columns res) row" if "row \<in> set (er_rows res)" for row
  proof -
    from that rows obtain raw where "row_from al codec nonces (vq_outputs vq) encs raw row"
      by (metis in_set_conv_nth list_all2_nthD2)
    with len cols show ?thesis
      by (auto simp: row_from_def list_all2_conv_all_nth intro: cell_from_conforms)
  qed
  with len cols read_result_labels [OF cur] show ?thesis by (simp add: list_all_iff)
qed

theorem cells_conform_witness:
  "length (er_columns good_result) = length (vq_outputs good_query) \<and>
    list_all (\<lambda>row. list_all2 (\<lambda>col cell. conforms (rc_encoding col) cell) (er_columns good_result) row) (er_rows good_result) \<and>
    list_all (\<lambda>col. (rc_encoding col = EncToken) = rc_protected col) (er_columns good_result)"
  by (rule cells_conform [OF good_execute])

text \<open>
  C30. A token carries what the clear cell would show.  The two encoders of the program agree: on
  every value that can be put in a token, the data of the token's payload is the very cell the
  executor would return in the clear, with the encoding that stands for the payload's tag; the
  only exception is a decimal that is not finite, which the executor refuses.
\<close>

theorem encoders_agree:
  assumes "codec_entry v = Some (tag, Inr d)"
  shows "encode v = (if \<exists>x. v = PyDecimal x \<and> \<not> decimal_is_finite x then Inl unsupported_result
    else Inr (data_cell d, tag_encoding tag))"
  by (rule encode_codec_entry [OF assms])

theorem encoders_agree_witness:
  "encode (PyBytes ''x'') = (if \<exists>x. PyBytes ''x'' = PyDecimal x \<and> \<not> decimal_is_finite x then Inl unsupported_result
    else Inr (data_cell (JStr (b64encode ''x'')), tag_encoding ''bytes''))"
  by (rule encoders_agree) simp

text \<open>
  The cursor is closed exactly when one was opened: whatever reading the result raises, and
  never when the codec belongs to another alias or the statement itself failed.
\<close>

theorem cursor_is_closed:
  "snd (execute_validated al nonces conn vq codec) \<longleftrightarrow>
     tc_alias codec = vq_alias vq \<and> (\<exists>cur. conn (vq_sql vq) (vq_parameters vq) = Inr cur)"
  by (auto simp: execute_validated_def split: sum.splits)

section \<open>Parsing and the allowlist\<close>

text \<open>
  C6. The allowlist admits exactly one fragment of SQL.  The code's check, a table of arguments and a
  chain of conditions on one node at a time, passes a query exactly when the query is in the fragment of
  theory \<open>Grammar\<close>: a \<open>SELECT\<close> whose every node, from the root down, fits the production that is
  written there for its class (its arguments, the classes of what stands at them, the names, numbers and
  words allowed, and where a star may stand) and whose projections are of the classes listed there; with
  and without bind placeholders.
\<close>

theorem allowlist_covers_every_node:
  assumes "walk_ok walk"
  shows "validate_allowlist walk q ph = Inr () \<longleftrightarrow>
     nkind q = KSelect \<and> accepts ph None q \<and> list_all projection_class (as_list (arg q ''expressions''))"
  unfolding validate_allowlist_fragment [OF assms] in_fragment_def by (rule refl)

theorem allowlist_covers_every_node_witness:
  "accepts False None leak_parsed \<and> list_all projection_class (as_list (arg leak_parsed ''expressions'')) \<and>
   \<not> accepts False None good_issued"
proof -
  have "validate_allowlist bfs_walk leak_parsed False = Inr ()" "validate_allowlist bfs_walk good_issued False \<noteq> Inr ()"
    "nkind good_issued = KSelect" "list_all projection_class (as_list (arg good_issued ''expressions''))"
    by code_simp+
  with allowlist_covers_every_node [OF walk_ok_bfs_walk] show ?thesis by blast
qed

text \<open>
  Parsing rejects with one error code only, whatever the parser raises: unless the library
  itself raises a domain error, a failing \<open>parse_select\<close> is \<open>QUERY_REJECTED\<close>.
\<close>

theorem parse_select_only_rejects:
  assumes "\<And>e. sg_parse lib (d_name d) sql = Inl e \<Longrightarrow> \<not> is_domain e"
    and "parse_select lib sql lim d = Inl e"
  shows "exn_code e = Some QUERY_REJECTED"
  using parse_select_error [OF assms] .

theorem parse_select_only_rejects_witness:
  "exn_code (reject PARSE_FAILED) = Some QUERY_REJECTED"
proof (rule parse_select_only_rejects)
  let ?lib = "(demo_lib leak_parsed)\<lparr>sg_parse := \<lambda>d s. Inl (ValueError s)\<rparr>"
  show "\<And>e. sg_parse ?lib (d_name SQLSERVER) ''SELECT'' = Inl e \<Longrightarrow> \<not> is_domain e" by auto
  show "parse_select ?lib ''SELECT'' demo_limits SQLSERVER = Inl (reject PARSE_FAILED)" by code_simp
qed

text \<open>
  C35. A parsed query is the caller's one statement: of what the library parses of the text, empty
  statements apart, there is exactly one; it is a \<open>SELECT\<close> within the limits that passed the
  allowlist, and the result is that tree with every comment of every node removed.
\<close>

theorem parsed_query_is_checked:
  assumes "walk_ok (sg_walk lib)" and "parse_select lib sql lim d = Inr q"
  shows "no_comments q \<and> int (length sql) \<le> max_sql_chars lim \<and>
    (\<exists>parsed q0. sg_parse lib (d_name d) sql = Inr parsed \<and> filter (\<lambda>s. s \<noteq> None) parsed = [Some q0] \<and>
      q = strip_comments (sg_walk lib) q0 \<and> nkind q0 = KSelect \<and>
      check_limits (sg_walk lib) q0 lim = Inr () \<and> validate_allowlist (sg_walk lib) q0 False = Inr ())"
proof -
  obtain parsed q0 where "int (length sql) \<le> max_sql_chars lim" "sg_parse lib (d_name d) sql = Inr parsed"
    "filter (\<lambda>s. s \<noteq> None) parsed = [Some q0]" "nkind q0 = KSelect"
    "check_limits (sg_walk lib) q0 lim = Inr ()" "validate_allowlist (sg_walk lib) q0 False = Inr ()"
    "q = strip_comments (sg_walk lib) q0"
    by (rule parse_select_cases [OF assms(2)])
  with no_comments_strip_comments [OF assms(1)] show ?thesis by blast
qed

theorem parsed_query_is_checked_witness:
  "no_comments leak_parsed \<and> int (length ''SELECT'') \<le> max_sql_chars demo_limits \<and>
    (\<exists>parsed q0. sg_parse (demo_lib leak_parsed) (d_name SQLSERVER) ''SELECT'' = Inr parsed \<and>
      filter (\<lambda>s. s \<noteq> None) parsed = [Some q0] \<and>
      leak_parsed = strip_comments (sg_walk (demo_lib leak_parsed)) q0 \<and> nkind q0 = KSelect \<and>
      check_limits (sg_walk (demo_lib leak_parsed)) q0 demo_limits = Inr () \<and>
      validate_allowlist (sg_walk (demo_lib leak_parsed)) q0 False = Inr ())"
  by (rule parsed_query_is_checked [OF walk_ok_demo leak_parse])

text \<open>
  The limits hold of what passes them: at most \<open>max_ast_nodes\<close> nodes, \<open>max_joins\<close>
  joins and \<open>max_in_list_items\<close> items in any membership test, and exceeding any is rejected.
\<close>

theorem limits_are_exact:
  assumes "walk q \<noteq> []"
  shows "check_limits walk q lim = Inr () \<longleftrightarrow> int (length (walk q)) \<le> max_ast_nodes lim \<and>
     int (length (find_all walk [KJoin] q)) \<le> max_joins lim \<and>
     (\<forall>p \<in> set (find_all walk [KIn] q). int (length (expressions_at q p)) \<le> max_in_list_items lim)"
proof -
  have "(\<forall>n \<in> {1..length (walk q)}. int n \<le> max_ast_nodes lim) \<longleftrightarrow> int (length (walk q)) \<le> max_ast_nodes lim"
    using assms by (auto simp: Suc_le_eq)
  then show ?thesis by (simp add: check_limits_Inr_iff)
qed

theorem limits_are_exact_witness:
  "check_limits bfs_walk leak_parsed demo_limits = Inr () \<longleftrightarrow>
     int (length (bfs_walk leak_parsed)) \<le> max_ast_nodes demo_limits \<and>
     int (length (find_all bfs_walk [KJoin] leak_parsed)) \<le> max_joins demo_limits \<and>
     (\<forall>p \<in> set (find_all bfs_walk [KIn] leak_parsed).
        int (length (expressions_at leak_parsed p)) \<le> max_in_list_items demo_limits)"
proof (rule limits_are_exact)
  show "bfs_walk leak_parsed \<noteq> []" by code_simp
qed

end
